(* ===== verification/Prelude.thy ===== *)
theory Prelude
  imports Main "HOL-Library.Word" "HOL-Library.AList" "HOL-Library.Char_ord"
    "HOL-Library.List_Lexorder"
begin

text \<open>
  The library the components share: results with an error message, the pieces of
  the C++ string class the program uses (\<open>find\<close>, \<open>rfind\<close>, \<open>substr\<close>, \<open>c_str\<close>),
  decimal formatting, the machine integer conversions of the SQLite column
  accessors, ordered maps (\<open>std::map\<close>), and three interfaces that several
  components instantiate: a token codec, a keyed table and a step system with an
  invariant.
\<close>

named_theorems frame \<open>what an operation leaves unchanged\<close>
named_theorems msg_nonempty \<open>diagnostics are never the empty string\<close>

section \<open>Results\<close>

text \<open>
  A C++ function \<open>bool f(..., T& out, std::string& error)\<close> is a function into
  \<open>'a res\<close>: \<open>Inl error\<close> for \<open>return false\<close> with the message set, \<open>Inr out\<close> for
  \<open>return true\<close>.
\<close>

type_synonym 'a res = "string + 'a"

section \<open>Strings\<close>

text \<open>The value of \<open>static_cast<unsigned char>(c)\<close>.\<close>

abbreviation byte :: "char \<Rightarrow> nat" where
  "byte c \<equiv> of_char c"

abbreviation NUL :: char where
  "NUL \<equiv> CHR 0x00"

abbreviation CR :: char where
  "CR \<equiv> CHR 0x0D"

abbreviation LF :: char where
  "LF \<equiv> CHR 0x0A"

abbreviation TAB :: char where
  "TAB \<equiv> CHR 0x09"

abbreviation DQ :: char where
  "DQ \<equiv> CHR 0x22"

abbreviation BACKSLASH :: char where
  "BACKSLASH \<equiv> CHR 0x5C"

abbreviation QUOTE :: string where
  "QUOTE \<equiv> [CHR 0x27]"

text \<open>What a C interface sees of \<open>s.c_str()\<close>: everything before the first NUL.\<close>

definition c_str :: "string \<Rightarrow> string" where
  "c_str s = takeWhile (\<lambda>c. c \<noteq> NUL) s"

definition nul_free :: "string \<Rightarrow> bool" where
  "nul_free s \<longleftrightarrow> NUL \<notin> set s"

lemma c_str_nul_free [simp]: "nul_free s \<Longrightarrow> c_str s = s"
  by (auto simp: c_str_def nul_free_def takeWhile_eq_all_conv)

lemma nul_free_c_str [simp]: "nul_free (c_str s)"
  by (auto simp: c_str_def nul_free_def dest: set_takeWhileD)

lemma c_str_idem [simp]: "c_str (c_str s) = c_str s"
  by simp

lemma c_str_Nil [simp]: "c_str [] = []"
  by (simp add: c_str_def)

lemma nul_free_Nil [simp]: "nul_free []"
  by (simp add: nul_free_def)

lemma nul_free_Cons [simp]: "nul_free (c # s) \<longleftrightarrow> c \<noteq> NUL \<and> nul_free s"
  by (auto simp: nul_free_def)

lemma nul_free_append [simp]: "nul_free (s @ t) \<longleftrightarrow> nul_free s \<and> nul_free t"
  by (auto simp: nul_free_def)

text \<open>\<open>s.find(c)\<close> and \<open>s.rfind(c)\<close>; \<open>None\<close> is \<open>npos\<close>.\<close>

fun find_char :: "char \<Rightarrow> string \<Rightarrow> nat option" where
  "find_char c [] = None"
| "find_char c (x # xs) = (if x = c then Some 0 else map_option Suc (find_char c xs))"

fun rfind_char :: "char \<Rightarrow> string \<Rightarrow> nat option" where
  "rfind_char c [] = None"
| "rfind_char c (x # xs) =
     (case rfind_char c xs of
        Some i \<Rightarrow> Some (Suc i)
      | None \<Rightarrow> (if x = c then Some 0 else None))"

lemma find_char_None: "find_char c s = None \<longleftrightarrow> c \<notin> set s"
  by (induction s) auto

lemma rfind_char_None: "rfind_char c s = None \<longleftrightarrow> c \<notin> set s"
  by (induction s) (auto split: option.splits)

lemma find_char_SomeD:
  "find_char c s = Some i \<Longrightarrow> i < length s \<and> s ! i = c \<and> c \<notin> set (take i s)"
  by (induction s arbitrary: i) (auto split: if_splits)

lemma rfind_char_SomeD:
  "rfind_char c s = Some i \<Longrightarrow> i < length s \<and> s ! i = c \<and> c \<notin> set (drop (Suc i) s)"
proof (induction s arbitrary: i)
  case (Cons x xs)
  then show ?case
    by (cases "rfind_char c xs") (auto simp: rfind_char_None split: if_splits)
qed simp

lemma find_char_hit: "c \<notin> set s \<Longrightarrow> find_char c (s @ c # t) = Some (length s)"
  by (induction s) auto

lemma rfind_char_hit: "c \<notin> set t \<Longrightarrow> rfind_char c (s @ c # t) = Some (length s)"
  by (induction s) (auto simp: rfind_char_None split: option.splits)

text \<open>\<open>s.substr(i, n)\<close> for \<open>i\<close> within the string.\<close>

definition substr :: "nat \<Rightarrow> nat \<Rightarrow> string \<Rightarrow> string" where
  "substr i n s = take n (drop i s)"

section \<open>Decimal formatting\<close>

text \<open>\<open>operator<<\<close> and \<open>\<percent>llu\<close> on an unsigned value.\<close>

definition digit_char :: "nat \<Rightarrow> char" where
  "digit_char d = char_of (48 + d)"

function nat_dec :: "nat \<Rightarrow> string" where
  "nat_dec n = (if n < 10 then [digit_char n] else nat_dec (n div 10) @ [digit_char (n mod 10)])"
  by pat_completeness auto
termination
  by (relation "measure id") auto

declare nat_dec.simps [simp del]

definition int_dec :: "int \<Rightarrow> string" where
  "int_dec i = (if i < 0 then CHR ''-'' # nat_dec (nat (- i)) else nat_dec (nat i))"

definition is_digit :: "char \<Rightarrow> bool" where
  "is_digit c \<longleftrightarrow> 48 \<le> byte c \<and> byte c \<le> 57"

definition digit_val :: "char \<Rightarrow> nat" where
  "digit_val c = byte c - 48"

text \<open>The value of a digit string, most significant digit first.\<close>

definition dec_val :: "string \<Rightarrow> nat" where
  "dec_val s = foldl (\<lambda>acc c. acc * 10 + digit_val c) 0 s"

lemma byte_less_256 [simp]: "byte c < 256"
proof -
  have "of_char c < (2 ^ 8 :: nat)"
    by (cases c) (simp add: of_char_def horner_sum_of_bool_2_less)
  then show ?thesis by simp
qed

lemma byte_inject [simp]: "byte c = byte d \<longleftrightarrow> c = d"
  by (rule of_char_eq_iff)

lemma digit_char_digit [simp]: "d < 10 \<Longrightarrow> is_digit (digit_char d)"
  by (simp add: is_digit_def digit_char_def)

lemma digit_val_digit_char [simp]: "d < 10 \<Longrightarrow> digit_val (digit_char d) = d"
  by (simp add: digit_val_def digit_char_def)

lemma dec_val_snoc [simp]: "dec_val (s @ [c]) = dec_val s * 10 + digit_val c"
  by (simp add: dec_val_def)

lemma dec_val_single [simp]: "dec_val [c] = digit_val c"
  by (simp add: dec_val_def)

lemma dec_val_nat_dec [simp]: "dec_val (nat_dec n) = n"
proof (induction n rule: nat_dec.induct)
  case (1 n)
  show ?case
  proof (cases "n < 10")
    case True
    then show ?thesis by (subst nat_dec.simps) simp
  next
    case False
    with "1" show ?thesis by (subst nat_dec.simps) simp
  qed
qed

lemma nat_dec_inject [simp]: "nat_dec m = nat_dec n \<longleftrightarrow> m = n"
  by (metis dec_val_nat_dec)

lemma nat_dec_digits: "list_all is_digit (nat_dec n)"
proof (induction n rule: nat_dec.induct)
  case (1 n)
  then show ?case
    by (cases "n < 10") (subst nat_dec.simps, simp)+
qed

lemma nat_dec_not_Nil [simp]: "nat_dec n \<noteq> []"
  by (subst nat_dec.simps) simp

lemma nat_dec_mem: "c \<in> set (nat_dec n) \<Longrightarrow> is_digit c"
  using nat_dec_digits [of n] by (auto simp: list_all_iff)

lemma nul_free_nat_dec [simp]: "nul_free (nat_dec n)"
  by (auto simp: nul_free_def is_digit_def dest: nat_dec_mem)

section \<open>Integer widths\<close>

text \<open>
  \<open>sqlite3_column_int\<close> returns the low 32 bits of the stored 64-bit integer as a
  signed value; \<open>static_cast<std::uint64_t>\<close> of a signed value is its residue.
\<close>

definition column_int :: "int \<Rightarrow> int" where
  "column_int v = sint (word_of_int v :: 32 word)"

definition to_u64 :: "int \<Rightarrow> 64 word" where
  "to_u64 v = word_of_int v"

definition of_u64 :: "64 word \<Rightarrow> int" where
  "of_u64 w = sint w"

lemma to_of_u64 [simp]: "to_u64 (of_u64 w) = w"
  by (simp add: to_u64_def of_u64_def)

lemma column_int_small: "- (2 ^ 31) \<le> v \<Longrightarrow> v < 2 ^ 31 \<Longrightarrow> column_int v = v"
  by (simp add: column_int_def signed_take_bit_int_eq_self_iff sint_sbintrunc')

section \<open>Ordered maps\<close>

text \<open>
  \<open>std::map<std::string, T>\<close> as an association list in ascending key order (the
  order of iteration; bytes compare as unsigned values).
\<close>

type_synonym 'v smap = "(string \<times> 'v) list"

fun smap_put :: "string \<Rightarrow> 'v \<Rightarrow> 'v smap \<Rightarrow> 'v smap" where
  "smap_put k v [] = [(k, v)]"
| "smap_put k v ((k', v') # m) =
     (if k < k' then (k, v) # (k', v') # m
      else if k = k' then (k, v) # m
      else (k', v') # smap_put k v m)"

definition smap_erase :: "string \<Rightarrow> 'v smap \<Rightarrow> 'v smap" where
  "smap_erase k m = filter (\<lambda>e. fst e \<noteq> k) m"

abbreviation smap_keys :: "'v smap \<Rightarrow> string set" where
  "smap_keys m \<equiv> fst ` set m"

definition smap_ok :: "'v smap \<Rightarrow> bool" where
  "smap_ok m \<longleftrightarrow> sorted_wrt (<) (map fst m)"

lemma smap_ok_Nil [simp]: "smap_ok []"
  by (simp add: smap_ok_def)

lemma smap_keys_put [simp]: "smap_keys (smap_put k v m) = insert k (smap_keys m)"
  by (induction m rule: smap_put.induct) auto

lemma smap_keys_erase [simp]: "smap_keys (smap_erase k m) = smap_keys m - {k}"
  by (auto simp: smap_erase_def)

lemma smap_put_ok [simp]: "smap_ok m \<Longrightarrow> smap_ok (smap_put k v m)"
proof (induction m rule: smap_put.induct)
  case (2 k v k' v' m)
  have keys: "set (map fst (smap_put k v m)) = insert k (fst ` set m)"
    by (metis list.set_map smap_keys_put)
  show ?case
    using "2" keys unfolding smap_ok_def by auto
qed (simp add: smap_ok_def)

lemma smap_erase_ok [simp]: "smap_ok m \<Longrightarrow> smap_ok (smap_erase k m)"
  by (simp add: smap_ok_def smap_erase_def sorted_wrt_map sorted_wrt_filter)

lemma map_of_smap_put: "smap_ok m \<Longrightarrow> map_of (smap_put k v m) = (map_of m)(k \<mapsto> v)"
proof (induction m rule: smap_put.induct)
  case (2 k v k' v' m)
  then show ?case
    by (auto simp: smap_ok_def fun_upd_twist)
qed simp

lemma map_of_smap_erase: "map_of (smap_erase k m) = (map_of m)(k := None)"
  by (induction m) (auto simp: smap_erase_def)

section \<open>Interfaces\<close>

text \<open>
  A token codec: an enumeration with a textual token per value and the decoder a
  reader of the token uses.
\<close>

locale token_codec =
  fixes enc :: "'a \<Rightarrow> string"
    and dec :: "string \<Rightarrow> 'a option"
  assumes dec_enc: "dec (enc x) = Some x"
    and enc_dec: "dec t = Some x \<Longrightarrow> t = enc x"
begin

lemma enc_inject: "enc x = enc y \<longleftrightarrow> x = y"
  by (metis dec_enc option.inject)

lemma dec_Some_iff: "dec t = Some x \<longleftrightarrow> t = enc x"
  using dec_enc enc_dec by blast

lemma dec_None_iff: "dec t = None \<longleftrightarrow> t \<notin> range enc"
proof
  assume "dec t = None"
  then show "t \<notin> range enc" by (auto simp: dec_enc)
next
  assume "t \<notin> range enc"
  then show "dec t = None" by (metis enc_dec option.exhaust rangeI)
qed

end

text \<open>
  A table with a key: what a primary key promises to the code above it. Inserting is
  only specified for a fresh key; a modification keeps the key of the record.
\<close>

locale keyed_table =
  fixes key :: "'r \<Rightarrow> 'k"
    and lookup :: "'t \<Rightarrow> 'k \<Rightarrow> 'r option"
    and insert_row :: "'r \<Rightarrow> 't \<Rightarrow> 't"
    and modify :: "'k \<Rightarrow> ('r \<Rightarrow> 'r) \<Rightarrow> 't \<Rightarrow> 't"
    and keyed :: "'t \<Rightarrow> bool"
  assumes lookup_insert: "lookup t (key r) = None \<Longrightarrow> lookup (insert_row r t) k =
      (if k = key r then Some r else lookup t k)"
    and lookup_modify: "(\<And>r. key (f r) = key r) \<Longrightarrow> lookup (modify k f t) k' =
      (if k' = k then map_option f (lookup t k) else lookup t k')"
    and keyed_insert: "keyed t \<Longrightarrow> lookup t (key r) = None \<Longrightarrow> keyed (insert_row r t)"
    and keyed_modify: "keyed t \<Longrightarrow> (\<And>r. key (f r) = key r) \<Longrightarrow> keyed (modify k f t)"
    and lookup_key: "lookup t k = Some r \<Longrightarrow> key r = k"
begin

lemma insert_then_lookup: "lookup t (key r) = None \<Longrightarrow> lookup (insert_row r t) (key r) = Some r"
  by (simp add: lookup_insert)

lemma insert_keeps: "lookup t (key r) = None \<Longrightarrow> lookup t k = Some r' \<Longrightarrow>
    lookup (insert_row r t) k = Some r'"
  by (auto simp: lookup_insert)

lemma modify_dom: "(\<And>r. key (f r) = key r) \<Longrightarrow> lookup (modify k f t) k' = None \<longleftrightarrow> lookup t k' = None"
  by (simp add: lookup_modify)

lemma modify_absent: "(\<And>r. key (f r) = key r) \<Longrightarrow> lookup t k = None \<Longrightarrow>
    lookup (modify k f t) = lookup t"
  by (rule ext) (simp add: lookup_modify)

lemma modify_commute:
  "(\<And>r. key (f r) = key r) \<Longrightarrow> (\<And>r. key (g r) = key r) \<Longrightarrow> k \<noteq> k' \<Longrightarrow>
    lookup (modify k f (modify k' g t)) = lookup (modify k' g (modify k f t))"
  by (rule ext) (simp add: lookup_modify)

end

text \<open>A system of steps with an invariant: safety of every reachable state.\<close>

locale step_system =
  fixes step :: "'s \<Rightarrow> 's \<Rightarrow> bool"
    and inv :: "'s \<Rightarrow> bool"
  assumes inv_step: "inv s \<Longrightarrow> step s t \<Longrightarrow> inv t"
begin

lemma inv_reach: "step\<^sup>*\<^sup>* s t \<Longrightarrow> inv s \<Longrightarrow> inv t"
  by (induction rule: rtranclp_induct) (auto intro: inv_step)

end

text \<open>Steps that climb a bounded rank: every run is short and no state recurs.\<close>

locale ranked_steps =
  fixes step :: "'s \<Rightarrow> 's \<Rightarrow> bool"
    and rank :: "'s \<Rightarrow> nat"
    and top_rank :: nat
  assumes rank_step: "step s t \<Longrightarrow> rank s < rank t"
    and rank_le: "rank s \<le> top_rank"
begin

lemma rank_relpowp: "(step ^^ n) s t \<Longrightarrow> rank s + n \<le> rank t"
proof (induction n arbitrary: t)
  case (Suc n)
  then obtain u where "(step ^^ n) s u" and "step u t" by auto
  then have "rank s + n \<le> rank u" and "rank u < rank t"
    by (auto intro: Suc.IH rank_step)
  then show ?case by simp
qed simp

lemma run_bounded: "(step ^^ n) s t \<Longrightarrow> n \<le> top_rank"
  using rank_relpowp rank_le by (meson le_add2 order.trans)

lemma rank_tranclp: "step\<^sup>+\<^sup>+ s t \<Longrightarrow> rank s < rank t"
  by (induction rule: tranclp_induct) (auto dest: rank_step)

lemma no_recurrence: "\<not> step\<^sup>+\<^sup>+ s s"
  using rank_tranclp by blast

end

text \<open>Steps that each use up a part of the work left: every run ends, and in a state without work.\<close>

locale falling_steps =
  fixes step :: "'s \<Rightarrow> 's \<Rightarrow> bool"
    and work :: "'s \<Rightarrow> nat"
  assumes work_step: "step s t \<Longrightarrow> work t < work s"
begin

lemma run_length: "(step ^^ n) s t \<Longrightarrow> n + work t \<le> work s"
proof (induction n arbitrary: t)
  case (Suc n)
  then obtain u where "(step ^^ n) s u" and "step u t" by auto
  then have "n + work u \<le> work s" and "work t < work u" by (auto intro: Suc.IH work_step)
  then show ?case by simp
qed simp

lemma run_ends: "\<exists>t. step\<^sup>*\<^sup>* s t \<and> (\<forall>u. \<not> step t u)"
proof (induction "work s" arbitrary: s rule: less_induct)
  case less
  show ?case
  proof (cases "\<exists>u. step s u")
    case True
    then obtain u where u: "step s u" by blast
    with less.hyps [OF work_step] obtain t where "step\<^sup>*\<^sup>* u t" "\<forall>v. \<not> step t v" by blast
    with u show ?thesis by (meson converse_rtranclp_into_rtranclp)
  qed blast
qed

end

end
