(* ===== verification/Json.thy ===== *)
theory Json
  imports Prelude
begin

text \<open>
  The JSON parser and escaper (\<open>cpp/src/json.cpp\<close>, \<open>cpp/include/filemover/json.hpp\<close>). The
  parser's position \<open>i_\<close> is the input that is left; a failure carries its message and the input
  left at that point, from which \<open>run\<close> computes the offset it reports. The depth is counted
  down: \<open>levels\<close> is \<open>max_depth + 1 - depth\<close>, and \<open>room\<close> is what the member or element limit leaves.
\<close>

section \<open>Data\<close>

datatype json_value =
  JBool bool
| JInt int
| JString string
| JArray "json_value list"
| JObject "(string \<times> json_value) list"

record json_limits =
  max_depth :: nat
  max_input_bytes :: nat
  max_string_bytes :: nat
  max_members :: nat
  max_elements :: nat

definition default_limits :: json_limits where
  "default_limits = \<lparr>max_depth = 4, max_input_bytes = 65536, max_string_bytes = 4096,
     max_members = 64, max_elements = 64\<rparr>"

type_synonym 'a parsed = "(string \<times> string) + ('a \<times> string)"

definition json_find :: "string \<Rightarrow> json_value \<Rightarrow> json_value option" where
  "json_find key v = (case v of JObject ms \<Rightarrow> map_of ms key | _ \<Rightarrow> None)"

section \<open>Characters\<close>

definition json_ws :: "char \<Rightarrow> bool" where
  "json_ws c \<longleftrightarrow> c = CHR '' '' \<or> c = TAB \<or> c = LF \<or> c = CR"

definition skip_ws :: "string \<Rightarrow> string" where
  "skip_ws cs = dropWhile json_ws cs"

definition hex_value :: "char \<Rightarrow> nat option" where
  "hex_value c =
     (if 48 \<le> byte c \<and> byte c \<le> 57 then Some (byte c - 48)
      else if 97 \<le> byte c \<and> byte c \<le> 102 then Some (byte c - 97 + 10)
      else if 65 \<le> byte c \<and> byte c \<le> 70 then Some (byte c - 65 + 10)
      else None)"

text \<open>\<open>append_utf8\<close>: the bits joined by \<open>|\<close> are disjoint, so the sums are the same.\<close>

definition append_utf8 :: "nat \<Rightarrow> string" where
  "append_utf8 cp =
     (if cp < 0x80 then [char_of cp]
      else if cp < 0x800 then [char_of (0xC0 + cp div 64), char_of (0x80 + cp mod 64)]
      else if cp < 0x10000
      then [char_of (0xE0 + cp div 4096), char_of (0x80 + cp div 64 mod 64), char_of (0x80 + cp mod 64)]
      else [char_of (0xF0 + cp div 262144), char_of (0x80 + cp div 4096 mod 64),
            char_of (0x80 + cp div 64 mod 64), char_of (0x80 + cp mod 64)])"

section \<open>Strings\<close>

text \<open>The length of the sequence a lead byte announces and the range of the second byte.\<close>

definition utf8_lead :: "nat \<Rightarrow> (nat \<times> nat \<times> nat) option" where
  "utf8_lead c =
     (if c < 0x80 then Some (1, 0x80, 0xBF)
      else if 0xC2 \<le> c \<and> c \<le> 0xDF then Some (2, 0x80, 0xBF)
      else if 0xE0 \<le> c \<and> c \<le> 0xEF
      then Some (3, (if c = 0xE0 then 0xA0 else 0x80), (if c = 0xED then 0x9F else 0xBF))
      else if 0xF0 \<le> c \<and> c \<le> 0xF4
      then Some (4, (if c = 0xF0 then 0x90 else 0x80), (if c = 0xF4 then 0x8F else 0xBF))
      else None)"

definition continuation_ok :: "nat \<Rightarrow> nat \<Rightarrow> string \<Rightarrow> bool" where
  "continuation_ok lo2 hi2 conts = (case conts of
     [] \<Rightarrow> True
   | c # rest \<Rightarrow> lo2 \<le> byte c \<and> byte c \<le> hi2 \<and> list_all (\<lambda>d. 0x80 \<le> byte d \<and> byte d \<le> 0xBF) rest)"

definition consume_utf8 :: "string \<Rightarrow> string + nat" where
  "consume_utf8 cs = (case utf8_lead (byte (hd cs)) of
     None \<Rightarrow> Inl ''invalid UTF-8 lead byte in string''
   | Some (len, lo2, hi2) \<Rightarrow>
      (if length cs < len then Inl ''truncated UTF-8 sequence''
       else if \<not> continuation_ok lo2 hi2 (drop 1 (take len cs))
       then Inl ''invalid UTF-8 continuation byte in string''
       else Inr len))"

fun hex_digits :: "nat \<Rightarrow> string \<Rightarrow> nat option" where
  "hex_digits v [] = Some v"
| "hex_digits v (c # cs) = (case hex_value c of None \<Rightarrow> None | Some d \<Rightarrow> hex_digits (v * 16 + d) cs)"

definition parse_hex4 :: "string \<Rightarrow> string + nat" where
  "parse_hex4 cs =
     (if length cs < 4 then Inl (''truncated '' @ [BACKSLASH] @ ''u escape'')
      else case hex_digits 0 (take 4 cs) of
        None \<Rightarrow> Inl (''invalid hex digit in '' @ [BACKSLASH] @ ''u escape'')
      | Some v \<Rightarrow> Inr v)"

definition simple_escape :: "char \<Rightarrow> char option" where
  "simple_escape e =
     (if e = DQ then Some DQ
      else if e = BACKSLASH then Some BACKSLASH
      else if e = CHR ''/'' then Some (CHR ''/'')
      else if e = CHR ''b'' then Some (CHR 0x08)
      else if e = CHR ''f'' then Some (CHR 0x0C)
      else if e = CHR ''n'' then Some LF
      else if e = CHR ''r'' then Some CR
      else if e = CHR ''t'' then Some TAB
      else None)"

text \<open>A unicode escape, with the input after its \<open>u\<close>: the code point and what is left, or the failure.\<close>

definition unicode_escape :: "string \<Rightarrow> nat parsed" where
  "unicode_escape cs = (case parse_hex4 cs of
     Inl m \<Rightarrow> Inl (m, cs)
   | Inr cp \<Rightarrow>
      (let cs1 = drop 4 cs in
       if cp = 0 then Inl (''embedded NUL is not permitted'', cs1)
       else if 0xD800 \<le> cp \<and> cp \<le> 0xDBFF
       then
         (if length cs1 < 2 \<or> cs1 ! 0 \<noteq> BACKSLASH \<or> cs1 ! 1 \<noteq> CHR ''u'' then Inl (''lone high surrogate'', cs1)
          else
            let cs2 = drop 2 cs1 in
            case parse_hex4 cs2 of
              Inl m \<Rightarrow> Inl (m, cs2)
            | Inr lo \<Rightarrow>
                (if lo < 0xDC00 \<or> lo > 0xDFFF then Inl (''invalid low surrogate'', drop 4 cs2)
                 else Inr (0x10000 + (cp - 0xD800) * 1024 + (lo - 0xDC00), drop 4 cs2)))
       else if 0xDC00 \<le> cp \<and> cp \<le> 0xDFFF then Inl (''lone low surrogate'', cs1)
       else Inr (cp, cs1)))"

lemma unicode_escape_shorter: "unicode_escape cs = Inr (cp, cs') \<Longrightarrow> length cs' < length cs"
  by (auto simp: unicode_escape_def parse_hex4_def Let_def split: if_splits sum.splits option.splits)

lemma consume_utf8_pos: "consume_utf8 cs = Inr n \<Longrightarrow> 0 < n \<and> n \<le> length cs"
  by (cases cs) (auto simp: consume_utf8_def utf8_lead_def Suc_le_eq split: if_splits option.splits)

text \<open>\<open>parse_string\<close> after the opening quote.\<close>

function string_loop :: "nat \<Rightarrow> string \<Rightarrow> string \<Rightarrow> string parsed" where
  "string_loop limit out cs =
     (if cs = [] then Inl (''unterminated string'', cs)
      else if length out > limit then Inl (''string exceeds the maximum length'', cs)
      else if hd cs = DQ then Inr (out, tl cs)
      else if byte (hd cs) < 0x20 then Inl (''unescaped control character in string'', cs)
      else if hd cs \<noteq> BACKSLASH
      then (case consume_utf8 cs of
              Inl m \<Rightarrow> Inl (m, cs)
            | Inr n \<Rightarrow> string_loop limit (out @ take n cs) (drop n cs))
      else if tl cs = [] then Inl (''unterminated escape sequence'', tl cs)
      else (case simple_escape (cs ! 1) of
              Some c \<Rightarrow> string_loop limit (out @ [c]) (drop 2 cs)
            | None \<Rightarrow>
                (if cs ! 1 = CHR ''u''
                 then (case unicode_escape (drop 2 cs) of
                         Inl f \<Rightarrow> Inl f
                       | Inr p \<Rightarrow> string_loop limit (out @ append_utf8 (fst p)) (snd p))
                 else Inl (''unrecognized escape character'', drop 2 cs))))"
  by pat_completeness auto
termination
proof (relation "measure (\<lambda>(_, _, cs). length cs)", goal_cases)
  case (2 limit out cs n)
  then show ?case using consume_utf8_pos [of cs n] by (cases cs) auto
next
  case (4 limit out cs p)
  then show ?case by (cases cs) auto
next
  case (3 limit out cs p)
  then show ?case using unicode_escape_shorter [of "drop 2 cs" "fst p" "snd p"] by (cases cs) auto
qed auto

declare string_loop.simps [simp del]

definition parse_string :: "json_limits \<Rightarrow> string \<Rightarrow> string parsed" where
  "parse_string lim cs = string_loop (max_string_bytes lim) [] (tl cs)"

section \<open>Numbers\<close>

fun number_acc :: "nat \<Rightarrow> nat \<Rightarrow> string \<Rightarrow> nat option" where
  "number_acc limit acc [] = Some acc"
| "number_acc limit acc (c # cs) =
     (let d = byte c - 48 in
      if acc > (limit - d) div 10 then None else number_acc limit (acc * 10 + d) cs)"

text \<open>\<open>parse_number\<close> from the first digit on.\<close>

definition parse_digits :: "bool \<Rightarrow> string \<Rightarrow> int parsed" where
  "parse_digits negative cs =
     (if cs = [] then Inl (''number has no digits'', cs)
      else if \<not> is_digit (hd cs) then Inl (''number has no digits'', cs)
      else if hd cs = CHR ''0'' \<and> tl cs \<noteq> [] \<and> is_digit (hd (tl cs))
      then Inl (''leading zeros are not permitted'', tl cs)
      else
        let digits = (if hd cs = CHR ''0'' then [hd cs] else takeWhile is_digit cs);
            rest = (if hd cs = CHR ''0'' then tl cs else dropWhile is_digit cs);
            limit = (if negative then 2 ^ 63 else 2 ^ 63 - 1) in
        if rest \<noteq> [] \<and> hd rest = CHR ''.'' then Inl (''floating-point values are not accepted'', rest)
        else if rest \<noteq> [] \<and> (hd rest = CHR ''e'' \<or> hd rest = CHR ''E'')
        then Inl (''exponent notation is not accepted'', rest)
        else case number_acc limit 0 digits of
          None \<Rightarrow> Inl (''integer is out of the representable range'', rest)
        | Some acc \<Rightarrow> Inr (if negative then - int acc else int acc, rest))"

definition parse_number :: "string \<Rightarrow> int parsed" where
  "parse_number cs = (if hd cs = CHR ''-'' then parse_digits True (tl cs) else parse_digits False cs)"

section \<open>Values\<close>

definition parse_literal :: "string \<Rightarrow> 'a \<Rightarrow> string \<Rightarrow> 'a parsed" where
  "parse_literal word v cs =
     (if take (length word) cs \<noteq> word then Inl (''invalid literal'', cs) else Inr (v, drop (length word) cs))"

text \<open>\<open>parse_value\<close>, the member loop of \<open>parse_object\<close> and the element loop of \<open>parse_array\<close>.\<close>

function (sequential) parse_value :: "json_limits \<Rightarrow> nat \<Rightarrow> string \<Rightarrow> json_value parsed"
  and parse_members :: "json_limits \<Rightarrow> nat \<Rightarrow> nat \<Rightarrow> (string \<times> json_value) list \<Rightarrow> string \<Rightarrow> json_value parsed"
  and parse_elements :: "json_limits \<Rightarrow> nat \<Rightarrow> nat \<Rightarrow> json_value list \<Rightarrow> string \<Rightarrow> json_value parsed" where
  "parse_value lim 0 cs = Inl (''maximum nesting depth exceeded'', cs)"
| "parse_value lim (Suc levels) [] = Inl (''unexpected end of input'', [])"
| "parse_value lim (Suc levels) (c # cs) =
     (if c = CHR ''{''
      then
        let cs1 = skip_ws cs in
        if cs1 = [] then Inl (''unterminated object'', cs1)
        else if hd cs1 = CHR ''}'' then Inr (JObject [], tl cs1)
        else parse_members lim levels (max_members lim) [] cs1
      else if c = CHR ''[''
      then
        let cs1 = skip_ws cs in
        if cs1 = [] then Inl (''unterminated array'', cs1)
        else if hd cs1 = CHR '']'' then Inr (JArray [], tl cs1)
        else parse_elements lim levels (max_elements lim) [] cs1
      else if c = DQ
      then (case parse_string lim (c # cs) of Inl f \<Rightarrow> Inl f | Inr (v, cs1) \<Rightarrow> Inr (JString v, cs1))
      else if c = CHR ''t'' then parse_literal ''true'' (JBool True) (c # cs)
      else if c = CHR ''f'' then parse_literal ''false'' (JBool False) (c # cs)
      else if c = CHR ''n'' then Inl (''null is not an accepted value'', c # cs)
      else if c = CHR ''-'' \<or> is_digit c
      then (case parse_number (c # cs) of Inl f \<Rightarrow> Inl f | Inr (v, cs1) \<Rightarrow> Inr (JInt v, cs1))
      else Inl (''unexpected character'', c # cs))"
| "parse_members lim levels room ms cs =
     (let cs0 = skip_ws cs in
      if cs0 = [] then Inl (''unterminated object'', cs0)
      else if hd cs0 \<noteq> DQ then Inl (''object member name must be a quoted string'', cs0)
      else case parse_string lim cs0 of
        Inl f \<Rightarrow> Inl f
      | Inr (key, cs1) \<Rightarrow>
         (if key \<in> set (map fst ms) then Inl (''duplicate object member name'', cs1)
          else if room = 0 then Inl (''object exceeds the maximum member count'', cs1)
          else
            let cs2 = skip_ws cs1 in
            if cs2 = [] \<or> hd cs2 \<noteq> CHR '':'' then Inl (''expected '' @ QUOTE @ '':'' @ QUOTE @ '' after member name'', cs2)
            else case parse_value lim levels (skip_ws (tl cs2)) of
              Inl f \<Rightarrow> Inl f
            | Inr (v, cs3) \<Rightarrow>
               (let ms1 = ms @ [(key, v)]; cs4 = skip_ws cs3 in
                if cs4 = [] then Inl (''unterminated object'', cs4)
                else if hd cs4 = CHR '','' then parse_members lim levels (room - 1) ms1 (tl cs4)
                else if hd cs4 = CHR ''}'' then Inr (JObject ms1, tl cs4)
                else Inl (''expected '' @ QUOTE @ '','' @ QUOTE @ '' or '' @ QUOTE @ ''}'' @ QUOTE @ '' in object'', cs4))))"
| "parse_elements lim levels room es cs =
     (let cs0 = skip_ws cs in
      if cs0 = [] then Inl (''unterminated array'', cs0)
      else if room = 0 then Inl (''array exceeds the maximum element count'', cs0)
      else case parse_value lim levels cs0 of
        Inl f \<Rightarrow> Inl f
      | Inr (v, cs1) \<Rightarrow>
         (let es1 = es @ [v]; cs2 = skip_ws cs1 in
          if cs2 = [] then Inl (''unterminated array'', cs2)
          else if hd cs2 = CHR '','' then parse_elements lim levels (room - 1) es1 (tl cs2)
          else if hd cs2 = CHR '']'' then Inr (JArray es1, tl cs2)
          else Inl (''expected '' @ QUOTE @ '','' @ QUOTE @ '' or '' @ QUOTE @ '']'' @ QUOTE @ '' in array'', cs2)))"
  by pat_completeness auto
termination
  by (relation "measures [\<lambda>x. case x of Inl (_, l, _) \<Rightarrow> l | Inr (Inl (_, l, _)) \<Rightarrow> l | Inr (Inr (_, l, _)) \<Rightarrow> l,
       \<lambda>x. case x of Inl _ \<Rightarrow> 0 | Inr (Inl (_, _, room, _)) \<Rightarrow> Suc room | Inr (Inr (_, _, room, _)) \<Rightarrow> Suc room]") auto

declare parse_value.simps(3) [simp del] parse_members.simps [simp del] parse_elements.simps [simp del]

section \<open>The document\<close>

definition json_run :: "json_limits \<Rightarrow> string \<Rightarrow> json_value parsed" where
  "json_run lim input =
     (if length input > max_input_bytes lim then Inl (''input exceeds the configured maximum size'', input)
      else if length input \<ge> 3 \<and> byte (input ! 0) = 0xEF \<and> byte (input ! 1) = 0xBB \<and> byte (input ! 2) = 0xBF
      then Inl (''leading byte-order mark is not permitted'', input)
      else
        let cs = skip_ws input in
        if cs = [] then Inl (''input is empty'', cs)
        else if hd cs \<noteq> CHR ''{'' then Inl (''top-level value must be an object'', cs)
        else case parse_value lim (max_depth lim) cs of
          Inl f \<Rightarrow> Inl f
        | Inr (v, cs1) \<Rightarrow>
           (let cs2 = skip_ws cs1 in
            if cs2 \<noteq> [] then Inl (''unexpected trailing content after the JSON value'', cs2) else Inr (v, [])))"

text \<open>\<open>fail\<close>: the message with the offset, from the input that was left.\<close>

definition json_fail :: "string \<Rightarrow> string \<Rightarrow> string \<Rightarrow> string" where
  "json_fail input msg rest = msg @ '' at offset '' @ nat_dec (length input - length rest)"

definition json_parse :: "json_limits \<Rightarrow> string \<Rightarrow> json_value res" where
  "json_parse lim input = (case json_run lim input of
     Inl (msg, rest) \<Rightarrow> Inl (json_fail input msg rest)
   | Inr (v, _) \<Rightarrow> Inr v)"

section \<open>Escaping\<close>

definition json_hex :: "nat \<Rightarrow> char" where
  "json_hex d = (if d < 10 then char_of (48 + d) else char_of (87 + d))"

definition escape_char :: "char \<Rightarrow> string" where
  "escape_char c =
     (if c = DQ then [BACKSLASH, DQ]
      else if c = BACKSLASH then [BACKSLASH, BACKSLASH]
      else if c = CHR 0x08 then [BACKSLASH, CHR ''b'']
      else if c = CHR 0x0C then [BACKSLASH, CHR ''f'']
      else if c = LF then [BACKSLASH, CHR ''n'']
      else if c = CR then [BACKSLASH, CHR ''r'']
      else if c = TAB then [BACKSLASH, CHR ''t'']
      else if byte c < 0x20
      then [BACKSLASH, CHR ''u'', CHR ''0'', CHR ''0'', json_hex (byte c div 16), json_hex (byte c mod 16)]
      else [c])"

definition json_escape :: "string \<Rightarrow> string" where
  "json_escape s = concat (map escape_char s)"

end
