(* ===== verification/Json_Laws.thy ===== *)
theory Json_Laws
  imports Json
begin

text \<open>
  What the parser accepts and what it does with a rendered document. \<open>within\<close> is the abstract
  contract of an accepted value: bounded in depth, width and string length, integers at their
  64-bit width, member names distinct and every string the UTF-8 encoding of non-zero Unicode
  scalar values. \<open>render\<close> is a reference printer built on the program's own \<open>escape\<close>.
\<close>

section \<open>Unicode text\<close>

definition scalar :: "nat \<Rightarrow> bool" where
  "scalar cp \<longleftrightarrow> 0 < cp \<and> cp \<le> 0x10FFFF \<and> \<not> (0xD800 \<le> cp \<and> cp \<le> 0xDFFF)"

definition encode_utf8 :: "nat list \<Rightarrow> string" where
  "encode_utf8 cps = concat (map append_utf8 cps)"

definition utf8_text :: "string \<Rightarrow> bool" where
  "utf8_text s \<longleftrightarrow> (\<exists>cps. list_all scalar cps \<and> s = encode_utf8 cps)"

lemma encode_utf8_simps [simp]:
  "encode_utf8 [] = []"
  "encode_utf8 (cp # cps) = append_utf8 cp @ encode_utf8 cps"
  "encode_utf8 (cps @ cqs) = encode_utf8 cps @ encode_utf8 cqs"
  by (simp_all add: encode_utf8_def)

lemma utf8_text_Nil [simp]: "utf8_text []"
  by (auto simp: utf8_text_def intro!: exI [of _ "[]"])

lemma utf8_text_append: "utf8_text s \<Longrightarrow> utf8_text t \<Longrightarrow> utf8_text (s @ t)"
  unfolding utf8_text_def by (metis encode_utf8_simps(3) list_all_append)

lemma utf8_text_scalar: "scalar cp \<Longrightarrow> utf8_text (append_utf8 cp)"
  by (auto simp: utf8_text_def intro!: exI [of _ "[cp]"])

lemma byte_char_of [simp]: "n < 256 \<Longrightarrow> byte (char_of n) = n"
  by simp

lemma append_utf8_ascii: "byte c < 0x80 \<Longrightarrow> append_utf8 (byte c) = [c]"
  by (simp add: append_utf8_def)

lemma utf8_text_ascii: "list_all (\<lambda>c. 0 < byte c \<and> byte c < 0x80) s \<Longrightarrow> utf8_text s"
proof (induction s)
  case (Cons c s)
  then have "utf8_text [c]" using utf8_text_scalar [of "byte c"] by (simp add: append_utf8_ascii scalar_def)
  then show ?case using Cons utf8_text_append [of "[c]" s] by simp
qed simp

lemma append_utf8_not_Nil [simp]: "append_utf8 cp \<noteq> []"
  by (simp add: append_utf8_def)

subsection \<open>The validator accepts exactly the encodings of scalars\<close>

text \<open>A scalar above ASCII by the bits its encoding carries.\<close>

definition utf8_parts :: "nat \<Rightarrow> nat list \<Rightarrow> bool" where
  "utf8_parts cp ps \<longleftrightarrow> (case ps of
     [a, b] \<Rightarrow> cp = a * 64 + b \<and> 2 \<le> a \<and> a < 32 \<and> b < 64
   | [a, b, c] \<Rightarrow> cp = (a * 64 + b) * 64 + c \<and> a < 16 \<and> b < 64 \<and> c < 64 \<and> (0 < a \<or> 32 \<le> b) \<and> (a < 13 \<or> 13 < a \<or> b < 32)
   | [a, b, c, d] \<Rightarrow> cp = ((a * 64 + b) * 64 + c) * 64 + d \<and> a < 5 \<and> b < 64 \<and> c < 64 \<and> d < 64
       \<and> (0 < a \<or> 16 \<le> b) \<and> (a < 4 \<or> b < 16)
   | _ \<Rightarrow> False)"

definition utf8_bytes :: "nat list \<Rightarrow> string" where
  "utf8_bytes ps = (case ps of
     [a, b] \<Rightarrow> [char_of (0xC0 + a), char_of (0x80 + b)]
   | [a, b, c] \<Rightarrow> [char_of (0xE0 + a), char_of (0x80 + b), char_of (0x80 + c)]
   | [a, b, c, d] \<Rightarrow> [char_of (0xF0 + a), char_of (0x80 + b), char_of (0x80 + c), char_of (0x80 + d)]
   | _ \<Rightarrow> [])"

lemma utf8_partsE:
  assumes "utf8_parts cp ps"
  obtains (two) a b where "ps = [a, b]" "cp = a * 64 + b" "2 \<le> a" "a < 32" "b < 64"
  | (three) a b c where "ps = [a, b, c]" "cp = (a * 64 + b) * 64 + c" "a < 16" "b < 64" "c < 64"
      "0 < a \<or> 32 \<le> b" "a < 13 \<or> 13 < a \<or> b < 32"
  | (four) a b c d where "ps = [a, b, c, d]" "cp = ((a * 64 + b) * 64 + c) * 64 + d" "a < 5" "b < 64" "c < 64"
      "d < 64" "0 < a \<or> 16 \<le> b" "a < 4 \<or> b < 16"
  using assms unfolding utf8_parts_def by (auto split: list.splits)

lemma base64_digits: "b < 64 \<Longrightarrow> (a * 64 + b) div 64 = a" "b < 64 \<Longrightarrow> (a * 64 + b) mod 64 = (b::nat)"
  by simp_all

lemma scalar_parts:
  assumes "scalar cp" "0x80 \<le> cp"
  obtains ps where "utf8_parts cp ps"
proof -
  define d p c q b a where "d = cp mod 64" "p = cp div 64" "c = p mod 64" "q = p div 64" "b = q mod 64" "a = q div 64"
  have cp: "cp = p * 64 + d" "p = q * 64 + c" "q = a * 64 + b" "d < 64" "c < 64" "b < 64"
    by (simp_all add: d_p_c_q_b_a_def)
  consider "cp < 0x800" | "0x800 \<le> cp" "cp < 0x10000" | "0x10000 \<le> cp" by linarith
  then show ?thesis
  proof cases
    case 1
    then have "utf8_parts cp [p, d]" using assms cp by (simp add: utf8_parts_def)
    then show ?thesis by (rule that)
  next
    case 2
    then have "cp = (q * 64 + c) * 64 + d" using cp by simp
    moreover have "q < 16" "0 < q \<or> 32 \<le> c" using 2 cp by linarith+
    moreover have "q < 13 \<or> 13 < q \<or> c < 32" using assms(1) cp(1,2,4,5) unfolding scalar_def by arith
    ultimately have "utf8_parts cp [q, c, d]" using cp by (simp add: utf8_parts_def)
    then show ?thesis by (rule that)
  next
    case 3
    have "cp = ((a * 64 + b) * 64 + c) * 64 + d" using cp by simp
    moreover have "0 < a \<or> 16 \<le> b" using 3 cp by linarith
    moreover have "a < 5" "a < 4 \<or> b < 16" using assms(1) cp unfolding scalar_def by linarith+
    ultimately have "utf8_parts cp [a, b, c, d]" using cp by (simp add: utf8_parts_def)
    then show ?thesis by (rule that)
  qed
qed

lemma parts_scalar:
  assumes "utf8_parts cp ps"
  shows "scalar cp \<and> 0x80 \<le> cp"
  using assms
proof (cases rule: utf8_partsE)
  case (three a b c)
  then have cp: "cp = 4096 * a + 64 * b + c" by simp
  have "0x800 \<le> cp" using three(6) by (rule disjE) (use cp in linarith)+
  moreover have "cp < 0x10000" using cp three(3-5) by linarith
  moreover have "cp < 0xD800 \<or> 0xDFFF < cp"
  proof (rule linorder_cases [of a 13])
    assume "a = 13"
    then have "b < 32" using three(7) by simp
    then show ?thesis using cp three(5) \<open>a = 13\<close> by linarith
  qed (use cp three(4,5) in linarith)+
  ultimately show ?thesis by (auto simp: scalar_def)
next
  case (four a b c d)
  then have cp: "cp = 262144 * a + 4096 * b + 64 * c + d" by simp
  have "0x10000 \<le> cp" using four(7) by (rule disjE) (use cp in linarith)+
  moreover have "cp \<le> 0x10FFFF" using four(8) by (rule disjE) (use cp four(3-6) in linarith)+
  ultimately show ?thesis by (auto simp: scalar_def)
qed (simp add: scalar_def)

lemma append_utf8_parts:
  assumes "utf8_parts cp ps"
  shows "append_utf8 cp = utf8_bytes ps"
  using assms
proof (cases rule: utf8_partsE)
  case (two a b)
  then show ?thesis by (simp add: append_utf8_def utf8_bytes_def base64_digits)
next
  case (three a b c)
  then have cp: "cp = 4096 * a + 64 * b + c" by simp
  have "cp div 64 = a * 64 + b" "cp mod 64 = c" using three by (simp_all only: base64_digits)
  moreover have "cp div 4096 = cp div 64 div 64" by (simp add: div_mult2_eq [symmetric])
  ultimately have "cp div 4096 = a" "cp div 64 mod 64 = b" "cp mod 64 = c" using three by (simp_all only: base64_digits)
  moreover have "\<not> cp < 0x800" using three(6) by (rule disjE) (use cp in linarith)+
  moreover have "cp < 0x10000" using cp three(3-5) by linarith
  ultimately show ?thesis using three(1) by (simp add: append_utf8_def utf8_bytes_def)
next
  case (four a b c d)
  then have cp: "cp = 262144 * a + 4096 * b + 64 * c + d" by simp
  have "cp div 64 = (a * 64 + b) * 64 + c" "cp mod 64 = d" using four by (simp_all only: base64_digits)
  moreover have "cp div 4096 = cp div 64 div 64" "cp div 262144 = cp div 64 div 64 div 64"
    by (simp_all add: div_mult2_eq [symmetric])
  ultimately have "cp div 262144 = a" "cp div 4096 mod 64 = b" "cp div 64 mod 64 = c" "cp mod 64 = d"
    using four by (simp_all only: base64_digits)
  moreover have "\<not> cp < 0x10000" using four(7) by (rule disjE) (use cp in linarith)+
  ultimately show ?thesis using four(1) by (simp add: append_utf8_def utf8_bytes_def)
qed

lemma consume_utf8_bytes: "utf8_parts cp ps \<Longrightarrow> consume_utf8 (utf8_bytes ps @ cs) = Inr (length (utf8_bytes ps))"
  by (erule utf8_partsE)
    (auto simp: consume_utf8_def utf8_bytes_def utf8_lead_def continuation_ok_def)

text \<open>The other direction: the bytes the validator consumes encode one scalar.\<close>

lemma partsI: "utf8_parts cp ps \<Longrightarrow> utf8_bytes ps = t \<Longrightarrow> \<exists>cp. scalar cp \<and> t = append_utf8 cp"
  by (rule exI [of _ cp]) (simp add: parts_scalar append_utf8_parts)

lemma consume_utf8_scalar:
  assumes "consume_utf8 cs = Inr n" "cs \<noteq> []" "0 < byte (hd cs)"
  shows "\<exists>cp. scalar cp \<and> take n cs = append_utf8 cp"
proof -
  obtain x cs' where cs: "cs = x # cs'" using assms(2) by (cases cs) auto
  consider (1) "byte x < 0x80" | (2) "0xC2 \<le> byte x" "byte x \<le> 0xDF" | (3) "0xE0 \<le> byte x" "byte x \<le> 0xEF"
    | (4) "0xF0 \<le> byte x" "byte x \<le> 0xF4"
    using assms(1) by (auto simp: consume_utf8_def utf8_lead_def cs split: if_splits)
  then show ?thesis
  proof cases
    case 1
    then have "n = 1" using assms(1) by (auto simp: consume_utf8_def utf8_lead_def cs split: if_splits)
    then show ?thesis using 1 assms(3) cs by (auto simp: append_utf8_ascii scalar_def intro!: exI [of _ "byte x"])
  next
    case 2
    then obtain y r where r: "cs' = y # r" "n = 2" "0x80 \<le> byte y" "byte y \<le> 0xBF"
      using assms(1) by (cases cs') (auto simp: consume_utf8_def utf8_lead_def cs continuation_ok_def split: if_splits)
    have "utf8_parts ((byte x - 0xC0) * 64 + (byte y - 0x80)) [byte x - 0xC0, byte y - 0x80]"
      using 2 r by (auto simp: utf8_parts_def)
    moreover have "utf8_bytes [byte x - 0xC0, byte y - 0x80] = take n cs" using 2 r cs by (simp add: utf8_bytes_def)
    ultimately show ?thesis by (rule partsI)
  next
    case 3
    then obtain y z r where r: "cs' = y # z # r" "n = 3" "0x80 \<le> byte y" "byte y \<le> 0xBF"
      "byte x = 0xE0 \<Longrightarrow> 0xA0 \<le> byte y" "byte x = 0xED \<Longrightarrow> byte y \<le> 0x9F" "0x80 \<le> byte z" "byte z \<le> 0xBF"
      using assms(1) by (cases cs'; cases "tl cs'")
        (auto simp: consume_utf8_def utf8_lead_def cs continuation_ok_def split: if_splits)
    have "utf8_parts (((byte x - 0xE0) * 64 + (byte y - 0x80)) * 64 + (byte z - 0x80))
        [byte x - 0xE0, byte y - 0x80, byte z - 0x80]"
      using 3 r(1-4,7,8) r(5,6) unfolding utf8_parts_def list.case
      by (cases "byte x = 0xE0"; cases "byte x = 0xED") auto
    moreover have "utf8_bytes [byte x - 0xE0, byte y - 0x80, byte z - 0x80] = take n cs"
      using 3 r(1-4,7,8) cs by (simp add: utf8_bytes_def)
    ultimately show ?thesis by (rule partsI)
  next
    case 4
    then obtain y z w r where r: "cs' = y # z # w # r" "n = 4" "0x80 \<le> byte y" "byte y \<le> 0xBF"
      "byte x = 0xF0 \<Longrightarrow> 0x90 \<le> byte y" "byte x = 0xF4 \<Longrightarrow> byte y \<le> 0x8F" "0x80 \<le> byte z" "byte z \<le> 0xBF"
      "0x80 \<le> byte w" "byte w \<le> 0xBF"
      using assms(1) by (cases cs'; cases "tl cs'"; cases "tl (tl cs')")
        (auto simp: consume_utf8_def utf8_lead_def cs continuation_ok_def split: if_splits)
    have "utf8_parts ((((byte x - 0xF0) * 64 + (byte y - 0x80)) * 64 + (byte z - 0x80)) * 64 + (byte w - 0x80))
        [byte x - 0xF0, byte y - 0x80, byte z - 0x80, byte w - 0x80]"
      using 4 r unfolding utf8_parts_def list.case
      by (cases "byte x = 0xF0"; cases "byte x = 0xF4") auto
    moreover have "utf8_bytes [byte x - 0xF0, byte y - 0x80, byte z - 0x80, byte w - 0x80] = take n cs"
      using 4 r(1-4,7-10) cs by (simp add: utf8_bytes_def)
    ultimately show ?thesis by (rule partsI)
  qed
qed

section \<open>String bodies\<close>

lemma consume_utf8_append_utf8:
  assumes "scalar cp" "0x80 \<le> cp"
  shows "consume_utf8 (append_utf8 cp @ cs) = Inr (length (append_utf8 cp))"
proof -
  obtain ps where "utf8_parts cp ps" using assms by (rule scalar_parts)
  then show ?thesis by (simp add: append_utf8_parts consume_utf8_bytes)
qed

lemma append_utf8_high: "0x80 \<le> cp \<Longrightarrow> scalar cp \<Longrightarrow> list_all (\<lambda>c. 0x80 \<le> byte c) (append_utf8 cp)"
  by (erule scalar_parts, assumption)
    (auto simp: append_utf8_parts utf8_bytes_def utf8_parts_def split: list.splits)

lemma append_utf8_nul_free: "scalar cp \<Longrightarrow> nul_free (append_utf8 cp)"
proof (cases "cp < 0x80")
  case True
  assume "scalar cp"
  then have "byte (char_of cp) \<noteq> byte NUL" using True by (simp add: scalar_def)
  then have "char_of cp \<noteq> NUL" by metis
  then show ?thesis using True by (simp add: append_utf8_def)
next
  case False
  assume "scalar cp"
  then have "\<forall>c \<in> set (append_utf8 cp). 0x80 \<le> byte c" using append_utf8_high [of cp] False by (simp add: list_all_iff)
  then show ?thesis by (auto simp: nul_free_def)
qed

lemma encode_utf8_nul_free: "list_all scalar cps \<Longrightarrow> nul_free (encode_utf8 cps)"
  by (induction cps) (simp_all add: append_utf8_nul_free)

lemma utf8_text_nul_free: "utf8_text s \<Longrightarrow> nul_free s"
  by (auto simp: utf8_text_def encode_utf8_nul_free)

lemma json_escape_simps [simp]:
  "json_escape [] = []"
  "json_escape (c # s) = escape_char c @ json_escape s"
  "json_escape (s @ t) = json_escape s @ json_escape t"
  by (simp_all add: json_escape_def)

lemma escape_plain:
  "0x20 \<le> byte c \<Longrightarrow> c \<noteq> DQ \<Longrightarrow> c \<noteq> BACKSLASH \<Longrightarrow> escape_char c = [c]"
  by (auto simp: escape_char_def)

lemma json_escape_high: "list_all (\<lambda>c. 0x80 \<le> byte c) s \<Longrightarrow> json_escape s = s"
proof (induction s)
  case (Cons c s)
  then have "c \<noteq> DQ" "c \<noteq> BACKSLASH" by auto
  then show ?case using Cons by (simp add: escape_plain)
qed simp

lemma hex_value_json_hex: "d < 16 \<Longrightarrow> hex_value (json_hex d) = Some d"
  by (simp add: hex_value_def json_hex_def)

lemma parse_hex4_low:
  assumes "n < 0x20"
  shows "parse_hex4 (CHR ''0'' # CHR ''0'' # json_hex (n div 16) # json_hex (n mod 16) # cs) = Inr n"
proof -
  have "hex_value (CHR ''0'') = Some 0" by (simp add: hex_value_def)
  then show ?thesis using assms by (simp add: parse_hex4_def hex_value_json_hex)
qed

lemma unicode_escape_byte:
  "0 < n \<Longrightarrow> n < 0x20 \<Longrightarrow>
    unicode_escape (CHR ''0'' # CHR ''0'' # json_hex (n div 16) # json_hex (n mod 16) # cs) = Inr (n, cs)"
  by (simp only: unicode_escape_def parse_hex4_low) simp

lemma string_loop_ascii:
  assumes "0 < byte c" "byte c < 0x80" "length out \<le> limit"
  shows "string_loop limit out (escape_char c @ cs) = string_loop limit (out @ [c]) cs"
proof -
  consider (quoted) "c \<in> {DQ, BACKSLASH, CHR 0x08, CHR 0x0C, LF, CR, TAB}"
    | (control) "c \<notin> {DQ, BACKSLASH, CHR 0x08, CHR 0x0C, LF, CR, TAB}" "byte c < 0x20"
    | (plain) "0x20 \<le> byte c" "c \<noteq> DQ" "c \<noteq> BACKSLASH" by fastforce
  then show ?thesis
  proof cases
    case quoted
    then show ?thesis using assms(3)
      by (subst string_loop.simps) (auto simp: escape_char_def simple_escape_def)
  next
    case control
    then have "escape_char c = [BACKSLASH, CHR ''u'', CHR ''0'', CHR ''0'', json_hex (byte c div 16), json_hex (byte c mod 16)]"
      by (simp add: escape_char_def)
    then show ?thesis using assms control(2)
      by (subst string_loop.simps) (simp add: simple_escape_def unicode_escape_byte append_utf8_ascii)
  next
    case plain
    then show ?thesis using assms
      by (subst string_loop.simps) (simp add: escape_plain consume_utf8_def utf8_lead_def continuation_ok_def)
  qed
qed

lemma string_loop_scalar:
  assumes "scalar cp" "length out \<le> limit"
  shows "string_loop limit out (json_escape (append_utf8 cp) @ cs) = string_loop limit (out @ append_utf8 cp) cs"
proof (cases "cp < 0x80")
  case True
  then have "cp = byte (char_of cp)" by simp
  then obtain c where "cp = byte c" ..
  then show ?thesis using string_loop_ascii [of c out limit cs] assms True by (simp add: append_utf8_ascii scalar_def)
next
  case False
  then have high: "list_all (\<lambda>c. 0x80 \<le> byte c) (append_utf8 cp)" using append_utf8_high assms by simp
  then obtain c u where u: "append_utf8 cp = c # u" by (cases "append_utf8 cp") auto
  then have c: "0x80 \<le> byte c" "c \<noteq> DQ" "c \<noteq> BACKSLASH" using high by auto
  have "consume_utf8 (c # u @ cs) = Inr (length (c # u))"
    using consume_utf8_append_utf8 [of cp cs] assms False u by simp
  then have "string_loop limit out (c # u @ cs) = string_loop limit (out @ c # u) cs"
    using assms c by (subst string_loop.simps) simp
  then show ?thesis unfolding json_escape_high [OF high] unfolding u by simp
qed

lemma string_loop_escape:
  "list_all scalar cps \<Longrightarrow> length out + length (encode_utf8 cps) \<le> limit \<Longrightarrow>
    string_loop limit out (json_escape (encode_utf8 cps) @ DQ # rest) = Inr (out @ encode_utf8 cps, rest)"
proof (induction cps arbitrary: out)
  case Nil
  then show ?case by (subst string_loop.simps) simp
next
  case (Cons cp cps)
  then show ?case by (simp add: string_loop_scalar)
qed

lemma parse_string_escape:
  "utf8_text s \<Longrightarrow> length s \<le> max_string_bytes lim \<Longrightarrow>
    parse_string lim (DQ # json_escape s @ DQ # rest) = Inr (s, rest)"
  by (auto simp: utf8_text_def parse_string_def string_loop_escape)

subsection \<open>What an accepted string is\<close>

lemma hex_value_less: "hex_value c = Some d \<Longrightarrow> d < 16"
  by (auto simp: hex_value_def split: if_splits)

lemma hex_digits_less: "hex_digits v cs = Some w \<Longrightarrow> w < (v + 1) * 16 ^ length cs"
proof (induction cs arbitrary: v)
  case (Cons c cs)
  then obtain d where d: "hex_value c = Some d" "hex_digits (v * 16 + d) cs = Some w" by (auto split: option.splits)
  have "w < (v * 16 + d + 1) * 16 ^ length cs" using Cons.IH d(2) .
  also have "\<dots> \<le> ((v + 1) * 16) * 16 ^ length cs" using hex_value_less [OF d(1)] by (intro mult_right_mono) auto
  finally show ?case by (simp add: algebra_simps)
qed simp

lemma parse_hex4_less: "parse_hex4 cs = Inr v \<Longrightarrow> v < 65536"
  using hex_digits_less [of 0 "take 4 cs" v] by (auto simp: parse_hex4_def split: if_splits option.splits)

lemma unicode_escape_scalar:
  assumes "unicode_escape cs = Inr (cp, cs')"
  shows "scalar cp"
proof -
  obtain v where v: "parse_hex4 cs = Inr v" "v \<noteq> 0" "v < 65536"
    using assms parse_hex4_less by (auto simp: unicode_escape_def Let_def split: sum.splits if_splits)
  show ?thesis
  proof (cases "0xD800 \<le> v \<and> v \<le> 0xDBFF")
    case True
    then show ?thesis using assms v
      by (auto simp: unicode_escape_def Let_def scalar_def split: sum.splits if_splits)
  next
    case False
    then show ?thesis using assms v
      by (auto simp: unicode_escape_def Let_def scalar_def split: sum.splits if_splits)
  qed
qed

lemma simple_escape_ascii: "simple_escape e = Some c \<Longrightarrow> utf8_text [c]"
  by (rule utf8_text_ascii) (auto simp: simple_escape_def split: if_splits)

lemma string_loop_accepts:
  "string_loop limit out cs = Inr (s, rest) \<Longrightarrow> utf8_text out \<Longrightarrow>
    utf8_text s \<and> length s \<le> limit \<and> length rest < length cs"
proof (induction limit out cs rule: string_loop.induct)
  case (1 limit out cs)
  have ne: "cs \<noteq> []" using "1.prems"(1) by (subst (asm) string_loop.simps) auto
  have len: "length out \<le> limit" using "1.prems"(1) ne by (subst (asm) string_loop.simps) (auto split: if_splits)
  consider (close) "hd cs = DQ" | (raw) "hd cs \<noteq> DQ" "\<not> byte (hd cs) < 0x20" "hd cs \<noteq> BACKSLASH"
    | (esc) "hd cs = BACKSLASH" "tl cs \<noteq> []"
    using "1.prems"(1) ne len by (subst (asm) string_loop.simps) (auto split: if_splits)
  then show ?case
  proof cases
    case close
    then have "Inr (out, tl cs) = (Inr (s, rest) :: string parsed)"
      using "1.prems"(1) ne len by (subst (asm) string_loop.simps) simp
    then show ?thesis using ne len "1.prems"(2) by (cases cs) auto
  next
    case raw
    then obtain n where n: "consume_utf8 cs = Inr n" "string_loop limit (out @ take n cs) (drop n cs) = Inr (s, rest)"
      using "1.prems"(1) ne len by (subst (asm) string_loop.simps) (auto split: sum.splits)
    have "utf8_text (take n cs)" using consume_utf8_scalar [OF n(1) ne] raw(2) utf8_text_scalar by auto
    then have "utf8_text (out @ take n cs)" using "1.prems"(2) by (rule utf8_text_append [rotated])
    then show ?thesis using "1.IH"(1) [of n] n raw ne len consume_utf8_pos [OF n(1)] by auto
  next
    case esc
    have short: "length (drop 2 cs) < length cs" using ne by (cases cs) auto
    show ?thesis
    proof (cases "simple_escape (cs ! 1)")
      case (Some c)
      then have "string_loop limit (out @ [c]) (drop 2 cs) = Inr (s, rest)"
        using "1.prems"(1) ne len esc by (subst (asm) string_loop.simps) simp
      then show ?thesis
        using "1.IH"(3) [of c] Some ne len esc short utf8_text_append [OF "1.prems"(2) simple_escape_ascii [OF Some]] by auto
    next
      case None
      then obtain p where p: "cs ! 1 = CHR ''u''" "unicode_escape (drop 2 cs) = Inr p"
        "string_loop limit (out @ append_utf8 (fst p)) (snd p) = Inr (s, rest)"
        using "1.prems"(1) ne len esc by (subst (asm) string_loop.simps) (auto split: sum.splits if_splits)
      have "scalar (fst p)" "length (snd p) < length (drop 2 cs)"
        using unicode_escape_scalar unicode_escape_shorter p(2) by (metis prod.collapse)+
      then show ?thesis
        using "1.IH"(2) [of p] None p ne len esc short utf8_text_append [OF "1.prems"(2) utf8_text_scalar] by auto
    qed
  qed
qed

lemma parse_string_accepts:
  "parse_string lim cs = Inr (s, rest) \<Longrightarrow> utf8_text s \<and> length s \<le> max_string_bytes lim"
  unfolding parse_string_def using string_loop_accepts by fastforce

section \<open>Numbers\<close>

lemma number_acc_value:
  "number_acc limit acc cs = Some w \<Longrightarrow> acc \<le> limit \<Longrightarrow> list_all is_digit cs \<Longrightarrow> 9 \<le> limit \<Longrightarrow> w \<le> limit"
proof (induction cs arbitrary: acc)
  case (Cons c cs)
  let ?d = "byte c - 48"
  have "?d \<le> 9" using Cons.prems(3) by (auto simp: is_digit_def)
  moreover have "acc \<le> (limit - ?d) div 10" "number_acc limit (acc * 10 + ?d) cs = Some w"
    using Cons.prems(1) by (auto simp: Let_def split: if_splits)
  ultimately have "acc * 10 + ?d \<le> limit" using Cons.prems(4) by linarith
  then show ?case using Cons by (auto simp: Let_def split: if_splits)
qed simp

lemma foldl_digits_mono: "(acc::nat) \<le> foldl (\<lambda>a c. a * 10 + digit_val c) acc cs"
proof (induction cs arbitrary: acc)
  case (Cons c cs)
  have "acc \<le> acc * 10 + digit_val c" by simp
  then show ?case using Cons [of "acc * 10 + digit_val c"] by (simp add: order.trans)
qed simp

text \<open>The overflow guard refuses exactly the digit strings above the limit.\<close>

lemma number_acc_exact:
  "list_all is_digit cs \<Longrightarrow> 9 \<le> limit \<Longrightarrow> number_acc limit acc cs =
    (let v = foldl (\<lambda>a c. a * 10 + digit_val c) acc cs in if v \<le> limit \<or> cs = [] then Some v else None)"
proof (induction cs arbitrary: acc)
  case (Cons c cs)
  let ?d = "byte c - 48"
  have d: "?d \<le> 9" "digit_val c = ?d" using Cons.prems(1) by (auto simp: is_digit_def digit_val_def)
  have guard: "acc > (limit - ?d) div 10 \<longleftrightarrow> acc * 10 + ?d > limit" using d(1) Cons.prems(2) by linarith
  show ?case
  proof (cases "acc * 10 + ?d > limit")
    case True
    then have "limit < foldl (\<lambda>a c. a * 10 + digit_val c) (acc * 10 + ?d) cs"
      using foldl_digits_mono by (rule less_le_trans)
    then show ?thesis using True guard d(2) by (simp add: Let_def)
  next
    case False
    then show ?thesis using Cons guard d(2) by (cases "cs = []") (auto simp: Let_def)
  qed
qed simp

lemma number_acc_dec_val:
  "list_all is_digit cs \<Longrightarrow> cs \<noteq> [] \<Longrightarrow> 9 \<le> limit \<Longrightarrow>
    number_acc limit 0 cs = (if dec_val cs \<le> limit then Some (dec_val cs) else None)"
  by (simp add: number_acc_exact dec_val_def Let_def)

lemma parse_digits_range:
  assumes "parse_digits neg cs = Inr (v, rest)"
  shows "- (2 ^ 63) \<le> v \<and> v < 2 ^ 63"
proof -
  define ds where "ds = (if hd cs = CHR ''0'' then [hd cs] else takeWhile is_digit cs)"
  define limit :: nat where "limit = (if neg then 2 ^ 63 else 2 ^ 63 - 1)"
  have "is_digit (hd cs)" by (rule ccontr) (use assms in \<open>simp add: parse_digits_def split: if_splits\<close>)
  then have ds: "list_all is_digit ds" by (auto simp: ds_def list_all_iff dest: set_takeWhileD)
  obtain acc where acc: "number_acc limit 0 ds = Some acc" "v = (if neg then - int acc else int acc)"
    using assms unfolding parse_digits_def Let_def ds_def [symmetric] limit_def [symmetric]
    by (cases "number_acc limit 0 ds") (auto split: if_split_asm)
  have "acc \<le> limit" by (rule number_acc_value [OF acc(1) _ ds]) (auto simp: limit_def)
  then show ?thesis using acc(2) by (auto simp: limit_def split: if_splits)
qed

lemma parse_number_range: "parse_number cs = Inr (v, rest) \<Longrightarrow> - (2 ^ 63) \<le> v \<and> v < 2 ^ 63"
  by (auto simp: parse_number_def dest: parse_digits_range split: if_splits)

definition plain_end :: "string \<Rightarrow> bool" where
  "plain_end rest \<longleftrightarrow> rest = [] \<or> hd rest \<in> {CHR '','', CHR ''}'', CHR '']''}"

lemma nat_dec_head: "0 < n \<Longrightarrow> hd (nat_dec n) \<noteq> CHR ''0''"
proof (induction n rule: nat_dec.induct)
  case (1 n)
  show ?case
  proof (cases "n < 10")
    case True
    then have "byte (digit_char n) = 48 + n" by (simp add: digit_char_def)
    then show ?thesis using True "1.prems" by (subst nat_dec.simps) auto
  next
    case False
    then show ?thesis using "1.IH" by (subst nat_dec.simps) simp
  qed
qed

lemma nat_dec_0: "nat_dec 0 = ''0''"
proof -
  have "byte (digit_char 0) = byte (CHR ''0'')" by (simp add: digit_char_def)
  then show ?thesis by (subst nat_dec.simps) (simp only: byte_inject, simp)
qed

lemma plain_end_hd: "plain_end rest \<Longrightarrow> rest \<noteq> [] \<Longrightarrow>
    \<not> is_digit (hd rest) \<and> hd rest \<noteq> CHR ''.'' \<and> hd rest \<noteq> CHR ''e'' \<and> hd rest \<noteq> CHR ''E'' \<and> \<not> json_ws (hd rest)"
  by (auto simp: plain_end_def is_digit_def json_ws_def)

lemma take_digits:
  assumes "list_all is_digit ds" "plain_end rest"
  shows "takeWhile is_digit (ds @ rest) = ds" "dropWhile is_digit (ds @ rest) = rest"
proof -
  have "takeWhile is_digit rest = []" "dropWhile is_digit rest = rest"
    using plain_end_hd [OF assms(2)] by (cases rest; simp)+
  then show "takeWhile is_digit (ds @ rest) = ds" "dropWhile is_digit (ds @ rest) = rest"
    using assms(1) by (simp_all add: takeWhile_append dropWhile_append list_all_iff)
qed

lemma parse_digits_nat_dec:
  assumes "plain_end rest" "n \<le> (if neg then 2 ^ 63 else 2 ^ 63 - 1)"
  shows "parse_digits neg (nat_dec n @ rest) = Inr (if neg then - int n else int n, rest)"
proof -
  define cs where "cs = nat_dec n @ rest"
  define limit :: nat where "limit = (if neg then 2 ^ 63 else 2 ^ 63 - 1)"
  show ?thesis
  proof (cases "n = 0")
    case True
    then have cs: "nat_dec n @ rest = CHR ''0'' # rest" by (simp add: nat_dec_0)
    have "is_digit (CHR ''0'')" "\<And>limit. number_acc limit 0 ''0'' = Some 0" by (simp_all add: is_digit_def)
    then show ?thesis using True plain_end_hd [OF assms(1)] unfolding cs by (auto simp: parse_digits_def)
  next
    case False
    have hd: "hd cs = hd (nat_dec n)" by (simp add: cs_def)
    have "is_digit (hd cs)" unfolding hd by (rule nat_dec_mem [of _ n]) simp
    moreover have "hd cs \<noteq> CHR ''0''" using nat_dec_head False hd by simp
    moreover have "takeWhile is_digit cs = nat_dec n" "dropWhile is_digit cs = rest" "cs \<noteq> []"
      using take_digits [OF nat_dec_digits assms(1)] by (simp_all add: cs_def)
    moreover have "number_acc limit 0 (nat_dec n) = Some n"
      using assms(2) by (subst number_acc_dec_val) (simp_all add: nat_dec_digits limit_def del: nat_dec.simps)
    ultimately show ?thesis using plain_end_hd [OF assms(1)]
      unfolding cs_def [symmetric] parse_digits_def limit_def [symmetric] by auto
  qed
qed

lemma parse_number_int_dec:
  assumes "- (2 ^ 63) \<le> i" "i < 2 ^ 63" "plain_end rest"
  shows "parse_number (int_dec i @ rest) = Inr (i, rest)"
proof (cases "i < 0")
  case True
  then show ?thesis using parse_digits_nat_dec [OF assms(3), of "nat (- i)" True] assms(1)
    by (simp add: parse_number_def int_dec_def)
next
  case False
  have "is_digit (hd (nat_dec (nat i)))" by (rule nat_dec_mem [of _ "nat i"]) simp
  then have "hd (nat_dec (nat i)) \<noteq> CHR ''-''" by (auto simp: is_digit_def)
  then show ?thesis using parse_digits_nat_dec [OF assms(3), of "nat i" False] False assms(2)
    by (simp add: parse_number_def int_dec_def)
qed

section \<open>Values\<close>

text \<open>The contract of a value, \<open>levels\<close> deep at most.\<close>

fun within :: "json_limits \<Rightarrow> nat \<Rightarrow> json_value \<Rightarrow> bool" where
  "within lim 0 v \<longleftrightarrow> False"
| "within lim (Suc l) (JBool b) \<longleftrightarrow> True"
| "within lim (Suc l) (JInt i) \<longleftrightarrow> - (2 ^ 63) \<le> i \<and> i < 2 ^ 63"
| "within lim (Suc l) (JString s) \<longleftrightarrow> utf8_text s \<and> length s \<le> max_string_bytes lim"
| "within lim (Suc l) (JArray es) \<longleftrightarrow> length es \<le> max_elements lim \<and> list_all (within lim l) es"
| "within lim (Suc l) (JObject ms) \<longleftrightarrow> length ms \<le> max_members lim \<and> distinct (map fst ms) \<and>
     list_all (\<lambda>m. utf8_text (fst m) \<and> length (fst m) \<le> max_string_bytes lim \<and> within lim l (snd m)) ms"

definition member_ok :: "json_limits \<Rightarrow> nat \<Rightarrow> string \<times> json_value \<Rightarrow> bool" where
  "member_ok lim l m \<longleftrightarrow> utf8_text (fst m) \<and> length (fst m) \<le> max_string_bytes lim \<and> within lim l (snd m)"

lemma within_object:
  "within lim (Suc l) (JObject ms) \<longleftrightarrow>
     length ms \<le> max_members lim \<and> distinct (map fst ms) \<and> list_all (member_ok lim l) ms"
  by (simp add: member_ok_def [abs_def])

declare within.simps(6) [simp del] within_object [simp]

lemma parse_literal_accepts: "parse_literal w v cs = Inr (v', rest) \<Longrightarrow> v' = v"
  by (auto simp: parse_literal_def split: if_splits)

lemma parse_members_step:
  assumes "parse_members lim l room ms cs = Inr (v, rest)"
  obtains key cs1 cs2 x cs3 cs4 where "parse_string lim (skip_ws cs) = Inr (key, cs1)" "key \<notin> set (map fst ms)" "0 < room"
    "parse_value lim l cs2 = Inr (x, cs3)"
    "v = JObject (ms @ [(key, x)]) \<or> parse_members lim l (room - 1) (ms @ [(key, x)]) cs4 = Inr (v, rest)"
  using assms [unfolded parse_members.simps [of lim l room ms cs] Let_def]
  by (fastforce split: if_split_asm sum.split_asm prod.split_asm)

lemma parse_elements_step:
  assumes "parse_elements lim l room es cs = Inr (v, rest)"
  obtains cs1 x cs2 cs3 where "0 < room" "parse_value lim l cs1 = Inr (x, cs2)"
    "v = JArray (es @ [x]) \<or> parse_elements lim l (room - 1) (es @ [x]) cs3 = Inr (v, rest)"
  using assms [unfolded parse_elements.simps [of lim l room es cs] Let_def]
  by (fastforce split: if_split_asm sum.split_asm prod.split_asm)

lemma parse_members_accepts:
  assumes "\<And>cs v rest. parse_value lim l cs = Inr (v, rest) \<Longrightarrow> within lim l v"
  shows "parse_members lim l room ms cs = Inr (v, rest) \<Longrightarrow> list_all (member_ok lim l) ms \<Longrightarrow>
    distinct (map fst ms) \<Longrightarrow> length ms + room = max_members lim \<Longrightarrow> within lim (Suc l) v"
proof (induction room arbitrary: ms cs)
  case 0
  then show ?case by (elim parse_members_step) simp
next
  case (Suc room)
  from Suc.prems(1) obtain key cs1 cs2 x cs3 cs4 where m: "parse_string lim (skip_ws cs) = Inr (key, cs1)"
    "key \<notin> set (map fst ms)" "parse_value lim l cs2 = Inr (x, cs3)"
    "v = JObject (ms @ [(key, x)]) \<or> parse_members lim l room (ms @ [(key, x)]) cs4 = Inr (v, rest)"
    by (rule parse_members_step) simp
  have "member_ok lim l (key, x)" using parse_string_accepts [OF m(1)] assms [OF m(3)] by (simp add: member_ok_def)
  then have ms: "list_all (member_ok lim l) (ms @ [(key, x)])" "distinct (map fst (ms @ [(key, x)]))"
    "length (ms @ [(key, x)]) + room = max_members lim" using Suc.prems m(2) by auto
  from m(4) show ?case
  proof
    assume "v = JObject (ms @ [(key, x)])"
    then show ?thesis using ms by auto
  qed (rule Suc.IH [OF _ ms])
qed

lemma parse_elements_accepts:
  assumes "\<And>cs v rest. parse_value lim l cs = Inr (v, rest) \<Longrightarrow> within lim l v"
  shows "parse_elements lim l room es cs = Inr (v, rest) \<Longrightarrow> list_all (within lim l) es \<Longrightarrow>
    length es + room = max_elements lim \<Longrightarrow> within lim (Suc l) v"
proof (induction room arbitrary: es cs)
  case 0
  then show ?case by (elim parse_elements_step) simp
next
  case (Suc room)
  from Suc.prems(1) obtain cs1 x cs2 cs3 where m: "parse_value lim l cs1 = Inr (x, cs2)"
    "v = JArray (es @ [x]) \<or> parse_elements lim l room (es @ [x]) cs3 = Inr (v, rest)"
    by (rule parse_elements_step) simp
  have es: "list_all (within lim l) (es @ [x])" "length (es @ [x]) + room = max_elements lim"
    using Suc.prems assms [OF m(1)] by auto
  from m(2) show ?case
  proof
    assume "v = JArray (es @ [x])"
    then show ?thesis using es by auto
  qed (rule Suc.IH [OF _ es])
qed

lemma parse_value_accepts: "parse_value lim levels cs = Inr (v, rest) \<Longrightarrow> within lim levels v"
proof (induction levels arbitrary: cs v rest)
  case (Suc l)
  then obtain c cs' where cs: "cs = c # cs'" by (cases cs) auto
  note val = Suc.prems [unfolded cs parse_value.simps(3) Let_def]
  consider (obj) "c = CHR ''{''" | (arr) "c = CHR ''[''" | (other) "c \<noteq> CHR ''{''" "c \<noteq> CHR ''[''" by blast
  then show ?case
  proof cases
    case obj
    then show ?thesis using val parse_members_accepts [OF Suc.IH, where room = "max_members lim" and ms = "[]" and v = v and rest = rest]
      by (auto split: if_split_asm)
  next
    case arr
    then show ?thesis using val parse_elements_accepts [OF Suc.IH, where room = "max_elements lim" and es = "[]" and v = v and rest = rest]
      by (auto split: if_split_asm)
  next
    case other
    consider (str) "c = DQ" | (tr) "c = CHR ''t''" | (fa) "c = CHR ''f''"
      | (number) "c \<noteq> DQ" "c \<noteq> CHR ''t''" "c \<noteq> CHR ''f''" by blast
    then show ?thesis
    proof cases
      case str
      then show ?thesis using val parse_string_accepts by (auto split: sum.split_asm)
    next
      case number
      have n: "c \<noteq> CHR ''n''" by (rule notI) (use val in simp)
      have "c = CHR ''-'' \<or> is_digit c" by (rule ccontr) (use val other number n in simp)
      then have "(case parse_number (c # cs') of Inl f \<Rightarrow> Inl f | Inr (v, cs1) \<Rightarrow> Inr (JInt v, cs1)) = Inr (v, rest)"
        using val other number n by (simp only: if_True if_False simp_thms)
      then obtain w where "parse_number (c # cs') = Inr (w, rest)" "v = JInt w"
        by (cases "parse_number (c # cs')") auto
      then show ?thesis using parse_number_range by simp
    qed (use val in \<open>auto dest: parse_literal_accepts\<close>)
  qed
qed simp

lemma parse_members_object: "parse_members lim l room ms cs = Inr (v, rest) \<Longrightarrow> \<exists>ms'. v = JObject ms'"
proof (induction room arbitrary: ms cs)
  case 0
  then show ?case by (elim parse_members_step) simp
next
  case (Suc room)
  then show ?case by (elim parse_members_step) auto
qed

lemma parse_value_object: "parse_value lim levels (CHR ''{'' # cs) = Inr (v, rest) \<Longrightarrow> \<exists>ms. v = JObject ms"
  by (cases levels) (auto simp: parse_value.simps(3) Let_def dest: parse_members_object split: if_split_asm)

section \<open>Rendering\<close>

fun commas :: "string list \<Rightarrow> string" where
  "commas [] = []"
| "commas [s] = s"
| "commas (s # t # ss) = s @ CHR '','' # commas (t # ss)"

fun render :: "json_value \<Rightarrow> string" where
  "render (JBool b) = (if b then ''true'' else ''false'')"
| "render (JInt i) = int_dec i"
| "render (JString s) = DQ # json_escape s @ [DQ]"
| "render (JArray es) = CHR ''['' # commas (map render es) @ '']''"
| "render (JObject ms) = CHR ''{'' # commas (map (\<lambda>(k, v). DQ # json_escape k @ DQ # CHR '':'' # render v) ms) @ ''}''"

abbreviation render_member :: "string \<times> json_value \<Rightarrow> string" where
  "render_member \<equiv> \<lambda>(k, v). DQ # json_escape k @ DQ # CHR '':'' # render v"

lemma digit_head: "is_digit c \<Longrightarrow> c \<notin> {CHR '' '', TAB, LF, CR, CHR '']''}"
  by (auto simp: is_digit_def)

lemma render_head:
  "render v \<noteq> [] \<and> \<not> json_ws (hd (render v)) \<and> hd (render v) \<noteq> CHR '']''"
proof (cases v)
  case (JInt i)
  have "is_digit (hd (nat_dec n))" for n by (rule nat_dec_mem [of _ n]) simp
  then have "hd (nat_dec n) \<notin> {CHR '' '', TAB, LF, CR, CHR '']''}" for n
    using digit_head by blast
  then show ?thesis using JInt by (simp add: int_dec_def json_ws_def)
qed (auto simp: json_ws_def)

lemma skip_ws_Cons: "\<not> json_ws c \<Longrightarrow> skip_ws (c # cs) = c # cs"
  by (simp add: skip_ws_def)

lemma skip_ws_render: "skip_ws (render v @ cs) = render v @ cs"
  using render_head [of v] by (cases "render v") (auto simp: skip_ws_def)

lemma parse_members_render:
  assumes IH: "\<And>v rest. within lim l v \<Longrightarrow> plain_end rest \<Longrightarrow> parse_value lim l (render v @ rest) = Inr (v, rest)"
  shows "list_all (member_ok lim l) (m # ns) \<Longrightarrow> distinct (map fst (ms @ m # ns)) \<Longrightarrow> length (m # ns) \<le> room \<Longrightarrow>
    parse_members lim l room ms (commas (map render_member (m # ns)) @ CHR ''}'' # rest) = Inr (JObject (ms @ m # ns), rest)"
proof (induction ns arbitrary: m ms room)
  case Nil
  obtain k v where m: "m = (k, v)" by fastforce
  then have ok: "utf8_text k" "length k \<le> max_string_bytes lim" "within lim l v" using Nil.prems by (auto simp: member_ok_def)
  have "plain_end (CHR ''}'' # rest)" by (simp add: plain_end_def)
  then show ?case using Nil.prems ok
    by (subst parse_members.simps)
      (simp add: m skip_ws_Cons json_ws_def parse_string_escape skip_ws_render IH Let_def)
next
  case (Cons n ns)
  obtain k v where m: "m = (k, v)" by fastforce
  then have ok: "utf8_text k" "length k \<le> max_string_bytes lim" "within lim l v" using Cons.prems by (auto simp: member_ok_def)
  let ?t = "commas (map render_member (n # ns)) @ CHR ''}'' # rest"
  have "plain_end (CHR '','' # ?t)" by (simp add: plain_end_def)
  moreover have "parse_members lim l (room - 1) (ms @ [m]) ?t = Inr (JObject ((ms @ [m]) @ n # ns), rest)"
    using Cons.prems by (intro Cons.IH) auto
  ultimately show ?case using Cons.prems ok
    by (subst parse_members.simps)
      (simp add: m skip_ws_Cons json_ws_def parse_string_escape skip_ws_render IH Let_def)
qed

lemma parse_elements_render:
  assumes IH: "\<And>v rest. within lim l v \<Longrightarrow> plain_end rest \<Longrightarrow> parse_value lim l (render v @ rest) = Inr (v, rest)"
  shows "list_all (within lim l) (e # fs) \<Longrightarrow> length (e # fs) \<le> room \<Longrightarrow>
    parse_elements lim l room es (commas (map render (e # fs)) @ CHR '']'' # rest) = Inr (JArray (es @ e # fs), rest)"
proof (induction fs arbitrary: e es room)
  case Nil
  have "plain_end (CHR '']'' # rest)" by (simp add: plain_end_def)
  then show ?case using Nil.prems render_head [of e]
    by (subst parse_elements.simps) (simp add: skip_ws_Cons json_ws_def skip_ws_render IH Let_def)
next
  case (Cons f fs)
  let ?t = "commas (map render (f # fs)) @ CHR '']'' # rest"
  have "plain_end (CHR '','' # ?t)" by (simp add: plain_end_def)
  moreover have "parse_elements lim l (room - 1) (es @ [e]) ?t = Inr (JArray ((es @ [e]) @ f # fs), rest)"
    using Cons.prems by (intro Cons.IH) auto
  ultimately show ?case using Cons.prems render_head [of e]
    by (subst parse_elements.simps) (simp add: skip_ws_Cons json_ws_def skip_ws_render IH Let_def)
qed

lemma parse_value_render:
  "within lim l v \<Longrightarrow> plain_end rest \<Longrightarrow> parse_value lim l (render v @ rest) = Inr (v, rest)"
proof (induction l arbitrary: v rest)
  case (Suc l)
  show ?case
  proof (cases v)
    case (JBool b)
    then show ?thesis by (simp add: parse_value.simps(3) parse_literal_def)
  next
    case (JInt i)
    obtain c cs where c: "int_dec i = c # cs" by (metis int_dec_def list.exhaust nat_dec_not_Nil)
    then have "c = CHR ''-'' \<or> is_digit c"
      using nat_dec_mem [of c "nat i"] by (auto simp: int_dec_def split: if_splits)
    then have "c \<notin> {CHR ''{'', CHR ''['', DQ, CHR ''t'', CHR ''f'', CHR ''n''}" "c = CHR ''-'' \<or> is_digit c"
      by (auto simp: is_digit_def)
    moreover have "parse_number (c # cs @ rest) = Inr (i, rest)"
      using parse_number_int_dec [of i rest] Suc.prems JInt c by simp
    ultimately show ?thesis using JInt by (simp add: c parse_value.simps(3))
  next
    case (JString s)
    then show ?thesis using Suc.prems parse_string_escape [of s lim rest] by (simp add: parse_value.simps(3))
  next
    case (JArray es)
    then show ?thesis
    proof (cases es)
      case (Cons e fs)
      let ?cs = "commas (map render (e # fs)) @ CHR '']'' # rest"
      have "\<not> json_ws (hd ?cs)" "?cs \<noteq> []" "hd ?cs \<noteq> CHR '']''"
        using render_head [of e] by (cases fs; auto)+
      then have "skip_ws ?cs = ?cs" by (cases ?cs) (auto simp: skip_ws_def)
      moreover have "parse_elements lim l (max_elements lim) [] ?cs = Inr (JArray (e # fs), rest)"
        using parse_elements_render [OF Suc.IH, of e fs "max_elements lim" "[]" rest] Suc.prems JArray Cons by simp
      ultimately show ?thesis using JArray Cons \<open>hd ?cs \<noteq> CHR '']''\<close> \<open>?cs \<noteq> []\<close> by (simp add: parse_value.simps(3) Let_def)
    qed (simp add: parse_value.simps(3) skip_ws_def json_ws_def)
  next
    case (JObject ms)
    then show ?thesis
    proof (cases ms)
      case (Cons m ns)
      let ?cs = "commas (map render_member (m # ns)) @ CHR ''}'' # rest"
      have "hd ?cs = DQ" "?cs \<noteq> []" by (cases m; cases ns; simp)+
      then have "skip_ws ?cs = ?cs" by (cases ?cs) (auto simp: skip_ws_def json_ws_def)
      moreover have "parse_members lim l (max_members lim) [] ?cs = Inr (JObject (m # ns), rest)"
        using parse_members_render [OF Suc.IH, of m ns "[]" "max_members lim" rest] Suc.prems JObject Cons by simp
      ultimately show ?thesis using JObject Cons \<open>hd ?cs = DQ\<close> \<open>?cs \<noteq> []\<close> by (simp add: parse_value.simps(3) Let_def)
    qed (simp add: parse_value.simps(3) skip_ws_def json_ws_def)
  qed
qed simp

section \<open>Documents\<close>

lemma json_parse_accepts:
  assumes "json_parse lim input = Inr v"
  shows "length input \<le> max_input_bytes lim \<and> (\<exists>ms. v = JObject ms) \<and> within lim (max_depth lim) v"
proof -
  have len: "length input \<le> max_input_bytes lim"
    using assms by (auto simp: json_parse_def json_run_def split: if_split_asm)
  obtain rest where run: "json_run lim input = Inr (v, rest)"
    using assms by (auto simp: json_parse_def split: sum.splits prod.splits)
  have hd: "skip_ws input \<noteq> []" "hd (skip_ws input) = CHR ''{''"
    by (rule ccontr; use run len in \<open>auto simp: json_run_def Let_def split: if_split_asm\<close>)+
  then obtain cs where cs: "skip_ws input = CHR ''{'' # cs" by (cases "skip_ws input") auto
  obtain cs1 where val: "parse_value lim (max_depth lim) (CHR ''{'' # cs) = Inr (v, cs1)"
    using run len hd unfolding cs json_run_def Let_def
    by (cases "parse_value lim (max_depth lim) (CHR ''{'' # cs)") (auto split: if_split_asm)
  show ?thesis using len parse_value_object [OF val] parse_value_accepts [OF val] by blast
qed

text \<open>
  C15. Every document the parser accepts fits the limits it was given: the input is no longer than
  \<open>max_input_bytes\<close>, and the value is an object nested at most \<open>max_depth\<close> deep, with distinct
  member names, at most \<open>max_members\<close> members and \<open>max_elements\<close> elements anywhere, every string at
  most \<open>max_string_bytes\<close> long and the UTF-8 encoding of non-zero Unicode scalar values (no NUL, no
  surrogate, no overlong form), and every number in the range of an \<open>int64_t\<close>.
\<close>

theorem json_accepted_bounded:
  assumes "json_parse lim input = Inr v"
  shows "length input \<le> max_input_bytes lim \<and> (\<exists>ms. v = JObject ms) \<and> within lim (max_depth lim) v"
  using assms by (rule json_parse_accepts)

definition small_limits :: json_limits where
  "small_limits = \<lparr>max_depth = 3, max_input_bytes = 40, max_string_bytes = 5, max_members = 2, max_elements = 2\<rparr>"

definition small_value :: json_value where
  "small_value = JObject [(''a'', JArray [JInt (- 7), JBool True]), (''b'', JString [DQ, LF, CHR ''x''])]"

definition flat_value :: json_value where
  "flat_value = JObject [(''a'', JArray [JBool False, JBool True]), (''b'', JString [DQ, LF, CHR ''x''])]"

theorem json_accepted_bounded_witness:
  "json_parse small_limits (render flat_value) = Inr flat_value \<and> within small_limits 3 flat_value"
proof -
  have p: "json_parse small_limits (render flat_value) = Inr flat_value" by code_simp
  show ?thesis using json_accepted_bounded [OF p] p by (simp add: small_limits_def)
qed

lemma render_parse:
  assumes "within lim (max_depth lim) v" "v = JObject ms" "length (render v) \<le> max_input_bytes lim"
  shows "json_parse lim (render v) = Inr v"
proof -
  have "skip_ws (render v) = render v" using skip_ws_render [of v "[]"] by simp
  moreover have "parse_value lim (max_depth lim) (render v) = Inr (v, [])"
    using parse_value_render [OF assms(1), of "[]"] by (simp add: plain_end_def)
  moreover have "hd (render v) = CHR ''{''" "render v \<noteq> []" "byte (render v ! 0) \<noteq> 0xEF" using assms(2) by auto
  ultimately show ?thesis using assms(3) by (simp add: json_parse_def json_run_def skip_ws_def)
qed

text \<open>
  C28. A value that fits the limits survives a round trip: the parser applied to its rendering, whose
  strings are written with the program's own \<open>escape\<close>, returns exactly that value.
\<close>

theorem json_render_parse:
  assumes "within lim (max_depth lim) v" "v = JObject ms" "length (render v) \<le> max_input_bytes lim"
  shows "json_parse lim (render v) = Inr v"
  using assms by (rule render_parse)

theorem json_render_parse_witness:
  "json_parse small_limits (render small_value) = Inr small_value"
proof (rule json_render_parse)
  show "small_value = JObject [(''a'', JArray [JInt (- 7), JBool True]), (''b'', JString [DQ, LF, CHR ''x''])]"
    by (simp add: small_value_def)
  show "within small_limits (max_depth small_limits) small_value"
    by (simp add: small_limits_def small_value_def eval_nat_numeral member_ok_def utf8_text_ascii)
  show "length (render small_value) \<le> max_input_bytes small_limits" by code_simp
qed

end
