(* ===== verification/Job.thy ===== *)
theory Job
  imports Prelude
begin

text \<open>
  The job type and its state machine (\<open>cpp/src/job.cpp\<close>, \<open>cpp/include/filemover/job.hpp\<close>):
  pure logic, timestamps are supplied by the caller. The states form a graph in which
  every run ends after at most three transitions; \<open>Job_transition\<close> is the only
  operation that moves a job along it.
\<close>

section \<open>Data\<close>

datatype JobState = Queued | Renaming | Transferring | Done | Failed

record Job =
  job_id :: string
  source_path :: string
  dest_path :: string
  job_state :: JobState
  created_at_ms :: int
  updated_at_ms :: int
  finished_at_ms :: int
  bytes_total :: "64 word"
  bytes_moved :: "64 word"
  job_error :: string

section \<open>Operations\<close>

fun JobState_to_string :: "JobState \<Rightarrow> string" where
  "JobState_to_string Queued = ''QUEUED''"
| "JobState_to_string Renaming = ''RENAMING''"
| "JobState_to_string Transferring = ''TRANSFERRING''"
| "JobState_to_string Done = ''DONE''"
| "JobState_to_string Failed = ''FAILED''"

definition JobState_from_string :: "string \<Rightarrow> JobState option" where
  "JobState_from_string token =
     (if token = ''QUEUED'' then Some Queued
      else if token = ''RENAMING'' then Some Renaming
      else if token = ''TRANSFERRING'' then Some Transferring
      else if token = ''DONE'' then Some Done
      else if token = ''FAILED'' then Some Failed
      else None)"

definition is_terminal :: "JobState \<Rightarrow> bool" where
  "is_terminal state \<longleftrightarrow> state = Done \<or> state = Failed"

fun is_legal_transition :: "JobState \<Rightarrow> JobState \<Rightarrow> bool" where
  "is_legal_transition Queued t = (t = Renaming \<or> t = Failed)"
| "is_legal_transition Renaming t = (t = Transferring \<or> t = Failed)"
| "is_legal_transition Transferring t = (t = Done \<or> t = Failed)"
| "is_legal_transition Done t = False"
| "is_legal_transition Failed t = False"

text \<open>The constructor of \<open>struct Job\<close>.\<close>

definition new_Job :: "string \<Rightarrow> string \<Rightarrow> string \<Rightarrow> int \<Rightarrow> Job" where
  "new_Job i source dest now_ms =
     \<lparr>job_id = i, source_path = source, dest_path = dest, job_state = Queued,
      created_at_ms = now_ms, updated_at_ms = now_ms, finished_at_ms = 0,
      bytes_total = 0, bytes_moved = 0, job_error = []\<rparr>"

text \<open>\<open>Job::transition\<close>: the result and the job afterwards.\<close>

definition Job_transition :: "JobState \<Rightarrow> int \<Rightarrow> string \<Rightarrow> Job \<Rightarrow> bool \<times> Job" where
  "Job_transition t now_ms error_message job =
     (if \<not> is_legal_transition (job_state job) t then (False, job)
      else if t = Failed \<and> error_message = [] then (False, job)
      else if t \<noteq> Failed \<and> error_message \<noteq> [] then (False, job)
      else
        let job1 = job\<lparr>job_state := t, updated_at_ms := now_ms\<rparr>;
            job2 = (if is_terminal t then job1\<lparr>finished_at_ms := now_ms\<rparr> else job1);
            job3 = (if t = Failed then job2\<lparr>job_error := error_message\<rparr> else job2)
        in (True, job3))"

section \<open>The token table\<close>

interpretation job_tokens: token_codec JobState_to_string JobState_from_string
proof
  fix x show "JobState_from_string (JobState_to_string x) = Some x"
    by (cases x) (simp_all add: JobState_from_string_def)
next
  fix t x assume "JobState_from_string t = Some x"
  then show "t = JobState_to_string x"
    by (auto simp: JobState_from_string_def split: if_splits)
qed

lemma JobState_to_string_nul_free [simp]: "nul_free (JobState_to_string s)"
  by (cases s) (simp_all add: nul_free_def)

section \<open>The state graph\<close>

text \<open>How far a state is along the sequence; both terminal states are the last.\<close>

fun state_rank :: "JobState \<Rightarrow> nat" where
  "state_rank Queued = 0"
| "state_rank Renaming = 1"
| "state_rank Transferring = 2"
| "state_rank Done = 3"
| "state_rank Failed = 3"

interpretation job_graph: ranked_steps is_legal_transition state_rank 3
proof
  fix s t assume "is_legal_transition s t"
  then show "state_rank s < state_rank t" by (cases s) auto
next
  fix s show "state_rank s \<le> 3" by (cases s) simp_all
qed

lemma terminal_stuck: "is_terminal s \<Longrightarrow> \<not> is_legal_transition s t"
  by (auto simp: is_terminal_def)

lemma not_terminal_can_fail: "\<not> is_terminal s \<Longrightarrow> is_legal_transition s Failed"
  by (cases s) (simp_all add: is_terminal_def)

section \<open>The type invariant of a job\<close>

text \<open>What \<open>job.hpp\<close> says of the fields: an error exactly in \<open>Failed\<close>, and
  \<open>finished_at_ms\<close> zero until a terminal state is reached.\<close>

definition job_wf :: "Job \<Rightarrow> bool" where
  "job_wf j \<longleftrightarrow> (job_error j \<noteq> [] \<longleftrightarrow> job_state j = Failed) \<and>
     (\<not> is_terminal (job_state j) \<longrightarrow> finished_at_ms j = 0) \<and>
     (is_terminal (job_state j) \<longrightarrow> finished_at_ms j = updated_at_ms j)"

definition transition_ok :: "JobState \<Rightarrow> JobState \<Rightarrow> string \<Rightarrow> bool" where
  "transition_ok s t msg \<longleftrightarrow> is_legal_transition s t \<and> (t = Failed \<longleftrightarrow> msg \<noteq> [])"

lemma transition_result [simp]:
  "fst (Job_transition t now msg j) \<longleftrightarrow> transition_ok (job_state j) t msg"
  by (auto simp: Job_transition_def transition_ok_def Let_def)

lemma transition_refused: "\<not> transition_ok (job_state j) t msg \<Longrightarrow> Job_transition t now msg j = (False, j)"
  by (auto simp: Job_transition_def transition_ok_def)

lemma transition_accepted:
  "transition_ok (job_state j) t msg \<Longrightarrow> Job_transition t now msg j =
     (True, j\<lparr>job_state := t, updated_at_ms := now,
        finished_at_ms := (if is_terminal t then now else finished_at_ms j),
        job_error := (if t = Failed then msg else job_error j)\<rparr>)"
  by (auto simp: Job_transition_def transition_ok_def Let_def is_terminal_def)

lemma transition_wf: "job_wf j \<Longrightarrow> job_wf (snd (Job_transition t now msg j))"
proof (cases "transition_ok (job_state j) t msg")
  case True
  moreover assume "job_wf j"
  moreover from True have "job_state j \<noteq> Failed" and "job_state j \<noteq> Done"
    by (auto simp: transition_ok_def)
  ultimately show ?thesis
    by (auto simp: transition_accepted job_wf_def transition_ok_def is_terminal_def)
qed (simp add: transition_refused)

lemma new_Job_wf: "job_wf (new_Job i s d now)"
  by (simp add: new_Job_def job_wf_def is_terminal_def)

text \<open>A run of transition requests on one job, refused ones included.\<close>

fun run_transitions :: "(JobState \<times> int \<times> string) list \<Rightarrow> Job \<Rightarrow> Job" where
  "run_transitions [] j = j"
| "run_transitions ((t, now, msg) # rs) j = run_transitions rs (snd (Job_transition t now msg j))"

definition accepted :: "JobState \<times> int \<times> string \<Rightarrow> Job \<Rightarrow> bool" where
  "accepted r j = (case r of (t, now, msg) \<Rightarrow> fst (Job_transition t now msg j))"

fun accepted_count :: "(JobState \<times> int \<times> string) list \<Rightarrow> Job \<Rightarrow> nat" where
  "accepted_count [] j = 0"
| "accepted_count ((t, now, msg) # rs) j =
     (if fst (Job_transition t now msg j) then 1 else 0) +
     accepted_count rs (snd (Job_transition t now msg j))"

lemma transition_state: "job_state (snd (Job_transition t now msg j)) =
    (if transition_ok (job_state j) t msg then t else job_state j)"
  by (cases "transition_ok (job_state j) t msg") (simp_all add: transition_accepted transition_refused)

lemma accepted_count_rank:
  "state_rank (job_state j) + accepted_count rs j \<le> state_rank (job_state (run_transitions rs j))"
proof (induction rs j rule: run_transitions.induct)
  case (2 t now msg rs j)
  have "transition_ok (job_state j) t msg \<Longrightarrow> state_rank (job_state j) < state_rank t"
    by (simp add: transition_ok_def job_graph.rank_step)
  with "2" show ?case by (auto simp: transition_state)
qed simp

lemma run_wf: "job_wf j \<Longrightarrow> job_wf (run_transitions rs j)"
  by (induction rs j rule: run_transitions.induct) (auto intro: transition_wf)

lemma run_terminal: "is_terminal (job_state j) \<Longrightarrow> run_transitions rs j = j"
proof (induction rs j rule: run_transitions.induct)
  case (2 t now msg rs j)
  then show ?case by (simp add: transition_refused transition_ok_def terminal_stuck)
qed simp

section \<open>Properties\<close>

text \<open>\<open>Job::transition\<close> accepts a request exactly when the edge is legal and the
  error message is present if and only if the target is FAILED; a refused request
  leaves the job unmodified, and an accepted one writes the state, the timestamps and
  the error and nothing else (L3-CPP-006 to L3-CPP-011).\<close>

theorem transition_contract:
  "Job_transition t now msg j =
     (if is_legal_transition (job_state j) t \<and> (t = Failed \<longleftrightarrow> msg \<noteq> [])
      then (True, j\<lparr>job_state := t, updated_at_ms := now,
              finished_at_ms := (if t = Done \<or> t = Failed then now else finished_at_ms j),
              job_error := (if t = Failed then msg else job_error j)\<rparr>)
      else (False, j))"
  using transition_accepted [of j t msg now] transition_refused [of j t msg now]
  by (auto simp: transition_ok_def is_terminal_def)

text \<open>From a freshly constructed job, whatever transitions are requested in whatever
  order, at most three are accepted, the fields stay consistent (an error exactly in
  FAILED, a finish time exactly in a terminal state), and once a terminal state is
  reached no later request changes anything.\<close>

theorem job_lifecycle:
  assumes "j = run_transitions rs (new_Job i src dst now)"
  shows "job_wf j \<and> accepted_count rs (new_Job i src dst now) \<le> 3 \<and>
    (is_terminal (job_state j) \<longrightarrow> (\<forall>rs'. run_transitions rs' j = j))"
proof (intro conjI impI allI)
  show "job_wf j" using assms by (simp add: run_wf new_Job_wf)
  show "accepted_count rs (new_Job i src dst now) \<le> 3"
    using accepted_count_rank [of "new_Job i src dst now" rs] job_graph.rank_le
    by (metis add.commute le_add1 order.trans)
  fix rs' assume "is_terminal (job_state j)"
  then show "run_transitions rs' j = j" by (rule run_terminal)
qed

theorem job_lifecycle_witness:
  "accepted_count [(Renaming, 5, []), (Done, 6, []), (Transferring, 7, []), (Done, 8, []),
     (Failed, 9, ''late'')] (new_Job ''job-1'' ''/a/x'' ''/b/x'' 1) = 3 \<and>
   job_wf (run_transitions [(Renaming, 5, []), (Done, 6, []), (Transferring, 7, []), (Done, 8, []),
     (Failed, 9, ''late'')] (new_Job ''job-1'' ''/a/x'' ''/b/x'' 1))"
  using job_lifecycle [OF refl, of "[(Renaming, 5, []), (Done, 6, []), (Transferring, 7, []),
      (Done, 8, []), (Failed, 9, ''late'')]" "''job-1''" "''/a/x''" "''/b/x''" 1]
  by (simp add: Job_transition_def new_Job_def is_terminal_def)

end
