(* ===== verification/Api_Codec.thy ===== *)
theory Api_Codec
  imports Json_Laws Job
begin

text \<open>
  The REST codec (\<open>cpp/src/api_codec.cpp\<close>): the body of a submission is decoded under its own,
  tighter parser limits, and jobs, job lists and errors are encoded as JSON documents. The
  laws say which bodies are accepted and that the parser reads every encoding back.
\<close>

section \<open>Operations\<close>

record SubmitRequest =
  submit_source :: string
  submit_dest :: string

definition kMaxPathBytes :: nat where
  "kMaxPathBytes = 4096"

definition submit_limits :: json_limits where
  "submit_limits = \<lparr>max_depth = 2, max_input_bytes = 16 * 1024, max_string_bytes = kMaxPathBytes,
     max_members = 8, max_elements = 8\<rparr>"

definition require_string :: "json_value \<Rightarrow> string \<Rightarrow> string res" where
  "require_string obj name = (case json_find name obj of
     None \<Rightarrow> Inl (''missing required member '' @ DQ # name @ [DQ])
   | Some (JString s) \<Rightarrow>
      (if s = [] then Inl (''member '' @ DQ # name @ DQ # '' must not be empty'')
       else if length s > kMaxPathBytes then Inl (''member '' @ DQ # name @ DQ # '' exceeds the maximum path length'')
       else Inr s)
   | Some _ \<Rightarrow> Inl (''member '' @ DQ # name @ DQ # '' must be a string''))"

text \<open>The first member that is not expected.\<close>

definition unknown_member :: "(string \<times> json_value) list \<Rightarrow> string option" where
  "unknown_member ms = map_option fst (find (\<lambda>m. fst m \<noteq> ''source'' \<and> fst m \<noteq> ''dest'') ms)"

definition decode_submit_request :: "string \<Rightarrow> SubmitRequest res" where
  "decode_submit_request body = (case json_parse submit_limits body of
     Inl e \<Rightarrow> Inl e
   | Inr root \<Rightarrow>
      (case root of
         JObject ms \<Rightarrow>
          (case unknown_member ms of
             Some key \<Rightarrow> Inl (''unknown member '' @ DQ # json_escape key @ [DQ])
           | None \<Rightarrow>
              (case require_string root ''source'' of
                 Inl e \<Rightarrow> Inl e
               | Inr source \<Rightarrow>
                  (case require_string root ''dest'' of
                     Inl e \<Rightarrow> Inl e
                   | Inr dest \<Rightarrow> Inr \<lparr>submit_source = source, submit_dest = dest\<rparr>)))
       | _ \<Rightarrow> Inl ''request body must be a JSON object''))"

definition append_string_member :: "string \<Rightarrow> string \<Rightarrow> string \<Rightarrow> bool \<Rightarrow> string" where
  "append_string_member out name v trailing_comma =
     out @ DQ # name @ [DQ] @ '':'' @ [DQ] @ json_escape v @ [DQ] @ (if trailing_comma then '','' else [])"

definition append_int_member :: "string \<Rightarrow> string \<Rightarrow> int \<Rightarrow> bool \<Rightarrow> string" where
  "append_int_member out name v trailing_comma =
     out @ DQ # name @ [DQ] @ '':'' @ int_dec v @ (if trailing_comma then '','' else [])"

definition to_int64_clamped :: "64 word \<Rightarrow> int" where
  "to_int64_clamped v = (if uint v > 2 ^ 63 - 1 then 2 ^ 63 - 1 else uint v)"

definition encode_job :: "Job \<Rightarrow> string" where
  "encode_job job =
     (let o1 = append_string_member ''{'' ''id'' (job_id job) True;
          o2 = append_string_member o1 ''source'' (source_path job) True;
          o3 = append_string_member o2 ''dest'' (dest_path job) True;
          o4 = append_string_member o3 ''state'' (JobState_to_string (job_state job)) True;
          o5 = append_int_member o4 ''created_at_ms'' (created_at_ms job) True;
          o6 = append_int_member o5 ''updated_at_ms'' (updated_at_ms job) True;
          o7 = append_int_member o6 ''finished_at_ms'' (finished_at_ms job) True;
          o8 = append_int_member o7 ''bytes_total'' (to_int64_clamped (bytes_total job)) True;
          o9 = append_int_member o8 ''bytes_moved'' (to_int64_clamped (bytes_moved job)) True
      in append_string_member o9 ''error'' (job_error job) False @ ''}'')"

fun append_jobs :: "bool \<Rightarrow> string \<Rightarrow> Job list \<Rightarrow> string" where
  "append_jobs first out [] = out"
| "append_jobs first out (j # js) = append_jobs False ((if first then out else out @ '','') @ encode_job j) js"

definition encode_job_list :: "Job list \<Rightarrow> string" where
  "encode_job_list jobs = append_jobs True (''{'' @ DQ # ''jobs'' @ DQ # '':['') jobs @ '']}''"

definition encode_error :: "string \<Rightarrow> string" where
  "encode_error message = ''{'' @ DQ # ''error'' @ DQ # '':'' @ DQ # json_escape message @ DQ # ''}''"

section \<open>Decoding\<close>

lemma require_string_Inr:
  "require_string obj name = Inr s \<longleftrightarrow> json_find name obj = Some (JString s) \<and> s \<noteq> [] \<and> length s \<le> kMaxPathBytes"
  by (auto simp: require_string_def split: option.splits json_value.splits)

lemma unknown_member_None: "unknown_member ms = None \<longleftrightarrow> fst ` set ms \<subseteq> {''source'', ''dest''}"
  by (auto simp: unknown_member_def find_None_iff)

lemma two_members:
  assumes "distinct (map fst ms)" "fst ` set ms \<subseteq> {a, b}" "a \<noteq> b" "map_of ms a = Some x" "map_of ms b = Some y"
  shows "ms = [(a, x), (b, y)] \<or> ms = [(b, y), (a, x)]"
proof -
  have "(a, x) \<in> set ms" "(b, y) \<in> set ms" using assms(4,5) by (auto dest: map_of_SomeD)
  moreover have "set ms \<subseteq> {(a, x), (b, y)}"
  proof
    fix p assume p: "p \<in> set ms"
    obtain k v where kv: "p = (k, v)" by fastforce
    then have "k \<in> {a, b}" using assms(2) p by force
    moreover have "map_of ms k = Some v" using assms(1) p kv by simp
    ultimately show "p \<in> {(a, x), (b, y)}" using assms(4,5) kv by auto
  qed
  ultimately have set: "set ms = {(a, x), (b, y)}" by blast
  have "distinct ms" using assms(1) by (simp add: distinct_map)
  then have "length ms = card {(a, x), (b, y)}" using set distinct_card by metis
  then obtain p q where "ms = [p, q]" using assms(3) by (auto simp: length_Suc_conv numeral_2_eq_2)
  then show ?thesis using set \<open>distinct ms\<close> by (auto simp: doubleton_eq_iff)
qed

lemma decode_submit_iff:
  "decode_submit_request body = Inr r \<longleftrightarrow>
     submit_source r \<noteq> [] \<and> submit_dest r \<noteq> [] \<and>
     (json_parse submit_limits body
        = Inr (JObject [(''source'', JString (submit_source r)), (''dest'', JString (submit_dest r))]) \<or>
      json_parse submit_limits body
        = Inr (JObject [(''dest'', JString (submit_dest r)), (''source'', JString (submit_source r))]))"
  (is "?lhs \<longleftrightarrow> ?rhs")
proof
  assume ?lhs
  then obtain ms where ms: "json_parse submit_limits body = Inr (JObject ms)" "unknown_member ms = None"
    "json_find ''source'' (JObject ms) = Some (JString (submit_source r))" "submit_source r \<noteq> []"
    "json_find ''dest'' (JObject ms) = Some (JString (submit_dest r))" "submit_dest r \<noteq> []"
    by (auto simp: decode_submit_request_def require_string_Inr split: sum.splits json_value.splits option.splits)
  have "distinct (map fst ms)"
    using json_parse_accepts [OF ms(1)] by (simp add: submit_limits_def numeral_2_eq_2)
  then show ?rhs using two_members [of ms "''source''" "''dest''"] ms
    by (auto simp: unknown_member_None json_find_def)
next
  assume rhs: ?rhs
  have "length (submit_source r) \<le> kMaxPathBytes \<and> length (submit_dest r) \<le> kMaxPathBytes"
    using rhs by (auto dest!: json_parse_accepts simp: submit_limits_def numeral_2_eq_2 member_ok_def)
  then show ?lhs using rhs
    by (auto simp: decode_submit_request_def unknown_member_def require_string_def json_find_def)
qed

text \<open>
  C29. The decoder accepts a body exactly when it is a JSON document under the submission limits
  whose only members are \<open>source\<close> and \<open>dest\<close>, in either order, both non-empty strings; the request
  then carries those two strings. Unknown, missing, repeated or wrongly typed members are refused.
\<close>

theorem decode_submit_exact:
  "decode_submit_request body = Inr r \<longleftrightarrow>
     submit_source r \<noteq> [] \<and> submit_dest r \<noteq> [] \<and>
     (json_parse submit_limits body
        = Inr (JObject [(''source'', JString (submit_source r)), (''dest'', JString (submit_dest r))]) \<or>
      json_parse submit_limits body
        = Inr (JObject [(''dest'', JString (submit_dest r)), (''source'', JString (submit_source r))]))"
  by (rule decode_submit_iff)

lemma json_parse_error [msg_nonempty]: "json_parse lim input = Inl e \<Longrightarrow> e \<noteq> []"
  by (auto simp: json_parse_def json_fail_def split: sum.splits prod.splits)

lemma require_string_error [msg_nonempty]: "require_string obj name = Inl e \<Longrightarrow> e \<noteq> []"
  by (cases "json_find name obj"; cases "the (json_find name obj)") (auto simp: require_string_def split: if_splits)

lemma decode_submit_error [msg_nonempty]: "decode_submit_request body = Inl e \<Longrightarrow> e \<noteq> []"
  unfolding decode_submit_request_def
  by (erule contrapos_pn)
    (simp add: json_parse_error require_string_error split: sum.split json_value.split option.split)

section \<open>Encoding\<close>

text \<open>What a job is on the wire.\<close>

definition job_value :: "Job \<Rightarrow> json_value" where
  "job_value job = JObject
     [(''id'', JString (job_id job)), (''source'', JString (source_path job)), (''dest'', JString (dest_path job)),
      (''state'', JString (JobState_to_string (job_state job))), (''created_at_ms'', JInt (created_at_ms job)),
      (''updated_at_ms'', JInt (updated_at_ms job)), (''finished_at_ms'', JInt (finished_at_ms job)),
      (''bytes_total'', JInt (min (uint (bytes_total job)) (2 ^ 63 - 1))),
      (''bytes_moved'', JInt (min (uint (bytes_moved job)) (2 ^ 63 - 1))), (''error'', JString (job_error job))]"

lemma to_int64_clamped_min: "to_int64_clamped v = min (uint v) (2 ^ 63 - 1)"
  by (simp add: to_int64_clamped_def)

lemma escape_name: "list_all (\<lambda>c. 0x20 \<le> byte c \<and> c \<noteq> DQ \<and> c \<noteq> BACKSLASH) s \<Longrightarrow> json_escape s = s"
  by (induction s) (auto simp: escape_plain)

lemma encode_job_render: "encode_job job = render (job_value job)"
  by (simp add: encode_job_def job_value_def append_string_member_def append_int_member_def Let_def
      to_int64_clamped_min escape_plain)

lemma append_jobs_commas: "append_jobs first out js
    = out @ (if js \<noteq> [] \<and> \<not> first then '','' else []) @ commas (map encode_job js)"
proof (induction js arbitrary: first out)
  case (Cons j js)
  have "append_jobs first out (j # js) = ((if first then out else out @ '','') @ encode_job j) @
      (if js \<noteq> [] then '','' else []) @ commas (map encode_job js)"
    by (simp add: Cons.IH)
  then show ?case by (cases js) auto
qed simp

lemma encode_job_list_render:
  "encode_job_list jobs = render (JObject [(''jobs'', JArray (map job_value jobs))])"
proof -
  have "encode_job = render \<circ> job_value" by (rule ext) (simp add: encode_job_render)
  then show ?thesis by (simp add: encode_job_list_def append_jobs_commas escape_plain)
qed

lemma encode_error_render: "encode_error m = render (JObject [(''error'', JString m)])"
  by (simp add: encode_error_def escape_plain)

text \<open>A job that a document can carry.\<close>

definition job_fits :: "json_limits \<Rightarrow> Job \<Rightarrow> bool" where
  "job_fits lim job \<longleftrightarrow>
     list_all (\<lambda>s. utf8_text s \<and> length s \<le> max_string_bytes lim) [job_id job, source_path job, dest_path job, job_error job] \<and>
     list_all (\<lambda>t. - (2 ^ 63) \<le> t \<and> t < 2 ^ 63) [created_at_ms job, updated_at_ms job, finished_at_ms job]"

lemma job_value_within:
  assumes "job_fits lim job" "10 \<le> max_members lim" "14 \<le> max_string_bytes lim"
  shows "within lim (Suc (Suc l)) (job_value job)"
proof -
  have "utf8_text (JobState_to_string s)" "length (JobState_to_string s) \<le> max_string_bytes lim" for s
    using assms(3) by (cases s; simp add: utf8_text_ascii)+
  moreover have "- (2 ^ 63) \<le> min (uint w) (2 ^ 63 - 1) \<and> min (uint w) (2 ^ 63 - 1) < 2 ^ 63" for w :: "64 word"
    using order.trans [OF _ uint_ge_0, of "- (2 ^ 63)" w] by simp
  ultimately show ?thesis using assms by (simp add: job_value_def job_fits_def member_ok_def utf8_text_ascii)
qed

text \<open>
  Encodings parse back: a job list whose strings are valid text and whose times fit an
  \<open>int64_t\<close> is encoded as a document that the parser, under any limits it fits, reads as one object
  with the member \<open>jobs\<close>, the array of the jobs in order, each with its ten fields, the byte
  counters clamped to the largest \<open>int64_t\<close>.
\<close>

theorem encode_job_list_parses:
  assumes "list_all (job_fits lim) jobs" "length jobs \<le> max_elements lim" "10 \<le> max_members lim"
    "14 \<le> max_string_bytes lim" "4 \<le> max_depth lim" "length (encode_job_list jobs) \<le> max_input_bytes lim"
  shows "json_parse lim (encode_job_list jobs) = Inr (JObject [(''jobs'', JArray (map job_value jobs))])"
proof -
  obtain l where l: "max_depth lim = Suc (Suc (Suc (Suc l)))"
    using assms(5) le_Suc_ex [of 4 "max_depth lim"] by (auto simp: eval_nat_numeral)
  have "list_all (within lim (Suc (Suc l))) (map job_value jobs)"
    using assms job_value_within by (simp add: list_all_iff)
  then have "within lim (max_depth lim) (JObject [(''jobs'', JArray (map job_value jobs))])"
    using assms by (simp add: l member_ok_def utf8_text_ascii)
  then show ?thesis using render_parse assms(6) unfolding encode_job_list_render by blast
qed

definition wire_limits :: json_limits where
  "wire_limits = \<lparr>max_depth = 4, max_input_bytes = 250, max_string_bytes = 14, max_members = 10, max_elements = 1\<rparr>"

definition wire_job :: Job where
  "wire_job = snd (Job_transition Failed 9 [CHR ''E'', LF] (new_Job ''j1'' ''/a'' ''/b'' 7))"

theorem encode_job_list_parses_witness:
  "json_parse wire_limits (encode_job_list [wire_job]) = Inr (JObject [(''jobs'', JArray [job_value wire_job])])"
proof -
  have "job_fits wire_limits wire_job"
    by (simp add: wire_limits_def wire_job_def job_fits_def new_Job_def Job_transition_def utf8_text_ascii Let_def is_terminal_def)
  moreover have "length (encode_job_list [wire_job]) \<le> max_input_bytes wire_limits" by (simp add: wire_limits_def encode_job_list_render wire_job_def job_value_def new_Job_def Job_transition_def Let_def is_terminal_def escape_char_def int_dec_def nat_dec.simps digit_char_def)
  ultimately show ?thesis using encode_job_list_parses [of wire_limits "[wire_job]"] by (simp add: wire_limits_def)
qed

end
