(* ===== verification/World.thy ===== *)
theory World
  imports Prelude
begin

text \<open>
  The world the program acts on: a file system of directories and inodes, the durable
  job database, and an adversarial environment. Every system call and every SQLite
  call is one tick; the schedules \<open>w_fault\<close> and \<open>w_dbfault\<close> say which calls fail and
  how, and \<open>w_env\<close> lets other processes change the file system between two calls. A
  failing call changes nothing, so a process killed before tick \<open>k\<close> leaves the same
  world as a schedule in which every call from \<open>k\<close> on fails: theorems over all
  schedules cover crashes at every point.

  The system calls follow their documented behaviour; the SQL statements of
  \<open>cpp/src/store.cpp\<close> act on the table \<open>job\<close> as a list of rows in insertion order.
\<close>

declare split_paired_All [simp del] split_paired_Ex [simp del]

section \<open>Error numbers\<close>

definition EPERM :: nat where "EPERM = 1"
definition ENOENT :: nat where "ENOENT = 2"
definition EINTR :: nat where "EINTR = 4"
definition EAGAIN :: nat where "EAGAIN = 11"
definition ENOMEM :: nat where "ENOMEM = 12"
definition EACCES :: nat where "EACCES = 13"
definition EBUSY :: nat where "EBUSY = 16"
definition EEXIST :: nat where "EEXIST = 17"
definition EXDEV :: nat where "EXDEV = 18"
definition ENOTDIR :: nat where "ENOTDIR = 20"
definition EISDIR :: nat where "EISDIR = 21"
definition EINVAL :: nat where "EINVAL = 22"
definition ENOSPC :: nat where "ENOSPC = 28"
definition EROFS :: nat where "EROFS = 30"
definition ENOSYS :: nat where "ENOSYS = 38"
definition ENOTEMPTY :: nat where "ENOTEMPTY = 39"
definition ELOOP :: nat where "ELOOP = 40"
definition EOPNOTSUPP :: nat where "EOPNOTSUPP = 95"
definition ETIMEDOUT :: nat where "ETIMEDOUT = 110"
definition ESTALE :: nat where "ESTALE = 116"

lemmas errno_defs = EPERM_def ENOENT_def EINTR_def EAGAIN_def ENOMEM_def EACCES_def EBUSY_def
  EEXIST_def EXDEV_def ENOTDIR_def EISDIR_def EINVAL_def ENOSPC_def EROFS_def ENOSYS_def
  ENOTEMPTY_def ELOOP_def EOPNOTSUPP_def ETIMEDOUT_def ESTALE_def

section \<open>The file system\<close>

text \<open>An object is named by its device and inode number.\<close>

type_synonym objid = "nat \<times> nat"

record fstat =
  st_mode :: "32 word"
  st_uid :: nat

record fsys =
  fs_roots :: "string \<Rightarrow> objid option"
  fs_dents :: "objid \<Rightarrow> (string \<times> objid) list"
  fs_stat :: "objid \<Rightarrow> fstat"

definition fs_at :: "fsys \<Rightarrow> objid \<Rightarrow> string \<Rightarrow> objid option" where
  "fs_at fs d n = map_of (fs_dents fs d) n"

definition fs_set :: "objid \<Rightarrow> string \<Rightarrow> objid \<Rightarrow> fsys \<Rightarrow> fsys" where
  "fs_set d n ob fs = fs\<lparr>fs_dents := (fs_dents fs)(d := AList.update n ob (fs_dents fs d))\<rparr>"

definition fs_del :: "objid \<Rightarrow> string \<Rightarrow> fsys \<Rightarrow> fsys" where
  "fs_del d n fs = fs\<lparr>fs_dents := (fs_dents fs)(d := AList.delete n (fs_dents fs d))\<rparr>"

lemma fs_at_set [simp]:
  "fs_at (fs_set d n ob fs) d' n' = (if d' = d \<and> n' = n then Some ob else fs_at fs d' n')"
  by (auto simp: fs_at_def fs_set_def update_conv')

lemma fs_at_del [simp]:
  "fs_at (fs_del d n fs) d' n' = (if d' = d \<and> n' = n then None else fs_at fs d' n')"
  by (auto simp: fs_at_def fs_del_def delete_conv')

lemma fs_set_stat [simp]: "fs_stat (fs_set d n ob fs) = fs_stat fs"
  and fs_set_roots [simp]: "fs_roots (fs_set d n ob fs) = fs_roots fs"
  and fs_del_stat [simp]: "fs_stat (fs_del d n fs) = fs_stat fs"
  and fs_del_roots [simp]: "fs_roots (fs_del d n fs) = fs_roots fs"
  by (simp_all add: fs_set_def fs_del_def)

text \<open>The type bits of \<open>st_mode\<close> (\<open>S_IFMT\<close> and the values of \<open>sys/stat.h\<close>).\<close>

unbundle bit_operations_syntax

definition S_IFMT :: "32 word" where "S_IFMT = 0xF000"
definition S_IFREG :: "32 word" where "S_IFREG = 0x8000"
definition S_IFDIR :: "32 word" where "S_IFDIR = 0x4000"
definition S_IFLNK :: "32 word" where "S_IFLNK = 0xA000"
definition S_IFIFO :: "32 word" where "S_IFIFO = 0x1000"
definition S_IFSOCK :: "32 word" where "S_IFSOCK = 0xC000"
definition S_IFBLK :: "32 word" where "S_IFBLK = 0x6000"
definition S_IFCHR :: "32 word" where "S_IFCHR = 0x2000"
definition S_IWOTH :: "32 word" where "S_IWOTH = 0x2"
definition S_ISVTX :: "32 word" where "S_ISVTX = 0x200"

lemmas mode_defs = S_IFMT_def S_IFREG_def S_IFDIR_def S_IFLNK_def S_IFIFO_def S_IFSOCK_def
  S_IFBLK_def S_IFCHR_def

definition has_type :: "32 word \<Rightarrow> 32 word \<Rightarrow> bool" where
  "has_type m t \<longleftrightarrow> m AND S_IFMT = t"

section \<open>The job database\<close>

record row =
  r_id :: string
  r_source_path :: string
  r_dest_path :: string
  r_state :: string
  r_created_at_ms :: int
  r_updated_at_ms :: int
  r_finished_at_ms :: int
  r_bytes_total :: int
  r_bytes_moved :: int
  r_error :: string
  r_needs_attention :: int
  r_attention_reason :: string
  r_attempts :: int
  r_next_retry_ms :: int
  r_last_error :: string
  r_retry_of :: string

text \<open>\<open>db_seq\<close> is the single row of \<open>job_sequence\<close>.\<close>

record db =
  db_jobs :: "row list"
  db_seq :: "int option"
  db_user_version :: int

definition empty_db :: db where
  "empty_db = \<lparr>db_jobs = [], db_seq = None, db_user_version = 0\<rparr>"

record world =
  w_fs :: fsys
  w_db :: db
  w_dbfile :: bool
  w_tick :: nat
  w_fault :: "nat \<Rightarrow> nat option"
  w_dbfault :: "nat \<Rightarrow> string option"
  w_env :: "nat \<Rightarrow> fsys \<Rightarrow> fsys"
  w_strerror :: "nat \<Rightarrow> string"

section \<open>System calls\<close>

text \<open>The start of a system call: the environment moves, the tick passes, and the
  schedule says whether this call fails.\<close>

definition kcall :: "world \<Rightarrow> nat option \<times> world" where
  "kcall w = (w_fault w (w_tick w),
     w\<lparr>w_fs := w_env w (w_tick w) (w_fs w), w_tick := Suc (w_tick w)\<rparr>)"

definition sys_open_dir :: "string \<Rightarrow> world \<Rightarrow> (nat + objid) \<times> world" where
  "sys_open_dir path w = (case kcall w of
     (Some e, w1) \<Rightarrow> (Inl e, w1)
   | (None, w1) \<Rightarrow> (case fs_roots (w_fs w1) (c_str path) of
        None \<Rightarrow> (Inl ENOENT, w1)
      | Some d \<Rightarrow> (if has_type (st_mode (fs_stat (w_fs w1) d)) S_IFDIR then (Inr d, w1)
                  else (Inl ENOTDIR, w1))))"

definition sys_openat_dir :: "objid \<Rightarrow> string \<Rightarrow> world \<Rightarrow> (nat + objid) \<times> world" where
  "sys_openat_dir d n w = (case kcall w of
     (Some e, w1) \<Rightarrow> (Inl e, w1)
   | (None, w1) \<Rightarrow> (case fs_at (w_fs w1) d (c_str n) of
        None \<Rightarrow> (Inl ENOENT, w1)
      | Some ob \<Rightarrow> (if has_type (st_mode (fs_stat (w_fs w1) ob)) S_IFDIR then (Inr ob, w1)
                  else (Inl ENOTDIR, w1))))"

definition sys_fstatat :: "objid \<Rightarrow> string \<Rightarrow> world \<Rightarrow> (nat + objid \<times> fstat) \<times> world" where
  "sys_fstatat d n w = (case kcall w of
     (Some e, w1) \<Rightarrow> (Inl e, w1)
   | (None, w1) \<Rightarrow> (case fs_at (w_fs w1) d (c_str n) of
        None \<Rightarrow> (Inl ENOENT, w1)
      | Some ob \<Rightarrow> (Inr (ob, fs_stat (w_fs w1) ob), w1)))"

text \<open>\<open>openat(d, n, O_RDONLY | O_NOFOLLOW)\<close>: the descriptor is the object opened.\<close>

definition sys_openat :: "objid \<Rightarrow> string \<Rightarrow> world \<Rightarrow> (nat + objid) \<times> world" where
  "sys_openat d n w = (case kcall w of
     (Some e, w1) \<Rightarrow> (Inl e, w1)
   | (None, w1) \<Rightarrow> (case fs_at (w_fs w1) d (c_str n) of
        None \<Rightarrow> (Inl ENOENT, w1)
      | Some ob \<Rightarrow> (if has_type (st_mode (fs_stat (w_fs w1) ob)) S_IFLNK then (Inl ELOOP, w1)
                   else (Inr ob, w1))))"

text \<open>\<open>openat(d, n, O_RDWR | O_CREAT | O_CLOEXEC | O_NOFOLLOW, 0600)\<close>; \<open>fresh\<close> is the object a new
  file gets.\<close>

definition sys_openat_creat :: "objid \<Rightarrow> objid \<Rightarrow> string \<Rightarrow> world \<Rightarrow> (nat + objid) \<times> world" where
  "sys_openat_creat fresh d n w = (case kcall w of
     (Some e, w1) \<Rightarrow> (Inl e, w1)
   | (None, w1) \<Rightarrow> (case fs_at (w_fs w1) d (c_str n) of
        None \<Rightarrow> (Inr fresh, w1\<lparr>w_fs := (fs_set d (c_str n) fresh (w_fs w1))
          \<lparr>fs_stat := (fs_stat (w_fs w1))(fresh := \<lparr>st_mode = S_IFREG OR 0x180, st_uid = 0\<rparr>)\<rparr>\<rparr>)
      | Some ob \<Rightarrow> (if has_type (st_mode (fs_stat (w_fs w1) ob)) S_IFLNK then (Inl ELOOP, w1)
                   else if has_type (st_mode (fs_stat (w_fs w1) ob)) S_IFDIR then (Inl EISDIR, w1)
                   else (Inr ob, w1))))"

definition sys_fstat :: "objid \<Rightarrow> world \<Rightarrow> (nat + fstat) \<times> world" where
  "sys_fstat ob w = (case kcall w of
     (Some e, w1) \<Rightarrow> (Inl e, w1)
   | (None, w1) \<Rightarrow> (Inr (fs_stat (w_fs w1) ob), w1))"

definition sys_fsync :: "world \<Rightarrow> nat option \<times> world" where
  "sys_fsync w = kcall w"

text \<open>\<open>renameat2\<close> with \<open>RENAME_NOREPLACE\<close>.\<close>

definition sys_renameat2 :: "objid \<Rightarrow> string \<Rightarrow> objid \<Rightarrow> string \<Rightarrow> world \<Rightarrow> nat option \<times> world" where
  "sys_renameat2 od on nd nn w = (case kcall w of
     (Some e, w1) \<Rightarrow> (Some e, w1)
   | (None, w1) \<Rightarrow>
      (if fst od \<noteq> fst nd then (Some EXDEV, w1)
       else case fs_at (w_fs w1) od (c_str on) of
         None \<Rightarrow> (Some ENOENT, w1)
       | Some ob \<Rightarrow>
          (if fs_at (w_fs w1) nd (c_str nn) \<noteq> None then (Some EEXIST, w1)
           else (None, w1\<lparr>w_fs := fs_set nd (c_str nn) ob (fs_del od (c_str on) (w_fs w1))\<rparr>))))"

definition sys_linkat :: "objid \<Rightarrow> string \<Rightarrow> objid \<Rightarrow> string \<Rightarrow> world \<Rightarrow> nat option \<times> world" where
  "sys_linkat od on nd nn w = (case kcall w of
     (Some e, w1) \<Rightarrow> (Some e, w1)
   | (None, w1) \<Rightarrow>
      (case fs_at (w_fs w1) od (c_str on) of
         None \<Rightarrow> (Some ENOENT, w1)
       | Some ob \<Rightarrow>
          (if fs_at (w_fs w1) nd (c_str nn) \<noteq> None then (Some EEXIST, w1)
           else if fst od \<noteq> fst nd then (Some EXDEV, w1)
           else if has_type (st_mode (fs_stat (w_fs w1) ob)) S_IFDIR then (Some EPERM, w1)
           else (None, w1\<lparr>w_fs := fs_set nd (c_str nn) ob (w_fs w1)\<rparr>))))"

definition sys_unlinkat :: "objid \<Rightarrow> string \<Rightarrow> world \<Rightarrow> nat option \<times> world" where
  "sys_unlinkat d n w = (case kcall w of
     (Some e, w1) \<Rightarrow> (Some e, w1)
   | (None, w1) \<Rightarrow>
      (case fs_at (w_fs w1) d (c_str n) of
         None \<Rightarrow> (Some ENOENT, w1)
       | Some ob \<Rightarrow>
          (if has_type (st_mode (fs_stat (w_fs w1) ob)) S_IFDIR then (Some EISDIR, w1)
           else (None, w1\<lparr>w_fs := fs_del d (c_str n) (w_fs w1)\<rparr>))))"

text \<open>\<open>renameat\<close>: replaces an existing target, does nothing when both names are links to
  one object, and refuses to mix directories and other objects.\<close>

definition sys_renameat :: "objid \<Rightarrow> string \<Rightarrow> objid \<Rightarrow> string \<Rightarrow> world \<Rightarrow> nat option \<times> world" where
  "sys_renameat od on nd nn w = (case kcall w of
     (Some e, w1) \<Rightarrow> (Some e, w1)
   | (None, w1) \<Rightarrow>
      (if fst od \<noteq> fst nd then (Some EXDEV, w1)
       else case fs_at (w_fs w1) od (c_str on) of
         None \<Rightarrow> (Some ENOENT, w1)
       | Some ob \<Rightarrow>
          (let is_dir = (\<lambda>x. has_type (st_mode (fs_stat (w_fs w1) x)) S_IFDIR);
               moved = w1\<lparr>w_fs := fs_set nd (c_str nn) ob (fs_del od (c_str on) (w_fs w1))\<rparr>
           in case fs_at (w_fs w1) nd (c_str nn) of
                None \<Rightarrow> (None, moved)
              | Some tgt \<Rightarrow>
                 (if tgt = ob then (None, w1)
                  else if is_dir tgt \<and> \<not> is_dir ob then (Some EISDIR, w1)
                  else if is_dir ob \<and> \<not> is_dir tgt then (Some ENOTDIR, w1)
                  else if is_dir tgt \<and> fs_dents (w_fs w1) tgt \<noteq> [] then (Some ENOTEMPTY, w1)
                  else (None, moved)))))"

section \<open>SQLite calls\<close>

definition sql_call :: "world \<Rightarrow> string option \<times> world" where
  "sql_call w = (w_dbfault w (w_tick w), w\<lparr>w_tick := Suc (w_tick w)\<rparr>)"

section \<open>Assumptions on the environment\<close>

text \<open>No other process changes the file system; no fault lies about a name; no call from
  now on fails.\<close>

definition quiet :: "world \<Rightarrow> bool" where
  "quiet w \<longleftrightarrow> (\<forall>n fs. w_env w n fs = fs)"

definition honest :: "world \<Rightarrow> bool" where
  "honest w \<longleftrightarrow> (\<forall>n. w_fault w n \<noteq> Some ENOENT)"

definition fault_free :: "world \<Rightarrow> bool" where
  "fault_free w \<longleftrightarrow> (\<forall>n \<ge> w_tick w. w_fault w n = None \<and> w_dbfault w n = None)"

text \<open>What a call never changes, and that ticks only advance.\<close>

definition same_env :: "world \<Rightarrow> world \<Rightarrow> bool" where
  "same_env w w' \<longleftrightarrow> w_fault w' = w_fault w \<and> w_dbfault w' = w_dbfault w \<and> w_env w' = w_env w \<and>
     w_strerror w' = w_strerror w \<and> w_tick w \<le> w_tick w'"

lemma same_env_refl [simp]: "same_env w w"
  by (simp add: same_env_def)

lemma same_env_trans: "same_env u v \<Longrightarrow> same_env v w \<Longrightarrow> same_env u w"
  by (auto simp: same_env_def)

lemma same_env_quiet: "same_env w w' \<Longrightarrow> quiet w \<Longrightarrow> quiet w'"
  and same_env_honest: "same_env w w' \<Longrightarrow> honest w \<Longrightarrow> honest w'"
  and same_env_fault_free: "same_env w w' \<Longrightarrow> fault_free w \<Longrightarrow> fault_free w'"
  by (auto simp: same_env_def quiet_def honest_def fault_free_def)

lemma kcall_quiet: "quiet w \<Longrightarrow> kcall w = (w_fault w (w_tick w), w\<lparr>w_tick := Suc (w_tick w)\<rparr>)"
  by (simp add: kcall_def quiet_def)

section \<open>Frames\<close>

text \<open>\<open>written w d w'\<close>: the call sequence from \<open>w\<close> to \<open>w'\<close> changed the database to \<open>d\<close> and
  nothing else but the tick; \<open>ticked\<close>: it changed nothing.\<close>

definition written :: "world \<Rightarrow> db \<Rightarrow> world \<Rightarrow> bool" where
  "written w d w' \<longleftrightarrow> w' = w\<lparr>w_db := d, w_tick := w_tick w'\<rparr> \<and> w_tick w \<le> w_tick w'"

definition ticked :: "world \<Rightarrow> world \<Rightarrow> bool" where
  "ticked w w' \<longleftrightarrow> written w (w_db w) w'"

lemma written_iff: "written w d w' \<longleftrightarrow> (\<exists>n \<ge> w_tick w. w' = w\<lparr>w_db := d, w_tick := n\<rparr>)"
  by (cases w; cases w') (auto simp: written_def)

lemma ticked_iff: "ticked w w' \<longleftrightarrow> (\<exists>n \<ge> w_tick w. w' = w\<lparr>w_tick := n\<rparr>)"
  by (cases w; cases w') (auto simp: ticked_def written_def)

lemma writtenD:
  assumes "written w d w'"
  shows "w_db w' = d" "w_fs w' = w_fs w" "w_dbfile w' = w_dbfile w" "same_env w w'"
    "w_fault w' = w_fault w" "w_dbfault w' = w_dbfault w" "w_tick w \<le> w_tick w'"
  using assms by (cases w; cases w'; simp add: written_def same_env_def)+

lemma tickedD:
  assumes "ticked w w'"
  shows "w_db w' = w_db w" "w_fs w' = w_fs w" "w_dbfile w' = w_dbfile w" "same_env w w'"
    "w_fault w' = w_fault w" "w_dbfault w' = w_dbfault w" "w_tick w \<le> w_tick w'"
  using writtenD [OF assms [unfolded ticked_def]] by simp_all

lemma ticked_refl [simp]: "ticked w w"
  by (simp add: ticked_def written_def)

lemma ticked_trans [trans]: "ticked u v \<Longrightarrow> ticked v w \<Longrightarrow> ticked u w"
  by (cases u; cases v; cases w) (auto simp: ticked_def written_def)

lemma ticked_written: "ticked u v \<Longrightarrow> written v d w \<Longrightarrow> written u d w"
  by (cases u; cases v; cases w) (auto simp: ticked_def written_def)

lemma written_ticked: "written u d v \<Longrightarrow> ticked v w \<Longrightarrow> written u d w"
  by (cases u; cases v; cases w) (auto simp: ticked_def written_def)

lemma sql_call_ticked: "sql_call w = (r, w') \<Longrightarrow> ticked w w'"
  by (cases w) (auto simp: sql_call_def ticked_def written_def)

lemma sql_call_fault_free: "fault_free w \<Longrightarrow> sql_call w = (None, w\<lparr>w_tick := Suc (w_tick w)\<rparr>)"
  by (simp add: sql_call_def fault_free_def)

lemma ticked_Suc [simp]: "ticked w (w\<lparr>w_tick := Suc (w_tick w)\<rparr>)"
  by (simp add: ticked_def written_def)

lemma tickedE:
  assumes "ticked w w'"
  obtains n where "w' = w\<lparr>w_tick := n\<rparr>" and "w_tick w \<le> n"
  using assms by (auto simp: ticked_iff)

lemma ticked_upd [simp]: "ticked w (w\<lparr>w_tick := n\<rparr>) \<longleftrightarrow> w_tick w \<le> n"
  by (simp add: ticked_def written_def)

lemma written_upd: "written w d (w\<lparr>w_tick := n, w_db := d\<rparr>) \<longleftrightarrow> w_tick w \<le> n"
  by (cases w) (simp add: written_def)

lemma fault_free_tick [simp]: "fault_free w \<Longrightarrow> w_tick w \<le> n \<Longrightarrow> fault_free (w\<lparr>w_tick := n\<rparr>)"
  by (simp add: fault_free_def)

end
