(* ===== verification/Store.thy ===== *)
theory Store
  imports Job World "HOL-Library.Product_Lexorder"
begin

text \<open>
  The durable job store (\<open>cpp/src/store.cpp\<close>, \<open>cpp/include/filemover/store.hpp\<close>): a
  repository over one SQLite table. Each operation of \<open>JobStore\<close> is one definition over
  the connection and the world; every \<open>sqlite3_*\<close> call it makes can fail, and the
  failure is a branch. The table and its CHECK constraints are in World.
\<close>

section \<open>Data\<close>

datatype StoreOpenResult = OpenedExisting | CreatedFresh

datatype CommitPhase = BeforeCommitPoint | AfterCommitPoint

datatype WriteFailureAction = NoAction | AbortJob | HaltProcess

datatype WriteFault = NoFault | Refused | Full

record RetryState =
  rs_attempts :: int
  rs_next_retry_ms :: int
  rs_last_error :: string
  rs_retry_of :: string

text \<open>A connection: \<open>impl_->db\<close> non-null, and the two pragmas fault injection sets.\<close>

record conn =
  c_open :: bool
  c_query_only :: bool
  c_max_page_count :: int

definition closed_conn :: conn where
  "closed_conn = \<lparr>c_open = False, c_query_only = False, c_max_page_count = 1073741823\<rparr>"

definition open_conn :: conn where
  "open_conn = closed_conn\<lparr>c_open := True\<rparr>"

definition kSchemaVersion :: int where
  "kSchemaVersion = 1"

section \<open>The table\<close>

definition row_find :: "string \<Rightarrow> row list \<Rightarrow> row option" where
  "row_find k rows = find (\<lambda>r. r_id r = k) rows"

definition row_update :: "string \<Rightarrow> (row \<Rightarrow> row) \<Rightarrow> row list \<Rightarrow> row list" where
  "row_update k f rows = map (\<lambda>r. if r_id r = k then f r else r) rows"

text \<open>The CHECK constraints of the schema.\<close>

definition row_check :: "row \<Rightarrow> bool" where
  "row_check r \<longleftrightarrow>
     r_state r \<in> {''QUEUED'', ''RENAMING'', ''TRANSFERRING'', ''DONE'', ''FAILED''} \<and>
     (length (r_error r) > 0) = (r_state r = ''FAILED'') \<and>
     r_needs_attention r \<in> {0, 1}"

definition db_find :: "world \<Rightarrow> string \<Rightarrow> row option" where
  "db_find w k = row_find k (db_jobs (w_db w))"

text \<open>A writing statement is refused by a connection in \<open>query_only\<close> mode.\<close>

definition sql_write :: "conn \<Rightarrow> world \<Rightarrow> string option \<times> world" where
  "sql_write c w = (case sql_call w of
     (Some m, w1) \<Rightarrow> (Some m, w1)
   | (None, w1) \<Rightarrow>
      (if c_query_only c then (Some ''attempt to write a readonly database'', w1) else (None, w1)))"

definition sql_insert_job :: "row \<Rightarrow> conn \<Rightarrow> world \<Rightarrow> string option \<times> world" where
  "sql_insert_job r c w = (case sql_write c w of
     (Some m, w1) \<Rightarrow> (Some m, w1)
   | (None, w1) \<Rightarrow>
      (if row_find (r_id r) (db_jobs (w_db w1)) \<noteq> None
       then (Some ''UNIQUE constraint failed: job.id'', w1)
       else if \<not> row_check r then (Some ''CHECK constraint failed'', w1)
       else (None, w1\<lparr>w_db := (w_db w1)\<lparr>db_jobs := db_jobs (w_db w1) @ [r]\<rparr>\<rparr>)))"

text \<open>\<open>UPDATE job SET ... WHERE id = k\<close>; the second result is \<open>sqlite3_changes\<close>.\<close>

definition sql_update_job ::
  "string \<Rightarrow> (row \<Rightarrow> row) \<Rightarrow> conn \<Rightarrow> world \<Rightarrow> (string + nat) \<times> world" where
  "sql_update_job k f c w = (case sql_write c w of
     (Some m, w1) \<Rightarrow> (Inl m, w1)
   | (None, w1) \<Rightarrow>
      (case row_find k (db_jobs (w_db w1)) of
         None \<Rightarrow> (Inr 0, w1)
       | Some r \<Rightarrow>
          (if \<not> row_check (f r) then (Inl ''CHECK constraint failed'', w1)
           else (Inr 1, w1\<lparr>w_db := (w_db w1)\<lparr>db_jobs := row_update k f (db_jobs (w_db w1))\<rparr>\<rparr>))))"

section \<open>Messages\<close>

definition fail_msg :: "string \<Rightarrow> string \<Rightarrow> string" where
  "fail_msg what m = ''store: '' @ what @ '': '' @ m"

definition quoted :: "string \<Rightarrow> string" where
  "quoted s = QUOTE @ s @ QUOTE"

definition no_such_job_msg :: "string \<Rightarrow> string" where
  "no_such_job_msg i = ''store: no such job '' @ quoted i"

definition not_open_msg :: string where
  "not_open_msg = ''store: not open''"

definition unrecognised_msg :: "string \<Rightarrow> string \<Rightarrow> string" where
  "unrecognised_msg i token = ''store: job '' @ quoted i @ '' has unrecognised state '' @ quoted token"

definition illegal_transition_msg :: "string \<Rightarrow> JobState \<Rightarrow> JobState \<Rightarrow> string \<Rightarrow> string" where
  "illegal_transition_msg i s t msg =
     ''store: illegal transition for job '' @ quoted i @ '': '' @
     JobState_to_string s @ '' -> '' @ JobState_to_string t @
     (if t = Failed \<and> msg = [] then '' (a transition to FAILED requires an error message)''
      else if t \<noteq> Failed \<and> msg \<noteq> [] then '' (an error message is only valid for FAILED)''
      else [])"

lemma store_msgs_nonempty [msg_nonempty, simp]:
  "fail_msg what m \<noteq> []" "no_such_job_msg i \<noteq> []" "not_open_msg \<noteq> []"
  "unrecognised_msg i token \<noteq> []" "illegal_transition_msg i s t msg \<noteq> []"
  by (simp_all add: fail_msg_def no_such_job_msg_def not_open_msg_def unrecognised_msg_def
      illegal_transition_msg_def)

section \<open>Operations\<close>

text \<open>\<open>JobStore::record_intent\<close>. Text is bound through \<open>c_str()\<close>, the byte counters
  through a cast to \<open>sqlite3_int64\<close>.\<close>

definition row_of_job :: "Job \<Rightarrow> string \<Rightarrow> row" where
  "row_of_job job retry_of =
     \<lparr>r_id = c_str (job_id job), r_source_path = c_str (source_path job),
      r_dest_path = c_str (dest_path job), r_state = JobState_to_string (job_state job),
      r_created_at_ms = created_at_ms job, r_updated_at_ms = updated_at_ms job,
      r_finished_at_ms = finished_at_ms job, r_bytes_total = of_u64 (bytes_total job),
      r_bytes_moved = of_u64 (bytes_moved job), r_error = c_str (job_error job),
      r_needs_attention = 0, r_attention_reason = [], r_attempts = 0, r_next_retry_ms = 0,
      r_last_error = [], r_retry_of = c_str retry_of\<rparr>"

definition record_intent :: "Job \<Rightarrow> string \<Rightarrow> conn \<Rightarrow> world \<Rightarrow> unit res \<times> world" where
  "record_intent job retry_of c w =
     (if \<not> c_open c then (Inl not_open_msg, w)
      else case sql_call w of
        (Some m, w1) \<Rightarrow> (Inl (fail_msg ''preparing record_intent'' m), w1)
      | (None, w1) \<Rightarrow>
         (case sql_insert_job (row_of_job job retry_of) c w1 of
            (Some m, w2) \<Rightarrow> (Inl (fail_msg (''recording intent for job '' @ quoted (job_id job)) m), w2)
          | (None, w2) \<Rightarrow> (Inr (), w2)))"

text \<open>A row read back column by column (\<open>load\<close> and \<open>list_by_state\<close>).\<close>

definition job_of_row :: "row \<Rightarrow> JobState \<Rightarrow> Job" where
  "job_of_row r s =
     \<lparr>job_id = r_id r, source_path = r_source_path r, dest_path = r_dest_path r, job_state = s,
      created_at_ms = r_created_at_ms r, updated_at_ms = r_updated_at_ms r,
      finished_at_ms = r_finished_at_ms r, bytes_total = to_u64 (r_bytes_total r),
      bytes_moved = to_u64 (r_bytes_moved r), job_error = r_error r\<rparr>"

text \<open>\<open>JobStore::load\<close>: \<open>Inr None\<close> is \<open>found = false\<close>.\<close>

definition load :: "string \<Rightarrow> conn \<Rightarrow> world \<Rightarrow> Job option res \<times> world" where
  "load i c w =
     (if \<not> c_open c then (Inl not_open_msg, w)
      else case sql_call w of
        (Some m, w1) \<Rightarrow> (Inl (fail_msg ''preparing load'' m), w1)
      | (None, w1) \<Rightarrow>
         (case sql_call w1 of
            (Some m, w2) \<Rightarrow> (Inl (fail_msg (''loading job '' @ quoted i) m), w2)
          | (None, w2) \<Rightarrow>
             (case db_find w2 (c_str i) of
                None \<Rightarrow> (Inr None, w2)
              | Some r \<Rightarrow>
                 (case JobState_from_string (r_state r) of
                    None \<Rightarrow> (Inl (unrecognised_msg i (r_state r)), w2)
                  | Some s \<Rightarrow> (Inr (Some (job_of_row r s)), w2)))))"

text \<open>\<open>JobStore::update_state\<close> in the two statements it issues: the SELECT of \<open>load\<close> with the state
  machine's decision on what it returned, and the UPDATE of the row with that id. No transaction
  holds the two together, so another connection can write between them.\<close>

definition update_check ::
  "string \<Rightarrow> JobState \<Rightarrow> int \<Rightarrow> string \<Rightarrow> conn \<Rightarrow> world \<Rightarrow> Job res \<times> world" where
  "update_check i t now_ms error_message c w =
     (if \<not> c_open c then (Inl not_open_msg, w)
      else case load i c w of
        (Inl e, w1) \<Rightarrow> (Inl e, w1)
      | (Inr None, w1) \<Rightarrow> (Inl (no_such_job_msg i), w1)
      | (Inr (Some job), w1) \<Rightarrow>
         (case Job_transition t now_ms error_message job of
            (False, job') \<Rightarrow> (Inl (illegal_transition_msg i (job_state job') t error_message), w1)
          | (True, job') \<Rightarrow> (Inr job', w1)))"

definition update_write :: "string \<Rightarrow> Job \<Rightarrow> conn \<Rightarrow> world \<Rightarrow> unit res \<times> world" where
  "update_write i job c w =
     (case sql_call w of
        (Some m, w2) \<Rightarrow> (Inl (fail_msg ''preparing update_state'' m), w2)
      | (None, w2) \<Rightarrow>
         (case sql_update_job (c_str i)
            (\<lambda>r. r\<lparr>r_state := JobState_to_string (job_state job),
                    r_updated_at_ms := updated_at_ms job,
                    r_finished_at_ms := finished_at_ms job,
                    r_error := c_str (job_error job)\<rparr>) c w2 of
            (Inl m, w3) \<Rightarrow> (Inl (fail_msg (''updating job '' @ quoted i) m), w3)
          | (Inr _, w3) \<Rightarrow> (Inr (), w3)))"

definition update_state ::
  "string \<Rightarrow> JobState \<Rightarrow> int \<Rightarrow> string \<Rightarrow> conn \<Rightarrow> world \<Rightarrow> unit res \<times> world" where
  "update_state i t now_ms error_message c w =
     (case update_check i t now_ms error_message c w of
        (Inl e, w1) \<Rightarrow> (Inl e, w1)
      | (Inr job, w1) \<Rightarrow> update_write i job c w1)"

definition before_commit_note :: string where
  "before_commit_note =
     '' [before the commit point: aborting the job. Nothing has happened and the source is untouched.]''"

definition after_commit_note :: string where
  "after_commit_note =
     '' [AFTER the commit point: halting. The move is real but unrecorded. The source must NOT be deleted and this needs an operator.]''"

text \<open>\<open>JobStore::record_transition\<close>: the action and the error afterwards.\<close>

definition record_transition ::
  "string \<Rightarrow> JobState \<Rightarrow> int \<Rightarrow> string \<Rightarrow> CommitPhase \<Rightarrow> conn \<Rightarrow> world \<Rightarrow>
   (WriteFailureAction \<times> string option) \<times> world" where
  "record_transition i t now_ms error_message phase c w =
     (case update_state i t now_ms error_message c w of
        (Inr _, w1) \<Rightarrow> ((NoAction, None), w1)
      | (Inl e, w1) \<Rightarrow>
         (if phase = BeforeCommitPoint then ((AbortJob, Some (e @ before_commit_note)), w1)
          else ((HaltProcess, Some (e @ after_commit_note)), w1)))"

text \<open>\<open>exec\<close> of a statement whose effect the caller applies on success, and the two
  single-value queries; \<open>None\<close> is a query without a row.\<close>

definition exec_sql :: "string \<Rightarrow> world \<Rightarrow> unit res \<times> world" where
  "exec_sql what w = (case sql_call w of
     (Some m, w1) \<Rightarrow> (Inl (fail_msg what m), w1)
   | (None, w1) \<Rightarrow> (Inr (), w1))"

definition query_value :: "string \<Rightarrow> 'a option \<Rightarrow> world \<Rightarrow> 'a res \<times> world" where
  "query_value sql answer w = (case sql_call w of
     (Some m, w1) \<Rightarrow> (Inl (fail_msg (''preparing '' @ quoted sql) m), w1)
   | (None, w1) \<Rightarrow>
      (case sql_call w1 of
         (Some m, w2) \<Rightarrow> (Inl (fail_msg (''no result from '' @ quoted sql) m), w2)
       | (None, w2) \<Rightarrow>
          (case answer of
             None \<Rightarrow> (Inl (fail_msg (''no result from '' @ quoted sql) ''no more rows available''), w2)
           | Some v \<Rightarrow> (Inr v, w2))))"

definition query_text :: "string \<Rightarrow> string option \<Rightarrow> world \<Rightarrow> string res \<times> world" where
  "query_text sql answer w = query_value sql (map_option c_str answer) w"

definition query_int :: "string \<Rightarrow> int option \<Rightarrow> world \<Rightarrow> int res \<times> world" where
  "query_int sql answer w = query_value sql (map_option column_int answer) w"

text \<open>\<open>JobStore::inject_write_fault\<close>; \<open>page_count\<close> is what \<open>PRAGMA page_count\<close> answers.\<close>

definition inject_write_fault ::
  "WriteFault \<Rightarrow> int \<Rightarrow> conn \<Rightarrow> world \<Rightarrow> unit res \<times> conn \<times> world" where
  "inject_write_fault fault page_count c w =
     (if \<not> c_open c then (Inl not_open_msg, c, w)
      else case fault of
        NoFault \<Rightarrow>
         (case exec_sql ''clearing query_only'' w of
            (Inl e, w1) \<Rightarrow> (Inl e, c, w1)
          | (Inr _, w1) \<Rightarrow>
             (case exec_sql ''clearing the page limit'' w1 of
                (Inl e, w2) \<Rightarrow> (Inl e, c\<lparr>c_query_only := False\<rparr>, w2)
              | (Inr _, w2) \<Rightarrow>
                 (Inr (), c\<lparr>c_query_only := False, c_max_page_count := 1073741823\<rparr>, w2)))
      | Refused \<Rightarrow>
         (case exec_sql ''arming a write refusal'' w of
            (Inl e, w1) \<Rightarrow> (Inl e, c, w1)
          | (Inr _, w1) \<Rightarrow> (Inr (), c\<lparr>c_query_only := True\<rparr>, w1))
      | Full \<Rightarrow>
         (case query_int ''PRAGMA page_count;'' (Some page_count) w of
            (Inl e, w1) \<Rightarrow> (Inl e, c, w1)
          | (Inr pages, w1) \<Rightarrow>
             (case exec_sql ''arming a full store'' w1 of
                (Inl e, w2) \<Rightarrow> (Inl e, c, w2)
              | (Inr _, w2) \<Rightarrow> (Inr (), c\<lparr>c_max_page_count := pages\<rparr>, w2))))"

definition mark_needs_attention :: "string \<Rightarrow> string \<Rightarrow> conn \<Rightarrow> world \<Rightarrow> unit res \<times> world" where
  "mark_needs_attention i reason c w =
     (if \<not> c_open c then (Inl not_open_msg, w)
      else if reason = [] then (Inl ''store: mark_needs_attention requires a reason'', w)
      else case sql_call w of
        (Some m, w1) \<Rightarrow> (Inl (fail_msg ''preparing mark_needs_attention'' m), w1)
      | (None, w1) \<Rightarrow>
         (case sql_update_job (c_str i)
            (\<lambda>r. r\<lparr>r_needs_attention := 1, r_attention_reason := c_str reason\<rparr>) c w1 of
            (Inl m, w2) \<Rightarrow> (Inl (fail_msg (''flagging job '' @ quoted i) m), w2)
          | (Inr n, w2) \<Rightarrow> (if n = 0 then (Inl (no_such_job_msg i), w2) else (Inr (), w2))))"

text \<open>The row loop of a \<open>SELECT\<close>: one \<open>sqlite3_step\<close> per row and one for the end.\<close>

fun step_rows :: "string \<Rightarrow> (row \<Rightarrow> 'a res) \<Rightarrow> row list \<Rightarrow> world \<Rightarrow> 'a list res \<times> world" where
  "step_rows what g [] w = (case sql_call w of
     (Some m, w1) \<Rightarrow> (Inl (fail_msg what m), w1)
   | (None, w1) \<Rightarrow> (Inr [], w1))"
| "step_rows what g (r # rs) w = (case sql_call w of
     (Some m, w1) \<Rightarrow> (Inl (fail_msg what m), w1)
   | (None, w1) \<Rightarrow>
      (case g r of
         Inl e \<Rightarrow> (Inl e, w1)
       | Inr x \<Rightarrow>
          (case step_rows what g rs w1 of
             (Inl e, w2) \<Rightarrow> (Inl e, w2)
           | (Inr xs, w2) \<Rightarrow> (Inr (x # xs), w2))))"

definition decode_row :: "row \<Rightarrow> Job res" where
  "decode_row r = (case JobState_from_string (r_state r) of
     None \<Rightarrow> Inl (unrecognised_msg (r_id r) (r_state r))
   | Some s \<Rightarrow> Inr (job_of_row r s))"

definition list_by_state :: "JobState \<Rightarrow> conn \<Rightarrow> world \<Rightarrow> Job list res \<times> world" where
  "list_by_state s c w =
     (if \<not> c_open c then (Inl not_open_msg, w)
      else case sql_call w of
        (Some m, w1) \<Rightarrow> (Inl (fail_msg ''preparing list_by_state'' m), w1)
      | (None, w1) \<Rightarrow>
         step_rows ''listing jobs'' decode_row
           (sort_key (\<lambda>r. (r_created_at_ms r, r_id r))
              (filter (\<lambda>r. r_state r = JobState_to_string s) (db_jobs (w_db w1)))) w1)"

text \<open>\<open>SELECT state, COUNT(*) FROM job GROUP BY state\<close>, decoded group by group.\<close>

definition state_groups :: "row list \<Rightarrow> (string \<times> int) list" where
  "state_groups rows =
     map (\<lambda>t. (t, int (length (filter (\<lambda>r. r_state r = t) rows)))) (sort (remdups (map r_state rows)))"

fun step_groups ::
  "(string \<times> int) list \<Rightarrow> (JobState \<Rightarrow> 64 word) \<Rightarrow> world \<Rightarrow> (JobState \<Rightarrow> 64 word) res \<times> world" where
  "step_groups [] out w = (case sql_call w of
     (Some m, w1) \<Rightarrow> (Inl (fail_msg ''counting jobs'' m), w1)
   | (None, w1) \<Rightarrow> (Inr out, w1))"
| "step_groups ((token, n) # gs) out w = (case sql_call w of
     (Some m, w1) \<Rightarrow> (Inl (fail_msg ''counting jobs'' m), w1)
   | (None, w1) \<Rightarrow>
      (case JobState_from_string token of
         None \<Rightarrow> (Inl (''store: unrecognised state '' @ quoted token @ '' in job table''), w1)
       | Some s \<Rightarrow> step_groups gs (out(s := to_u64 n)) w1))"

definition counts_by_state :: "conn \<Rightarrow> world \<Rightarrow> (JobState \<Rightarrow> 64 word) res \<times> world" where
  "counts_by_state c w =
     (if \<not> c_open c then (Inl not_open_msg, w)
      else case sql_call w of
        (Some m, w1) \<Rightarrow> (Inl (fail_msg ''preparing counts_by_state'' m), w1)
      | (None, w1) \<Rightarrow> step_groups (state_groups (db_jobs (w_db w1))) (\<lambda>_. 0) w1)"

definition record_attempt :: "string \<Rightarrow> int \<Rightarrow> string \<Rightarrow> conn \<Rightarrow> world \<Rightarrow> unit res \<times> world" where
  "record_attempt i next_retry_ms reason c w =
     (if \<not> c_open c then (Inl not_open_msg, w)
      else case sql_call w of
        (Some m, w1) \<Rightarrow> (Inl (fail_msg ''preparing record_attempt'' m), w1)
      | (None, w1) \<Rightarrow>
         (case sql_update_job (c_str i)
            (\<lambda>r. r\<lparr>r_attempts := r_attempts r + 1, r_next_retry_ms := next_retry_ms,
                    r_last_error := c_str reason\<rparr>) c w1 of
            (Inl m, w2) \<Rightarrow> (Inl (fail_msg (''recording attempt for job '' @ quoted i) m), w2)
          | (Inr n, w2) \<Rightarrow> (if n = 0 then (Inl (no_such_job_msg i), w2) else (Inr (), w2))))"

definition load_retry_state :: "string \<Rightarrow> conn \<Rightarrow> world \<Rightarrow> RetryState option res \<times> world" where
  "load_retry_state i c w =
     (if \<not> c_open c then (Inl not_open_msg, w)
      else case sql_call w of
        (Some m, w1) \<Rightarrow> (Inl (fail_msg ''preparing load_retry_state'' m), w1)
      | (None, w1) \<Rightarrow>
         (case sql_call w1 of
            (Some m, w2) \<Rightarrow> (Inl (fail_msg (''loading retry state for '' @ quoted i) m), w2)
          | (None, w2) \<Rightarrow>
             (case db_find w2 (c_str i) of
                None \<Rightarrow> (Inr None, w2)
              | Some r \<Rightarrow>
                 (Inr (Some \<lparr>rs_attempts = column_int (r_attempts r),
                             rs_next_retry_ms = r_next_retry_ms r,
                             rs_last_error = r_last_error r, rs_retry_of = r_retry_of r\<rparr>), w2))))"

definition due_jobs :: "int \<Rightarrow> conn \<Rightarrow> world \<Rightarrow> string list res \<times> world" where
  "due_jobs now_ms c w =
     (if \<not> c_open c then (Inl not_open_msg, w)
      else case sql_call w of
        (Some m, w1) \<Rightarrow> (Inl (fail_msg ''preparing due_jobs'' m), w1)
      | (None, w1) \<Rightarrow>
         step_rows ''listing due jobs'' (\<lambda>r. Inr (r_id r))
           (sort_key (\<lambda>r. (r_next_retry_ms r, r_created_at_ms r, r_id r))
              (filter (\<lambda>r. r_state r = ''QUEUED'' \<and> r_next_retry_ms r \<le> now_ms)
                 (db_jobs (w_db w1)))) w1)"

text \<open>\<open>rollback_quietly\<close>: one call whose outcome is discarded.\<close>

definition rollback_quietly :: "world \<Rightarrow> world" where
  "rollback_quietly w = snd (exec_sql ''rolling back'' w)"

text \<open>\<open>JobStore::next_sequence\<close>: \<open>BEGIN IMMEDIATE\<close>, the increment, the read-back through
  \<open>query_int\<close>, \<open>COMMIT\<close>. The increment becomes durable at the commit.\<close>

definition next_sequence :: "conn \<Rightarrow> world \<Rightarrow> 64 word res \<times> world" where
  "next_sequence c w =
     (if \<not> c_open c then (Inl not_open_msg, w)
      else case exec_sql ''beginning sequence bump'' w of
        (Inl e, w1) \<Rightarrow> (Inl e, w1)
      | (Inr _, w1) \<Rightarrow>
         (case sql_write c w1 of
            (Some m, w2) \<Rightarrow> (Inl (fail_msg ''bumping sequence'' m), rollback_quietly w2)
          | (None, w2) \<Rightarrow>
             (let bumped = map_option (\<lambda>v. v + 1) (db_seq (w_db w2)) in
              case query_int ''SELECT next FROM job_sequence WHERE id = 1;'' bumped w2 of
                (Inl e, w3) \<Rightarrow> (Inl e, rollback_quietly w3)
              | (Inr v, w3) \<Rightarrow>
                 (case exec_sql ''committing sequence bump'' w3 of
                    (Inl e, w4) \<Rightarrow> (Inl e, rollback_quietly w4)
                  | (Inr _, w4) \<Rightarrow>
                     (Inr (to_u64 v), w4\<lparr>w_db := (w_db w4)\<lparr>db_seq := bumped\<rparr>\<rparr>)))))"

definition schema_version :: "conn \<Rightarrow> world \<Rightarrow> int res \<times> world" where
  "schema_version c w =
     (if \<not> c_open c then (Inl not_open_msg, w)
      else query_int ''PRAGMA user_version;'' (Some (db_user_version (w_db w))) w)"

section \<open>Opening\<close>

text \<open>What SQLite answers when the settings are read back, the engine's own business.\<close>

record pragma_answers =
  pa_integrity :: string
  pa_journal_mode :: string
  pa_synchronous :: int
  pa_foreign_keys :: int

definition healthy :: pragma_answers where
  "healthy = \<lparr>pa_integrity = ''ok'', pa_journal_mode = ''wal'', pa_synchronous = 2, pa_foreign_keys = 1\<rparr>"

definition refusing_note :: string where
  "refusing_note = ''). Refusing to start: continuing would discard the record of jobs whose source files may still exist.''"

definition corrupt_note :: string where
  "corrupt_note = ''. Refusing to start: corruption is never silently skipped or partially recovered.''"

definition version_note :: string where
  "version_note = ''. This is a pre-v1.0.0 build and carries no migration path: delete the database file and restart. Refusing to open it rather than misread it.''"

text \<open>The integrity check of a store that was already there.\<close>

definition check_integrity :: "string \<Rightarrow> pragma_answers \<Rightarrow> bool \<Rightarrow> world \<Rightarrow> unit res \<times> world" where
  "check_integrity path pa existed w =
     (if \<not> existed then (Inr (), w)
      else case query_text ''PRAGMA integrity_check;'' (Some (pa_integrity pa)) w of
        (Inl e, w1) \<Rightarrow>
          (Inl (''store: '' @ quoted path @ '' is present but unreadable as a database ('' @ e @ refusing_note), w1)
      | (Inr verdict, w1) \<Rightarrow>
         (if verdict \<noteq> ''ok''
          then (Inl (''store: '' @ quoted path @ '' is corrupt: '' @ verdict @ corrupt_note), w1)
          else (Inr (), w1)))"

text \<open>The three settings, each set and then read back.\<close>

definition apply_settings :: "pragma_answers \<Rightarrow> world \<Rightarrow> unit res \<times> world" where
  "apply_settings pa w =
     (case exec_sql ''enabling foreign keys'' w of
        (Inl e, w1) \<Rightarrow> (Inl e, w1)
      | (Inr _, w1) \<Rightarrow>
     (case exec_sql ''enabling WAL'' w1 of
        (Inl e, w2) \<Rightarrow> (Inl e, w2)
      | (Inr _, w2) \<Rightarrow>
     (case exec_sql ''setting synchronous=FULL'' w2 of
        (Inl e, w3) \<Rightarrow> (Inl e, w3)
      | (Inr _, w3) \<Rightarrow>
     (case query_text ''PRAGMA journal_mode;'' (Some (pa_journal_mode pa)) w3 of
        (Inl e, w4) \<Rightarrow> (Inl e, w4)
      | (Inr journal_mode, w4) \<Rightarrow>
     (if journal_mode \<noteq> ''wal''
      then (Inl (''store: journal_mode is '' @ quoted journal_mode @ '', expected '' @ quoted ''wal'' @ '' (ADR-0010)''), w4)
      else case query_int ''PRAGMA synchronous;'' (Some (pa_synchronous pa)) w4 of
        (Inl e, w5) \<Rightarrow> (Inl e, w5)
      | (Inr synchronous, w5) \<Rightarrow>
     (if synchronous \<noteq> 2
      then (Inl (''store: synchronous is '' @ int_dec synchronous @ '', expected 2 (FULL) (ADR-0010)''), w5)
      else case query_int ''PRAGMA foreign_keys;'' (Some (pa_foreign_keys pa)) w5 of
        (Inl e, w6) \<Rightarrow> (Inl e, w6)
      | (Inr foreign_keys, w6) \<Rightarrow>
     (if foreign_keys \<noteq> 1 then (Inl ''store: foreign_keys did not take effect'', w6)
      else (Inr (), w6))))))))"

text \<open>\<open>kSchemaSql\<close> and the version stamp: the tables are created if absent, the sequence
  row is inserted if absent.\<close>

definition with_schema :: "db \<Rightarrow> db" where
  "with_schema d = d\<lparr>db_seq := (case db_seq d of None \<Rightarrow> Some 0 | Some v \<Rightarrow> Some v),
     db_user_version := kSchemaVersion\<rparr>"

definition create_schema :: "world \<Rightarrow> unit res \<times> world" where
  "create_schema w =
     (case exec_sql ''beginning schema creation'' w of
        (Inl e, w1) \<Rightarrow> (Inl e, rollback_quietly w1)
      | (Inr _, w1) \<Rightarrow>
     (case exec_sql ''applying schema'' w1 of
        (Inl e, w2) \<Rightarrow> (Inl e, rollback_quietly w2)
      | (Inr _, w2) \<Rightarrow>
     (case exec_sql ''recording schema version'' w2 of
        (Inl e, w3) \<Rightarrow> (Inl e, rollback_quietly w3)
      | (Inr _, w3) \<Rightarrow>
     (case exec_sql ''committing schema creation'' w3 of
        (Inl e, w4) \<Rightarrow> (Inl e, rollback_quietly w4)
      | (Inr _, w4) \<Rightarrow> (Inr (), w4\<lparr>w_db := with_schema (w_db w4)\<rparr>)))))"

definition check_schema :: "world \<Rightarrow> unit res \<times> world" where
  "check_schema w =
     (case query_int ''PRAGMA user_version;'' (Some (db_user_version (w_db w))) w of
        (Inl e, w1) \<Rightarrow> (Inl e, w1)
      | (Inr version, w1) \<Rightarrow>
         (if version \<noteq> 0 \<and> version \<noteq> kSchemaVersion
          then (Inl (''store: database schema version '' @ int_dec version @
                     '' does not match this build'' @ QUOTE @ ''s version '' @ int_dec kSchemaVersion @
                     version_note), w1)
          else if version = 0 then create_schema w1
          else (Inr (), w1)))"

text \<open>\<open>JobStore::open\<close>. \<open>stat\<close> decides whether the store existed; \<open>sqlite3_open_v2\<close> creates
  an absent file.\<close>

definition store_open ::
  "string \<Rightarrow> pragma_answers \<Rightarrow> conn \<Rightarrow> world \<Rightarrow> StoreOpenResult res \<times> conn \<times> world" where
  "store_open path pa c w =
     (case kcall w of
        (stat_error, w1) \<Rightarrow>
     (let existed = (stat_error = None \<and> w_dbfile w1) in
      case sql_call w1 of
        (Some m, w2) \<Rightarrow> (Inl (''store: cannot open '' @ quoted path @ '': '' @ m), closed_conn, w2)
      | (None, w2) \<Rightarrow>
     (let w3 = (if w_dbfile w2 then w2 else w2\<lparr>w_dbfile := True, w_db := empty_db\<rparr>) in
      case check_integrity path pa existed w3 of
        (Inl e, w4) \<Rightarrow> (Inl e, closed_conn, w4)
      | (Inr _, w4) \<Rightarrow>
     (case apply_settings pa w4 of
        (Inl e, w5) \<Rightarrow> (Inl e, closed_conn, w5)
      | (Inr _, w5) \<Rightarrow>
     (case check_schema w5 of
        (Inl e, w6) \<Rightarrow> (Inl e, closed_conn, w6)
      | (Inr _, w6) \<Rightarrow>
         (Inr (if existed then OpenedExisting else CreatedFresh), open_conn, w6))))))"

definition store_close :: "conn \<Rightarrow> conn" where
  "store_close c = closed_conn"

end
