(* ===== verification/Fsops.thy ===== *)
theory Fsops
  imports World
begin

text \<open>
  The fd-relative file system layer (\<open>cpp/src/fsops.cpp\<close>, \<open>cpp/include/filemover/fsops.hpp\<close>).
  A \<open>DirHandle\<close> is the directory object its descriptor pins, or none when it is closed;
  a file descriptor is the object it was opened on. Every operation is one definition over
  the world of World, with the checks, the system calls and the diagnostics in the
  order of the source. The test seams (\<open>set_pre_open_hook\<close>) are not installed by the program;
  what such a hook could do in the race window is done here by the environment schedule.
\<close>

section \<open>Data\<close>

datatype EntryKind =
  Missing | Regular | Directory | Symlink | Fifo | Socket | BlockDevice | CharDevice | Unknown

record FileIdentity =
  fi_dev :: nat
  fi_ino :: nat
  fi_kind :: EntryKind

datatype MoveStrategy = RenameNoReplace | LinkThenUnlink

datatype ErrorClass = Retryable | Denied | Fatal

datatype MoveState = NotStarted | Interrupted | Collision | Completed | BothMissing

type_synonym DirHandle = "objid option"

record DirEntry =
  de_name :: string
  de_kind :: EntryKind

definition new_FileIdentity :: FileIdentity where
  "new_FileIdentity = \<lparr>fi_dev = 0, fi_ino = 0, fi_kind = Missing\<rparr>"

section \<open>Pure helpers\<close>

definition errno_message :: "string \<Rightarrow> nat \<Rightarrow> world \<Rightarrow> string" where
  "errno_message what err w = ''fsops: '' @ what @ '': '' @ w_strerror w err"

definition kind_from_mode :: "32 word \<Rightarrow> EntryKind" where
  "kind_from_mode mode =
     (if has_type mode S_IFREG then Regular
      else if has_type mode S_IFDIR then Directory
      else if has_type mode S_IFLNK then Symlink
      else if has_type mode S_IFIFO then Fifo
      else if has_type mode S_IFSOCK then Socket
      else if has_type mode S_IFBLK then BlockDevice
      else if has_type mode S_IFCHR then CharDevice
      else Unknown)"

definition is_plain_name :: "string \<Rightarrow> bool" where
  "is_plain_name name \<longleftrightarrow>
     \<not> (name = [] \<or> name = ''.'' \<or> name = ''..'') \<and>
     find_char (CHR ''/'') name = None \<and> find_char NUL name = None"

text \<open>\<open>reject_bad_name\<close>: the error when the name is refused.\<close>

definition reject_bad_name :: "string \<Rightarrow> string option" where
  "reject_bad_name name =
     (if \<not> is_plain_name name
      then Some (''fsops: '' @ QUOTE @ name @ QUOTE @
        '' is not a plain entry name; this layer takes names relative '' @
        ''to a directory descriptor, never paths (L2-SEC-001)'')
      else None)"

fun EntryKind_to_string :: "EntryKind \<Rightarrow> string" where
  "EntryKind_to_string Missing = ''MISSING''"
| "EntryKind_to_string Regular = ''REGULAR''"
| "EntryKind_to_string Directory = ''DIRECTORY''"
| "EntryKind_to_string Symlink = ''SYMLINK''"
| "EntryKind_to_string Fifo = ''FIFO''"
| "EntryKind_to_string Socket = ''SOCKET''"
| "EntryKind_to_string BlockDevice = ''BLOCK_DEVICE''"
| "EntryKind_to_string CharDevice = ''CHAR_DEVICE''"
| "EntryKind_to_string Unknown = ''UNKNOWN''"

fun MoveStrategy_to_string :: "MoveStrategy \<Rightarrow> string" where
  "MoveStrategy_to_string RenameNoReplace = ''RENAME_NOREPLACE''"
| "MoveStrategy_to_string LinkThenUnlink = ''LINK_THEN_UNLINK''"

fun ErrorClass_to_string :: "ErrorClass \<Rightarrow> string" where
  "ErrorClass_to_string Retryable = ''RETRYABLE''"
| "ErrorClass_to_string Denied = ''DENIED''"
| "ErrorClass_to_string Fatal = ''FATAL''"

fun MoveState_to_string :: "MoveState \<Rightarrow> string" where
  "MoveState_to_string NotStarted = ''NOT_STARTED''"
| "MoveState_to_string Interrupted = ''INTERRUPTED''"
| "MoveState_to_string Collision = ''COLLISION''"
| "MoveState_to_string Completed = ''COMPLETED''"
| "MoveState_to_string BothMissing = ''BOTH_MISSING''"

definition same_object_as :: "FileIdentity \<Rightarrow> FileIdentity \<Rightarrow> bool" where
  "same_object_as a b \<longleftrightarrow> fi_dev a = fi_dev b \<and> fi_ino a = fi_ino b \<and> fi_kind a = fi_kind b"

definition classify_errno :: "nat \<Rightarrow> ErrorClass" where
  "classify_errno err =
     (if err \<in> {ESTALE, EAGAIN, EINTR, ENOMEM, ENOSPC, EBUSY, ETIMEDOUT} then Retryable
      else if err \<in> {EACCES, EPERM, EROFS} then Denied
      else Fatal)"

definition identity_of :: "objid \<Rightarrow> fstat \<Rightarrow> FileIdentity" where
  "identity_of ob st = \<lparr>fi_dev = fst ob, fi_ino = snd ob, fi_kind = kind_from_mode (st_mode st)\<rparr>"

section \<open>Directory handles\<close>

text \<open>The handle afterwards comes with the result; \<open>open_child\<close> keeps the old handle when it
  refuses before closing it.\<close>

definition open_root :: "string \<Rightarrow> world \<Rightarrow> (unit res \<times> DirHandle) \<times> world" where
  "open_root path w = (case sys_open_dir path w of
     (Inl e, w1) \<Rightarrow>
       ((Inl (errno_message (''cannot open root directory '' @ QUOTE @ path @ QUOTE) e w1), None), w1)
   | (Inr d, w1) \<Rightarrow> ((Inr (), Some d), w1))"

definition open_child ::
  "DirHandle \<Rightarrow> DirHandle \<Rightarrow> string \<Rightarrow> world \<Rightarrow> (unit res \<times> DirHandle) \<times> world" where
  "open_child this parent name w = (case parent of
     None \<Rightarrow> ((Inl ''fsops: parent directory is not open'', this), w)
   | Some p \<Rightarrow> (case reject_bad_name name of
        Some e \<Rightarrow> ((Inl e, this), w)
      | None \<Rightarrow> (case sys_openat_dir p name w of
           (Inl e, w1) \<Rightarrow>
             ((Inl (errno_message (''cannot open subdirectory '' @ QUOTE @ name @ QUOTE) e w1), None), w1)
         | (Inr d, w1) \<Rightarrow> ((Inr (), Some d), w1))))"

section \<open>Classification and opening\<close>

definition not_open_dir_msg :: string where
  "not_open_dir_msg = ''fsops: directory is not open''"

definition classify :: "DirHandle \<Rightarrow> string \<Rightarrow> world \<Rightarrow> FileIdentity res \<times> world" where
  "classify dir name w = (case dir of
     None \<Rightarrow> (Inl not_open_dir_msg, w)
   | Some d \<Rightarrow> (case reject_bad_name name of
        Some e \<Rightarrow> (Inl e, w)
      | None \<Rightarrow> (case sys_fstatat d name w of
           (Inl e, w1) \<Rightarrow>
             (if e = ENOENT then (Inr new_FileIdentity, w1)
              else (Inl (errno_message (''cannot stat '' @ QUOTE @ name @ QUOTE) e w1), w1))
         | (Inr (ob, st), w1) \<Rightarrow> (Inr (identity_of ob st), w1))))"

text \<open>The \<open>d_type\<close> values of \<open>dirent.h\<close>; anything else falls back to \<open>fstatat\<close>.\<close>

definition kind_from_dtype :: "nat \<Rightarrow> EntryKind option" where
  "kind_from_dtype t =
     (if t = 8 then Some Regular else if t = 4 then Some Directory else if t = 10 then Some Symlink
      else if t = 1 then Some Fifo else if t = 12 then Some Socket else if t = 6 then Some BlockDevice
      else if t = 2 then Some CharDevice else None)"

definition entry_kind :: "objid \<Rightarrow> string \<Rightarrow> nat \<Rightarrow> world \<Rightarrow> EntryKind \<times> world" where
  "entry_kind d name t w = (case kind_from_dtype t of
     Some k \<Rightarrow> (k, w)
   | None \<Rightarrow> (case sys_fstatat d name w of
        (Inr (ob, st), w1) \<Rightarrow> (kind_from_mode (st_mode st), w1)
      | (Inl e, w1) \<Rightarrow> ((if e = ENOENT then Missing else Unknown), w1)))"

text \<open>The \<open>readdir\<close> loop over the entries the stream delivers, one call per entry and one for
  the end of the stream.\<close>

fun read_loop :: "objid \<Rightarrow> (string \<times> nat) list \<Rightarrow> DirEntry list \<Rightarrow> world \<Rightarrow> DirEntry list res \<times> world" where
  "read_loop d [] out w = (case kcall w of
     (Some e, w1) \<Rightarrow> (Inl (errno_message ''reading directory'' e w1), w1)
   | (None, w1) \<Rightarrow> (Inr out, w1))"
| "read_loop d ((name, t) # es) out w = (case kcall w of
     (Some e, w1) \<Rightarrow> (Inl (errno_message ''reading directory'' e w1), w1)
   | (None, w1) \<Rightarrow>
      (if name = ''.'' \<or> name = ''..'' then read_loop d es out w1
       else case entry_kind d name t w1 of
         (k, w2) \<Rightarrow> read_loop d es (out @ [\<lparr>de_name = name, de_kind = k\<rparr>]) w2))"

text \<open>\<open>dtype\<close> is the type the file system reports for an object (\<open>DT_UNKNOWN\<close> = 0 on NFS).\<close>

definition read_entries :: "(objid \<Rightarrow> nat) \<Rightarrow> DirHandle \<Rightarrow> world \<Rightarrow> DirEntry list res \<times> world" where
  "read_entries dtype dir w = (case dir of
     None \<Rightarrow> (Inl not_open_dir_msg, w)
   | Some d \<Rightarrow> (case kcall w of
        (Some e, w1) \<Rightarrow> (Inl (errno_message ''cannot duplicate directory descriptor'' e w1), w1)
      | (None, w1) \<Rightarrow> (case kcall w1 of
           (Some e, w2) \<Rightarrow> (Inl (errno_message ''cannot read directory'' e w2), w2)
         | (None, w2) \<Rightarrow>
            read_loop d ([(''.'', 4), (''..'', 4)] @
              map (\<lambda>(n, ob). (n, dtype ob)) (fs_dents (w_fs w2) d)) [] w2)))"

definition changed_msg :: "string \<Rightarrow> FileIdentity \<Rightarrow> FileIdentity \<Rightarrow> string" where
  "changed_msg name expected actual =
     ''fsops: '' @ QUOTE @ name @ QUOTE @ '' changed between classification and open'' @
     '' (expected dev='' @ nat_dec (fi_dev expected) @ '' ino='' @ nat_dec (fi_ino expected) @
     '' '' @ EntryKind_to_string (fi_kind expected) @ '', found dev='' @ nat_dec (fi_dev actual) @
     '' ino='' @ nat_dec (fi_ino actual) @ '' '' @ EntryKind_to_string (fi_kind actual) @
     ''); aborting (L2-SEC-002)''"

definition open_regular ::
  "DirHandle \<Rightarrow> string \<Rightarrow> FileIdentity \<Rightarrow> world \<Rightarrow> objid res \<times> world" where
  "open_regular dir name expected w = (case dir of
     None \<Rightarrow> (Inl not_open_dir_msg, w)
   | Some d \<Rightarrow> (case reject_bad_name name of
        Some e \<Rightarrow> (Inl e, w)
      | None \<Rightarrow>
         (if fi_kind expected \<noteq> Regular
          then (Inl (''fsops: refusing to open '' @ QUOTE @ name @ QUOTE @ '': it is a '' @
                     EntryKind_to_string (fi_kind expected) @ '', not a regular file''), w)
          else case sys_openat d name w of
            (Inl e, w1) \<Rightarrow>
              (if e = ELOOP
               then (Inl (''fsops: refusing to open '' @ QUOTE @ name @ QUOTE @
                          '': it is a symbolic link (L2-SEC-003)''), w1)
               else (Inl (errno_message (''cannot open '' @ QUOTE @ name @ QUOTE) e w1), w1))
          | (Inr fd, w1) \<Rightarrow> (case sys_fstat fd w1 of
               (Inl e, w2) \<Rightarrow>
                 (Inl (errno_message (''cannot fstat opened '' @ QUOTE @ name @ QUOTE) e w2), w2)
             | (Inr st, w2) \<Rightarrow>
                (if \<not> same_object_as (identity_of fd st) expected
                 then (Inl (changed_msg name expected (identity_of fd st)), w2)
                 else (Inr fd, w2))))))"

text \<open>\<open>fresh\<close> is the object the file system would allocate for a new file.\<close>

definition open_lock_file :: "objid \<Rightarrow> DirHandle \<Rightarrow> string \<Rightarrow> world \<Rightarrow> objid res \<times> world" where
  "open_lock_file fresh dir name w = (case dir of
     None \<Rightarrow> (Inl (''cannot open lock file '' @ QUOTE @ name @ QUOTE @ '': directory is not open''), w)
   | Some d \<Rightarrow> (case sys_openat_creat fresh d name w of
        (Inl e, w1) \<Rightarrow> (Inl (errno_message (''cannot open lock file '' @ QUOTE @ name @ QUOTE) e w1), w1)
      | (Inr fd, w1) \<Rightarrow> (Inr fd, w1)))"

definition check_source_trust :: "DirHandle \<Rightarrow> objid \<Rightarrow> nat \<Rightarrow> world \<Rightarrow> unit res \<times> world" where
  "check_source_trust parent file_fd trusted_uid w = (case parent of
     None \<Rightarrow> (Inl not_open_dir_msg, w)
   | Some p \<Rightarrow> (case sys_fstat file_fd w of
        (Inl e, w1) \<Rightarrow> (Inl (errno_message ''cannot fstat source descriptor'' e w1), w1)
      | (Inr src_st, w1) \<Rightarrow>
         (if \<not> has_type (st_mode src_st) S_IFREG then (Inl ''fsops: source is not a regular file'', w1)
          else if st_uid src_st \<noteq> trusted_uid
          then (Inl (''fsops: source is owned by uid '' @ nat_dec (st_uid src_st) @
                     '', not the configured trusted uid '' @ nat_dec trusted_uid @
                     ''; aborting (L2-SEC-005)''), w1)
          else case sys_fstat p w1 of
            (Inl e, w2) \<Rightarrow> (Inl (errno_message ''cannot fstat source directory'' e w2), w2)
          | (Inr dst, w2) \<Rightarrow>
             (if st_mode dst AND S_IWOTH \<noteq> 0 \<and> st_mode dst AND S_ISVTX = 0
              then (Inl (''fsops: source directory is world-writable without the sticky '' @
                         ''bit; any user could replace entries mid-move (L2-SEC-005)''), w2)
              else (Inr (), w2)))))"

section \<open>Moving\<close>

definition kProbeFrom :: string where "kProbeFrom = ''.swit-probe-src''"
definition kProbeTo :: string where "kProbeTo = ''.swit-probe-dst''"

definition detect_strategy :: "DirHandle \<Rightarrow> world \<Rightarrow> MoveStrategy res \<times> world" where
  "detect_strategy dir w = (case dir of
     None \<Rightarrow> (Inl not_open_dir_msg, w)
   | Some d \<Rightarrow> (case sys_renameat2 d kProbeFrom d kProbeTo w of
        (None, w1) \<Rightarrow> (Inl ''fsops: RENAME_NOREPLACE probe unexpectedly succeeded'', w1)
      | (Some err, w1) \<Rightarrow>
         (if err = EINVAL \<or> err = ENOSYS \<or> err = EOPNOTSUPP then (Inr LinkThenUnlink, w1)
          else if err = ENOENT then (Inr RenameNoReplace, w1)
          else (Inl (errno_message ''RENAME_NOREPLACE capability probe failed'' err w1), w1))))"

definition arrow :: "string \<Rightarrow> string \<Rightarrow> string" where
  "arrow a b = QUOTE @ a @ QUOTE @ '' -> '' @ QUOTE @ b @ QUOTE"

definition move_within ::
  "DirHandle \<Rightarrow> string \<Rightarrow> DirHandle \<Rightarrow> string \<Rightarrow> MoveStrategy \<Rightarrow> world \<Rightarrow> unit res \<times> world" where
  "move_within from_dir from_name to_dir to_name strategy w =
     (case (from_dir, to_dir) of
        (Some fd, Some td) \<Rightarrow>
          (case reject_bad_name from_name of
             Some e \<Rightarrow> (Inl e, w)
           | None \<Rightarrow> (case reject_bad_name to_name of
               Some e \<Rightarrow> (Inl e, w)
             | None \<Rightarrow>
                (if strategy = RenameNoReplace
                 then case sys_renameat2 fd from_name td to_name w of
                   (Some err, w1) \<Rightarrow>
                     (Inl (errno_message (''renameat2(RENAME_NOREPLACE) '' @ arrow from_name to_name) err w1), w1)
                 | (None, w1) \<Rightarrow> (Inr (), w1)
                 else case sys_linkat fd from_name td to_name w of
                   (Some err, w1) \<Rightarrow> (Inl (errno_message (''linkat '' @ arrow from_name to_name) err w1), w1)
                 | (None, w1) \<Rightarrow> (case sys_unlinkat fd from_name w1 of
                      (Some err, w2) \<Rightarrow>
                        (Inl (errno_message (''linkat succeeded but unlinkat of '' @ QUOTE @ from_name @ QUOTE @
                           '' failed; both names now reference one inode'') err w2), w2)
                    | (None, w2) \<Rightarrow> (Inr (), w2)))))
      | _ \<Rightarrow> (Inl not_open_dir_msg, w))"

definition classify_move_state ::
  "DirHandle \<Rightarrow> string \<Rightarrow> DirHandle \<Rightarrow> string \<Rightarrow> world \<Rightarrow> MoveState res \<times> world" where
  "classify_move_state from_dir from_name to_dir to_name w =
     (case classify from_dir from_name w of
        (Inl e, w1) \<Rightarrow> (Inl e, w1)
      | (Inr from, w1) \<Rightarrow> (case classify to_dir to_name w1 of
           (Inl e, w2) \<Rightarrow> (Inl e, w2)
         | (Inr to, w2) \<Rightarrow>
            (let have_from = fi_kind from \<noteq> Missing; have_to = fi_kind to \<noteq> Missing in
             (Inr (if have_from \<and> have_to
                   then (if same_object_as from to then Interrupted else Collision)
                   else if have_from then NotStarted
                   else if have_to then Completed
                   else BothMissing), w2))))"

definition is_interrupted_move ::
  "DirHandle \<Rightarrow> string \<Rightarrow> DirHandle \<Rightarrow> string \<Rightarrow> world \<Rightarrow> bool res \<times> world" where
  "is_interrupted_move from_dir from_name to_dir to_name w =
     (case classify_move_state from_dir from_name to_dir to_name w of
        (Inl e, w1) \<Rightarrow> (Inl e, w1)
      | (Inr state, w1) \<Rightarrow> (Inr (state = Interrupted), w1))"

definition publish :: "DirHandle \<Rightarrow> string \<Rightarrow> string \<Rightarrow> world \<Rightarrow> unit res \<times> world" where
  "publish dir temp_name final_name w = (case dir of
     None \<Rightarrow> (Inl not_open_dir_msg, w)
   | Some d \<Rightarrow> (case reject_bad_name temp_name of
       Some e \<Rightarrow> (Inl e, w)
     | None \<Rightarrow> (case reject_bad_name final_name of
         Some e \<Rightarrow> (Inl e, w)
       | None \<Rightarrow> (case sys_openat d temp_name w of
           (Inl e, w1) \<Rightarrow>
             (Inl (errno_message (''cannot open '' @ QUOTE @ temp_name @ QUOTE @ '' to fsync'') e w1), w1)
         | (Inr fd, w1) \<Rightarrow> (case sys_fsync w1 of
             (Some e, w2) \<Rightarrow> (Inl (errno_message (''fsync of '' @ QUOTE @ temp_name @ QUOTE) e w2), w2)
           | (None, w2) \<Rightarrow> (case sys_renameat d temp_name d final_name w2 of
               (Some e, w3) \<Rightarrow>
                 (Inl (errno_message (''publishing '' @ QUOTE @ temp_name @ QUOTE @ '' as '' @
                    QUOTE @ final_name @ QUOTE) e w3), w3)
             | (None, w3) \<Rightarrow> (case sys_fsync w3 of
                 (Some e, w4) \<Rightarrow> (Inl (errno_message ''fsync of destination directory'' e w4), w4)
               | (None, w4) \<Rightarrow> (Inr (), w4))))))))"

section \<open>Names and paths\<close>

definition is_silly_rename :: "string \<Rightarrow> bool" where
  "is_silly_rename name \<longleftrightarrow> length name > 4 \<and> take 4 name = ''.nfs''"

definition is_control :: "char \<Rightarrow> bool" where
  "is_control c \<longleftrightarrow> byte c < 32 \<or> byte c = 127"

text \<open>\<open>std::hex\<close> on a byte: lower case, no padding.\<close>

definition hex_digit :: "nat \<Rightarrow> char" where
  "hex_digit d = (if d < 10 then digit_char d else char_of (87 + d))"

definition byte_hex :: "nat \<Rightarrow> string" where
  "byte_hex b = (if b < 16 then [hex_digit b] else [hex_digit (b div 16), hex_digit (b mod 16)])"

fun find_control :: "nat \<Rightarrow> string \<Rightarrow> (nat \<times> char) option" where
  "find_control i [] = None"
| "find_control i (c # cs) = (if is_control c then Some (i, c) else find_control (Suc i) cs)"

text \<open>The component scan of \<open>validate_external_path\<close>: true when a \<open>..\<close> component is met.\<close>

function dotdot_from :: "string \<Rightarrow> nat \<Rightarrow> bool" where
  "dotdot_from path start =
     (if start \<le> length path then
        (let stop = (case find_char (CHR ''/'') (drop start path) of
                       Some i \<Rightarrow> start + i | None \<Rightarrow> length path)
         in if substr start (stop - start) path = ''..'' then True
            else dotdot_from path (Suc stop))
      else False)"
  by pat_completeness auto
termination
  by (relation "measure (\<lambda>(path, start). Suc (length path) - start)")
     (auto dest!: find_char_SomeD split: option.splits)

declare dotdot_from.simps [simp del]

definition validate_external_path :: "string \<Rightarrow> unit res" where
  "validate_external_path path =
     (if path = [] then Inl ''path is empty''
      else if path ! 0 \<noteq> CHR ''/'' then Inl (''path '' @ QUOTE @ path @ QUOTE @ '' is not absolute'')
      else case find_control 0 path of
        Some (i, c) \<Rightarrow>
          Inl (''path contains a control character (0x'' @ byte_hex (byte c) @ '') at offset '' @ nat_dec i)
      | None \<Rightarrow>
         (if dotdot_from path 0
          then Inl (''path '' @ QUOTE @ path @ QUOTE @ '' contains a '' @ QUOTE @ ''..'' @ QUOTE @ '' component'')
          else Inr ()))"

end
