(* ===== verification/Mover.thy ===== *)
theory Mover
  imports Store Fsops
begin

text \<open>
  The move engine (\<open>cpp/src/mover.cpp\<close>, \<open>cpp/include/filemover/mover.hpp\<close>): one move in six
  phases around a commit point, and recovery after a crash. Each function threads the
  \<open>error\<close> out-parameter explicitly: it is part of the result, and what an earlier step left in
  it is visible to a later one. The progress callback and the phase hook are null in the
  program (only tests install them) and are not modelled; the byte total exists for the
  progress callback only.
\<close>

section \<open>Data\<close>

record MoveRequest =
  mr_source_dir :: string
  mr_source_name :: string
  mr_dest_dir :: string
  mr_dest_name :: string

datatype MoveOutcome =
  MoveCompleted | Rejected | AbortedBeforeCommit | HaltedAfterCommit | FailedExternal

datatype MovePhase = Validate | RecordRenaming | Commit | RecordMoved | Publish | RecordDone

fun MoveOutcome_to_string :: "MoveOutcome \<Rightarrow> string" where
  "MoveOutcome_to_string MoveCompleted = ''COMPLETED''"
| "MoveOutcome_to_string Rejected = ''REJECTED''"
| "MoveOutcome_to_string AbortedBeforeCommit = ''ABORTED_BEFORE_COMMIT''"
| "MoveOutcome_to_string HaltedAfterCommit = ''HALTED_AFTER_COMMIT''"
| "MoveOutcome_to_string FailedExternal = ''FAILED_EXTERNAL''"

fun MovePhase_to_string :: "MovePhase \<Rightarrow> string" where
  "MovePhase_to_string Validate = ''VALIDATE''"
| "MovePhase_to_string RecordRenaming = ''RECORD_RENAMING''"
| "MovePhase_to_string Commit = ''COMMIT''"
| "MovePhase_to_string RecordMoved = ''RECORD_MOVED''"
| "MovePhase_to_string Publish = ''PUBLISH''"
| "MovePhase_to_string RecordDone = ''RECORD_DONE''"

definition next_tick :: "int \<Rightarrow> int" where
  "next_tick previous = previous + 1"

definition staging_name :: "string \<Rightarrow> string" where
  "staging_name jid = ''.swit-partial-'' @ jid"

section \<open>Messages\<close>

definition no_record_msg :: "string \<Rightarrow> string" where
  "no_record_msg jid = ''mover: no durable record for job '' @ quoted jid"

definition no_intent_msg :: "string \<Rightarrow> string" where
  "no_intent_msg jid = no_record_msg jid @
     ''; intent must be recorded before any filesystem action (L2-JOB-013)''"

definition already_failed_msg :: "string \<Rightarrow> string" where
  "already_failed_msg jid = ''mover: job '' @ quoted jid @
     '' is already FAILED; refusing to resurrect it''"

definition no_source_msg :: "string \<Rightarrow> string" where
  "no_source_msg name = ''mover: source '' @ quoted name @ '' does not exist''"

definition not_regular_msg :: "string \<Rightarrow> EntryKind \<Rightarrow> string" where
  "not_regular_msg name k = ''mover: refusing '' @ quoted name @ '': it is a '' @
     EntryKind_to_string k @ '', not a regular file''"

definition removed_msg :: "string \<Rightarrow> string" where
  "removed_msg jid = ''mover: job '' @ quoted jid @
     '' is past the commit point but neither the staged nor the '' @
     ''final name exists; the delivered object was removed externally (L2-SEC-011)''"

definition collision_msg :: "string \<Rightarrow> string" where
  "collision_msg staging = ''mover: '' @ quoted staging @
     '' exists and is not the object we moved; refusing to clobber it''"

definition both_missing_msg :: "string \<Rightarrow> string" where
  "both_missing_msg jid = ''mover: neither source nor staged destination exists for job '' @
     quoted jid @ ''; the source was removed externally (L2-SEC-011). Not retrying automatically.''"

section \<open>After the commit point\<close>

text \<open>Phase 6 and the outcome.\<close>

definition finish_record_done ::
  "string \<Rightarrow> int \<Rightarrow> string \<Rightarrow> conn \<Rightarrow> world \<Rightarrow> (MoveOutcome \<times> string) \<times> world" where
  "finish_record_done jid tick error c w =
     (case record_transition jid Done (next_tick tick) [] AfterCommitPoint c w of
        ((NoAction, _), w1) \<Rightarrow> ((MoveCompleted, error), w1)
      | ((_, e), w1) \<Rightarrow>
         (let error1 = (case e of Some m \<Rightarrow> m | None \<Rightarrow> error);
              w2 = snd (mark_needs_attention jid error1 c w1)
          in ((HaltedAfterCommit, error1), w2)))"

text \<open>Phase 5: the two probes, whose own errors are discarded, then publication.\<close>

definition seen :: "FileIdentity res \<Rightarrow> bool" where
  "seen r = (case r of Inl _ \<Rightarrow> False | Inr fi \<Rightarrow> fi_kind fi \<noteq> Missing)"

definition finish_publish ::
  "string \<Rightarrow> MoveRequest \<Rightarrow> DirHandle \<Rightarrow> string \<Rightarrow> int \<Rightarrow> string \<Rightarrow> conn \<Rightarrow> world \<Rightarrow>
   (MoveOutcome \<times> string) \<times> world" where
  "finish_publish jid request dest_dir staging tick error c w =
     (case classify dest_dir staging w of
        (staged, w1) \<Rightarrow>
     (case classify dest_dir (mr_dest_name request) w1 of
        (final_id, w2) \<Rightarrow>
      (if seen staged
       then (case publish dest_dir staging (mr_dest_name request) w2 of
               (Inl e, w3) \<Rightarrow>
                 (let w4 = snd (mark_needs_attention jid e c w3) in ((HaltedAfterCommit, e), w4))
             | (Inr _, w3) \<Rightarrow> finish_record_done jid tick error c w3)
       else if \<not> seen final_id
       then (let error1 = removed_msg jid;
                 w3 = snd (mark_needs_attention jid error1 c w2)
             in ((FailedExternal, error1), w3))
       else finish_record_done jid tick error c w2)))"

definition finish_after_commit ::
  "string \<Rightarrow> MoveRequest \<Rightarrow> DirHandle \<Rightarrow> string \<Rightarrow> int \<Rightarrow> string \<Rightarrow> conn \<Rightarrow> world \<Rightarrow>
   (MoveOutcome \<times> string) \<times> world" where
  "finish_after_commit jid request dest_dir staging tick error c w =
     (case load jid c w of
        (Inl e, w1) \<Rightarrow> ((HaltedAfterCommit, e), w1)
      | (Inr None, w1) \<Rightarrow>
          ((HaltedAfterCommit, (if error = [] then no_record_msg jid else error)), w1)
      | (Inr (Some job), w1) \<Rightarrow>
         (if job_state job = Done then ((MoveCompleted, error), w1)
          else if job_state job = Failed then ((HaltedAfterCommit, already_failed_msg jid), w1)
          else if job_state job = Renaming
          then (case record_transition jid Transferring tick [] AfterCommitPoint c w1 of
                  ((NoAction, _), w2) \<Rightarrow>
                    finish_publish jid request dest_dir staging tick error c w2
                | ((_, e), w2) \<Rightarrow>
                   (let error1 = (case e of Some m \<Rightarrow> m | None \<Rightarrow> error);
                        w3 = snd (mark_needs_attention jid error1 c w2)
                    in ((HaltedAfterCommit, error1), w3)))
          else finish_publish jid request dest_dir staging tick error c w1))"

section \<open>The move\<close>

text \<open>Phase 3, the commit point, with the source and destination directories held open.\<close>

definition execute_commit ::
  "string \<Rightarrow> MoveRequest \<Rightarrow> MoveStrategy \<Rightarrow> DirHandle \<Rightarrow> DirHandle \<Rightarrow> int \<Rightarrow> string \<Rightarrow>
   conn \<Rightarrow> world \<Rightarrow> (MoveOutcome \<times> string) \<times> world" where
  "execute_commit jid request strategy source_dir dest_dir tick error c w =
     (case move_within source_dir (mr_source_name request) dest_dir (staging_name jid) strategy w of
        (Inl e, w1) \<Rightarrow> ((AbortedBeforeCommit, e), w1)
      | (Inr _, w1) \<Rightarrow>
          finish_after_commit jid request dest_dir (staging_name jid) (next_tick tick) error c w1)"

text \<open>Phase 2: the durable transition, skipped when a previous attempt made it.\<close>

definition execute_record ::
  "string \<Rightarrow> MoveRequest \<Rightarrow> MoveStrategy \<Rightarrow> Job \<Rightarrow> DirHandle \<Rightarrow> DirHandle \<Rightarrow> string \<Rightarrow>
   conn \<Rightarrow> world \<Rightarrow> (MoveOutcome \<times> string) \<times> world" where
  "execute_record jid request strategy job source_dir dest_dir error c w =
     (let tick = next_tick (updated_at_ms job) in
      if job_state job = Done then ((MoveCompleted, error), w)
      else if job_state job = Failed then ((Rejected, already_failed_msg jid), w)
      else if job_state job = Queued
      then (case record_transition jid Renaming tick [] BeforeCommitPoint c w of
              ((NoAction, _), w1) \<Rightarrow>
                execute_commit jid request strategy source_dir dest_dir tick error c w1
            | ((_, e), w1) \<Rightarrow>
                ((AbortedBeforeCommit, (case e of Some m \<Rightarrow> m | None \<Rightarrow> error)), w1))
      else execute_commit jid request strategy source_dir dest_dir tick error c w)"

text \<open>\<open>MoveEngine::execute\<close>. The second \<open>classify\<close> leaves its message in \<open>error\<close> when it fails
  and the move goes on.\<close>

definition execute ::
  "string \<Rightarrow> MoveRequest \<Rightarrow> MoveStrategy \<Rightarrow> conn \<Rightarrow> world \<Rightarrow> (MoveOutcome \<times> string) \<times> world" where
  "execute jid request strategy c w =
     (case validate_external_path (mr_source_dir request) of Inl e \<Rightarrow> ((Rejected, e), w) | Inr _ \<Rightarrow>
     (case validate_external_path (mr_dest_dir request) of Inl e \<Rightarrow> ((Rejected, e), w) | Inr _ \<Rightarrow>
     (case load jid c w of
        (Inl e, w1) \<Rightarrow> ((Rejected, e), w1)
      | (Inr None, w1) \<Rightarrow> ((Rejected, no_intent_msg jid), w1)
      | (Inr (Some job), w1) \<Rightarrow>
     (case open_root (mr_source_dir request) w1 of
        ((Inl e, _), w2) \<Rightarrow> ((Rejected, e), w2)
      | ((Inr _, source_dir), w2) \<Rightarrow>
     (case open_root (mr_dest_dir request) w2 of
        ((Inl e, _), w3) \<Rightarrow> ((Rejected, e), w3)
      | ((Inr _, dest_dir), w3) \<Rightarrow>
     (case classify source_dir (mr_source_name request) w3 of
        (Inl e, w4) \<Rightarrow> ((Rejected, e), w4)
      | (Inr source_id, w4) \<Rightarrow>
     (if fi_kind source_id = Missing then ((Rejected, no_source_msg (mr_source_name request)), w4)
      else if fi_kind source_id \<noteq> Regular
      then ((Rejected, not_regular_msg (mr_source_name request) (fi_kind source_id)), w4)
      else case open_regular source_dir (mr_source_name request) source_id w4 of
        (Inl e, w5) \<Rightarrow> ((Rejected, e), w5)
      | (Inr source_fd, w5) \<Rightarrow>
     (case classify source_dir (mr_source_name request) w5 of
        (again, w6) \<Rightarrow>
          execute_record jid request strategy job source_dir dest_dir
            (case again of Inl e \<Rightarrow> e | Inr _ \<Rightarrow> []) c w6))))))))"

section \<open>Recovery\<close>

definition recover ::
  "string \<Rightarrow> MoveRequest \<Rightarrow> MoveStrategy \<Rightarrow> conn \<Rightarrow> world \<Rightarrow> (MoveOutcome \<times> string) \<times> world" where
  "recover jid request strategy c w =
     (case open_root (mr_source_dir request) w of
        ((Inl e, _), w1) \<Rightarrow> ((Rejected, e), w1)
      | ((Inr _, source_dir), w1) \<Rightarrow>
     (case open_root (mr_dest_dir request) w1 of
        ((Inl e, _), w2) \<Rightarrow> ((Rejected, e), w2)
      | ((Inr _, dest_dir), w2) \<Rightarrow>
     (let staging = staging_name jid in
      case classify_move_state source_dir (mr_source_name request) dest_dir staging w2 of
        (Inl e, w3) \<Rightarrow> ((Rejected, e), w3)
      | (Inr state, w3) \<Rightarrow>
     (case load jid c w3 of
        (Inl e, w4) \<Rightarrow> ((Rejected, e), w4)
      | (Inr None, w4) \<Rightarrow> ((Rejected, no_record_msg jid), w4)
      | (Inr (Some job), w4) \<Rightarrow>
     (let tick = next_tick (updated_at_ms job) in
      case state of
        NotStarted \<Rightarrow> execute jid request strategy c w4
      | Interrupted \<Rightarrow>
         (case move_within source_dir (mr_source_name request) dest_dir staging LinkThenUnlink w4 of
            (Inl e, w5) \<Rightarrow>
              (let w6 = snd (mark_needs_attention jid e c w5) in ((HaltedAfterCommit, e), w6))
          | (Inr _, w5) \<Rightarrow> finish_after_commit jid request dest_dir staging tick [] c w5)
      | Completed \<Rightarrow> finish_after_commit jid request dest_dir staging tick [] c w4
      | Collision \<Rightarrow>
         (let error = collision_msg staging;
              w5 = snd (record_transition jid Failed tick error AfterCommitPoint c w4)
          in ((HaltedAfterCommit, error), w5))
      | BothMissing \<Rightarrow>
         (case classify dest_dir (mr_dest_name request) w4 of
            (final_id, w5) \<Rightarrow>
              (if seen final_id
               then finish_after_commit jid request dest_dir staging tick [] c w5
               else
                 let error = both_missing_msg jid;
                     w6 = snd (record_transition jid Failed tick error AfterCommitPoint c w5)
                 in ((FailedExternal, error), w6))))))))"

end
