(* ===== verification/Events.thy ===== *)
theory Events
  imports Prelude
begin

text \<open>
  The operational event stream (\<open>cpp/src/events.cpp\<close>, \<open>cpp/include/filemover/events.hpp\<close>). A
  subscriber is a callback and its user data, both opaque addresses; what a callback does
  is a parameter. The publisher's two critical sections of \<open>publish\<close> and the two halves of
  \<open>unsubscribe\<close> are separate steps, so that every interleaving of threads is a run of the
  step relation \<open>pub_step\<close>.
\<close>

section \<open>Data\<close>

datatype EventSeverity = Debug | Info | Warning | Error

datatype EventType =
  ServiceStarted | ServiceStopping | JobSubmitted | JobStarted | JobCompleted | JobFailed
| JobHaltedAfterCommit | JobFailedExternal | JobRetryScheduled | JobRetrySubmitted
| JobPaused | JobResumed | JobCancelled | SubscriberFailed

record Event =
  ev_type :: EventType
  ev_severity :: EventSeverity
  ev_timestamp_ms :: int
  ev_job_id :: string
  ev_file_id :: string
  ev_detail :: string

fun EventSeverity_to_string :: "EventSeverity \<Rightarrow> string" where
  "EventSeverity_to_string Debug = ''DEBUG''"
| "EventSeverity_to_string Info = ''INFO''"
| "EventSeverity_to_string Warning = ''WARNING''"
| "EventSeverity_to_string Error = ''ERROR''"

text \<open>The value of the enumerator.\<close>

fun severity_value :: "EventSeverity \<Rightarrow> int" where
  "severity_value Debug = 0"
| "severity_value Info = 1"
| "severity_value Warning = 2"
| "severity_value Error = 3"

definition severity_at_least :: "EventSeverity \<Rightarrow> EventSeverity \<Rightarrow> bool" where
  "severity_at_least severity minimum \<longleftrightarrow> severity_value severity \<ge> severity_value minimum"

text \<open>The order of the severities.\<close>

instantiation EventSeverity :: linorder
begin

definition less_eq_EventSeverity :: "EventSeverity \<Rightarrow> EventSeverity \<Rightarrow> bool" where
  "less_eq_EventSeverity a b \<longleftrightarrow> severity_value a \<le> severity_value b"

definition less_EventSeverity :: "EventSeverity \<Rightarrow> EventSeverity \<Rightarrow> bool" where
  "less_EventSeverity a b \<longleftrightarrow> severity_value a < severity_value b"

instance
proof
  fix a b :: EventSeverity
  show "a \<le> b \<Longrightarrow> b \<le> a \<Longrightarrow> a = b" by (cases a; cases b) (simp_all add: less_eq_EventSeverity_def)
qed (auto simp: less_eq_EventSeverity_def less_EventSeverity_def)

end

lemma severity_at_least_iff: "severity_at_least s m \<longleftrightarrow> m \<le> s"
  by (simp add: severity_at_least_def less_eq_EventSeverity_def)

fun EventType_to_string :: "EventType \<Rightarrow> string" where
  "EventType_to_string ServiceStarted = ''service.started''"
| "EventType_to_string ServiceStopping = ''service.stopping''"
| "EventType_to_string JobSubmitted = ''job.submitted''"
| "EventType_to_string JobStarted = ''job.started''"
| "EventType_to_string JobCompleted = ''job.completed''"
| "EventType_to_string JobFailed = ''job.failed''"
| "EventType_to_string JobHaltedAfterCommit = ''job.halted_after_commit''"
| "EventType_to_string JobFailedExternal = ''job.failed_external''"
| "EventType_to_string JobRetryScheduled = ''job.retry_scheduled''"
| "EventType_to_string JobRetrySubmitted = ''job.retry_submitted''"
| "EventType_to_string JobPaused = ''job.paused''"
| "EventType_to_string JobResumed = ''job.resumed''"
| "EventType_to_string JobCancelled = ''job.cancelled''"
| "EventType_to_string SubscriberFailed = ''subscriber.failed''"

fun is_transfer_event :: "EventType \<Rightarrow> bool" where
  "is_transfer_event ServiceStarted = False"
| "is_transfer_event ServiceStopping = False"
| "is_transfer_event SubscriberFailed = False"
| "is_transfer_event JobSubmitted = True"
| "is_transfer_event JobStarted = True"
| "is_transfer_event JobCompleted = True"
| "is_transfer_event JobFailed = True"
| "is_transfer_event JobHaltedAfterCommit = True"
| "is_transfer_event JobFailedExternal = True"
| "is_transfer_event JobRetryScheduled = True"
| "is_transfer_event JobRetrySubmitted = True"
| "is_transfer_event JobPaused = True"
| "is_transfer_event JobResumed = True"
| "is_transfer_event JobCancelled = True"

definition new_Event :: "EventType \<Rightarrow> EventSeverity \<Rightarrow> int \<Rightarrow> string \<Rightarrow> string \<Rightarrow> string \<Rightarrow> Event" where
  "new_Event t s ts i f d =
     \<lparr>ev_type = t, ev_severity = s, ev_timestamp_ms = ts, ev_job_id = i, ev_file_id = f, ev_detail = d\<rparr>"

text \<open>\<open>now_epoch_ms\<close> from what \<open>clock_gettime\<close> filled in; \<open>None\<close> is its failure.\<close>

definition now_epoch_ms :: "(int \<times> int) option \<Rightarrow> int" where
  "now_epoch_ms ts = (case ts of None \<Rightarrow> 0 | Some (sec, nsec) \<Rightarrow> sec * 1000 + nsec div 1000000)"

section \<open>The publisher\<close>

type_synonym subscriber = "nat \<times> nat"

record publisher =
  p_subscribers :: "subscriber list"
  p_in_flight :: nat

definition new_publisher :: publisher where
  "new_publisher = \<lparr>p_subscribers = [], p_in_flight = 0\<rparr>"

text \<open>A null callback is address 0.\<close>

definition subscribe :: "subscriber \<Rightarrow> publisher \<Rightarrow> unit res \<times> publisher" where
  "subscribe s p =
     (if fst s = 0 then (Inl ''events: subscriber callback is null'', p)
      else if s \<in> set (p_subscribers p) then (Inl ''events: subscriber is already registered'', p)
      else (Inr (), p\<lparr>p_subscribers := p_subscribers p @ [s]\<rparr>))"

text \<open>The first half of \<open>unsubscribe\<close>; the second half waits until \<open>may_return\<close>.\<close>

definition unsubscribe_remove :: "subscriber \<Rightarrow> publisher \<Rightarrow> bool \<times> publisher" where
  "unsubscribe_remove s p = (s \<in> set (p_subscribers p), p\<lparr>p_subscribers := remove1 s (p_subscribers p)\<rparr>)"

definition unsubscribe_may_return :: "nat \<Rightarrow> publisher \<Rightarrow> bool" where
  "unsubscribe_may_return publish_depth p \<longleftrightarrow> publish_depth \<noteq> 0 \<or> p_in_flight p = 0"

text \<open>What a callback can do: return, throw a \<open>std::exception\<close> or throw something else.\<close>

datatype cb_result = Returned | ThrewException string | ThrewOther

definition publish_snapshot :: "publisher \<Rightarrow> subscriber list \<times> publisher" where
  "publish_snapshot p = (p_subscribers p, p\<lparr>p_in_flight := Suc (p_in_flight p)\<rparr>)"

definition stderr_line :: "Event \<Rightarrow> cb_result \<Rightarrow> string list" where
  "stderr_line e r = (case r of
     Returned \<Rightarrow> []
   | ThrewException what \<Rightarrow>
       [''['' @ EventSeverity_to_string Error @ ''] subscriber threw on '' @ EventType_to_string (ev_type e) @
        '': '' @ c_str what @ [LF]]
   | ThrewOther \<Rightarrow>
       [''['' @ EventSeverity_to_string Error @ ''] subscriber threw on '' @ EventType_to_string (ev_type e) @ [LF]])"

text \<open>The delivery loop: every subscriber of the snapshot is called, whatever the others do.
  Returns the calls made, in order, and what went to stderr.\<close>

fun publish_deliver ::
  "(subscriber \<Rightarrow> Event \<Rightarrow> cb_result) \<Rightarrow> Event \<Rightarrow> subscriber list \<Rightarrow> (subscriber \<times> Event) list \<times> string list" where
  "publish_deliver cb e [] = ([], [])"
| "publish_deliver cb e (s # ss) =
     (case publish_deliver cb e ss of
        (calls, out) \<Rightarrow> ((s, e) # calls, stderr_line e (cb s e) @ out))"

definition publish_finish :: "publisher \<Rightarrow> publisher" where
  "publish_finish p = p\<lparr>p_in_flight := p_in_flight p - 1\<rparr>"

definition publish_event ::
  "(subscriber \<Rightarrow> Event \<Rightarrow> cb_result) \<Rightarrow> Event \<Rightarrow> publisher \<Rightarrow>
   ((subscriber \<times> Event) list \<times> string list) \<times> publisher" where
  "publish_event cb e p = (case publish_snapshot p of
     (snapshot, p1) \<Rightarrow> (publish_deliver cb e snapshot, publish_finish p1))"

definition subscriber_count :: "publisher \<Rightarrow> nat" where
  "subscriber_count p = length (p_subscribers p)"

section \<open>Interleavings\<close>

text \<open>A system of threads around one publisher: the snapshots of the publishes in flight, the
  subscribers of the \<open>unsubscribe\<close> calls that wait, the subscribers whose \<open>unsubscribe\<close> waited and
  returned (\<open>ps_gone\<close>) and those whose \<open>unsubscribe\<close> was called by a callback and returned
  without waiting (\<open>ps_dropped\<close>); the last two only as long as the subscriber is not registered again.
  A callback runs inside a publish, so the call from a callback needs one in flight, and its
  depth is not zero. Another thread may register the subscriber again while the call waits.\<close>

record pub_system =
  ps_pub :: publisher
  ps_flights :: "subscriber list list"
  ps_waiting :: "subscriber list"
  ps_gone :: "subscriber set"
  ps_dropped :: "subscriber set"

definition no_threads :: pub_system where
  "no_threads = \<lparr>ps_pub = new_publisher, ps_flights = [], ps_waiting = [], ps_gone = {}, ps_dropped = {}\<rparr>"

inductive pub_step :: "pub_system \<Rightarrow> pub_system \<Rightarrow> bool" where
  subscribes: "subscribe s (ps_pub x) = (Inr u, p) \<Longrightarrow>
     pub_step x (x\<lparr>ps_pub := p, ps_gone := ps_gone x - {s}, ps_dropped := ps_dropped x - {s}\<rparr>)"
| publishes: "publish_snapshot (ps_pub x) = (snap, p) \<Longrightarrow>
     pub_step x (x\<lparr>ps_pub := p, ps_flights := snap # ps_flights x\<rparr>)"
| finishes: "ps_flights x = fl @ snap # fr \<Longrightarrow>
     pub_step x (x\<lparr>ps_pub := publish_finish (ps_pub x), ps_flights := fl @ fr\<rparr>)"
| removes: "unsubscribe_remove s (ps_pub x) = (b, p) \<Longrightarrow>
     pub_step x (x\<lparr>ps_pub := p, ps_waiting := s # ps_waiting x\<rparr>)"
| returns: "ps_waiting x = wl @ s # wr \<Longrightarrow> unsubscribe_may_return 0 (ps_pub x) \<Longrightarrow>
     pub_step x (x\<lparr>ps_waiting := wl @ wr, ps_gone := ps_gone x \<union> ({s} - set (p_subscribers (ps_pub x)))\<rparr>)"
| removes_in_callback: "0 < depth \<Longrightarrow> depth \<le> length (ps_flights x) \<Longrightarrow>
     unsubscribe_remove s (ps_pub x) = (b, p) \<Longrightarrow> unsubscribe_may_return depth p \<Longrightarrow>
     pub_step x (x\<lparr>ps_pub := p, ps_dropped := insert s (ps_dropped x)\<rparr>)"

definition pub_inv :: "pub_system \<Rightarrow> bool" where
  "pub_inv x \<longleftrightarrow> p_in_flight (ps_pub x) = length (ps_flights x) \<and>
     distinct (p_subscribers (ps_pub x)) \<and>
     (\<forall>s \<in> ps_dropped x. s \<notin> set (p_subscribers (ps_pub x))) \<and>
     (\<forall>s \<in> ps_gone x. s \<notin> set (p_subscribers (ps_pub x)) \<and> (\<forall>snap \<in> set (ps_flights x). s \<notin> set snap))"

lemma pub_inv_step:
  assumes "pub_inv x" and "pub_step x y"
  shows "pub_inv y"
  using assms(2,1)
  by cases (auto simp: pub_inv_def subscribe_def publish_snapshot_def publish_finish_def
      unsubscribe_remove_def unsubscribe_may_return_def split: if_splits dest: notin_set_remove1)

interpretation pub_sys: step_system pub_step pub_inv
  by unfold_locales (rule pub_inv_step)

lemma deliver_calls: "fst (publish_deliver cb e ss) = map (\<lambda>s. (s, e)) ss"
  by (induction ss) (auto split: prod.splits)

section \<open>Properties\<close>

text \<open>Delivery is independent of the subscribers (L2-EVT-002, L3-EVT-001, L3-EVT-003):
  publishing calls every registered subscriber exactly once with the event, in
  registration order, whatever any of them throws, and leaves the registrations and the
  in-flight count as they were.\<close>

theorem publish_reaches_all:
  "fst (fst (publish_event cb e p)) = map (\<lambda>s. (s, e)) (p_subscribers p) \<and> snd (publish_event cb e p) = p"
  by (simp add: publish_event_def publish_snapshot_def publish_finish_def deliver_calls)

text \<open>C36. Unsubscribing (L3-EVT-005), in every interleaving of subscribing, publishing and
  unsubscribing threads: once a call of \<open>unsubscribe\<close> that is not made by a callback has returned, and as
  long as the subscriber has not registered again, it is neither registered nor in the snapshot of any
  publish still running, so its user data may be freed. A call made by a callback returns without
  waiting; after it the subscriber is not registered and no publish that starts later will call it,
  but an older snapshot may still hold it (\<open>unsubscribe_in_callback_keeps_snapshot\<close>). The
  in-flight count is exact throughout.\<close>

theorem unsubscribe_safe:
  assumes "pub_step\<^sup>*\<^sup>* no_threads x"
  shows "p_in_flight (ps_pub x) = length (ps_flights x) \<and> distinct (p_subscribers (ps_pub x)) \<and>
    (\<forall>s \<in> ps_gone x. s \<notin> set (p_subscribers (ps_pub x)) \<and> (\<forall>snap \<in> set (ps_flights x). s \<notin> set snap)) \<and>
    (\<forall>s \<in> ps_dropped x. s \<notin> set (p_subscribers (ps_pub x)) \<and> s \<notin> set (fst (publish_snapshot (ps_pub x))))"
proof -
  have "pub_inv no_threads" by (simp add: no_threads_def pub_inv_def new_publisher_def)
  from pub_sys.inv_reach [OF assms this] show ?thesis by (simp add: pub_inv_def publish_snapshot_def)
qed

lemmas pub_exec = no_threads_def new_publisher_def subscribe_def publish_snapshot_def publish_finish_def
  unsubscribe_remove_def unsubscribe_may_return_def

text \<open>Two subscribers, a publish that calls both; one is unsubscribed while it runs, the call returns when
  it has finished, and the next publish is running.\<close>

theorem unsubscribe_safe_witness:
  "pub_step\<^sup>*\<^sup>* no_threads
     \<lparr>ps_pub = \<lparr>p_subscribers = [(8, 2)], p_in_flight = 1\<rparr>, ps_flights = [[(8, 2)]], ps_waiting = [],
      ps_gone = {(7, 1)}, ps_dropped = {}\<rparr> \<and>
   (7 :: nat, 1 :: nat) \<notin> set [(8, 2)]"
proof
  let ?p = "\<lambda>ss n. \<lparr>p_subscribers = ss, p_in_flight = n\<rparr>"
  let ?x = "\<lambda>p fl w g. \<lparr>ps_pub = p, ps_flights = fl, ps_waiting = w, ps_gone = g, ps_dropped = {}\<rparr>"
  have a: "pub_step no_threads (?x (?p [(7, 1)] 0) [] [] {})"
    using pub_step.subscribes [of "(7, 1)" no_threads] by (simp add: pub_exec)
  have b: "pub_step (?x (?p [(7, 1)] 0) [] [] {}) (?x (?p [(7, 1), (8, 2)] 0) [] [] {})"
    using pub_step.subscribes [of "(8, 2)" "?x (?p [(7, 1)] 0) [] [] {}"] by (simp add: pub_exec)
  have c: "pub_step (?x (?p [(7, 1), (8, 2)] 0) [] [] {}) (?x (?p [(7, 1), (8, 2)] 1) [[(7, 1), (8, 2)]] [] {})"
    using pub_step.publishes [of "?x (?p [(7, 1), (8, 2)] 0) [] [] {}"] by (simp add: pub_exec)
  have d: "pub_step (?x (?p [(7, 1), (8, 2)] 1) [[(7, 1), (8, 2)]] [] {})
      (?x (?p [(8, 2)] 1) [[(7, 1), (8, 2)]] [(7, 1)] {})"
    using pub_step.removes [of "(7, 1)" "?x (?p [(7, 1), (8, 2)] 1) [[(7, 1), (8, 2)]] [] {}"] by (simp add: pub_exec)
  have e: "pub_step (?x (?p [(8, 2)] 1) [[(7, 1), (8, 2)]] [(7, 1)] {}) (?x (?p [(8, 2)] 0) [] [(7, 1)] {})"
    using pub_step.finishes [of "?x (?p [(8, 2)] 1) [[(7, 1), (8, 2)]] [(7, 1)] {}" "[]" "[(7, 1), (8, 2)]" "[]"]
    by (simp add: pub_exec)
  have f: "pub_step (?x (?p [(8, 2)] 0) [] [(7, 1)] {}) (?x (?p [(8, 2)] 0) [] [] {(7, 1)})"
    using pub_step.returns [of "?x (?p [(8, 2)] 0) [] [(7, 1)] {}" "[]" "(7, 1)" "[]"] by (simp add: pub_exec)
  have g: "pub_step (?x (?p [(8, 2)] 0) [] [] {(7, 1)}) (?x (?p [(8, 2)] 1) [[(8, 2)]] [] {(7, 1)})"
    using pub_step.publishes [of "?x (?p [(8, 2)] 0) [] [] {(7, 1)}"] by (simp add: pub_exec)
  show run: "pub_step\<^sup>*\<^sup>* no_threads (?x (?p [(8, 2)] 1) [[(8, 2)]] [] {(7, 1)})"
    by (rule converse_rtranclp_into_rtranclp [OF a converse_rtranclp_into_rtranclp [OF b
      converse_rtranclp_into_rtranclp [OF c converse_rtranclp_into_rtranclp [OF d
      converse_rtranclp_into_rtranclp [OF e converse_rtranclp_into_rtranclp [OF f r_into_rtranclp [of pub_step, OF g]]]]]]])
  from unsubscribe_safe [OF run] show "(7 :: nat, 1 :: nat) \<notin> set [(8, 2)]" by simp
qed

text \<open>The call from a callback does not wait: a publish that took its snapshot before still
  holds the subscriber after \<open>unsubscribe\<close> has returned, so its user data may not be freed yet.\<close>

theorem unsubscribe_in_callback_keeps_snapshot:
  "\<exists>x snap. pub_step\<^sup>*\<^sup>* no_threads x \<and> (7, 1) \<in> ps_dropped x \<and> snap \<in> set (ps_flights x) \<and> (7, 1) \<in> set snap"
proof -
  let ?p = "\<lambda>ss n. \<lparr>p_subscribers = ss, p_in_flight = n\<rparr>"
  let ?x = "\<lambda>p fl g. \<lparr>ps_pub = p, ps_flights = fl, ps_waiting = [], ps_gone = {}, ps_dropped = g\<rparr>"
  have a: "pub_step no_threads (?x (?p [(7, 1)] 0) [] {})"
    using pub_step.subscribes [of "(7, 1)" no_threads] by (simp add: pub_exec)
  have b: "pub_step (?x (?p [(7, 1)] 0) [] {}) (?x (?p [(7, 1)] 1) [[(7, 1)]] {})"
    using pub_step.publishes [of "?x (?p [(7, 1)] 0) [] {}"] by (simp add: pub_exec)
  have c: "pub_step (?x (?p [(7, 1)] 1) [[(7, 1)]] {}) (?x (?p [] 1) [[(7, 1)]] {(7, 1)})"
    using pub_step.removes_in_callback [of 1 "?x (?p [(7, 1)] 1) [[(7, 1)]] {}" "(7, 1)"] by (simp add: pub_exec)
  have "pub_step\<^sup>*\<^sup>* no_threads (?x (?p [] 1) [[(7, 1)]] {(7, 1)})"
    by (rule converse_rtranclp_into_rtranclp [OF a converse_rtranclp_into_rtranclp [OF b r_into_rtranclp [of pub_step, OF c]]])
  then show ?thesis by fastforce
qed

end
