(* ===== verification/Event_Log.thy ===== *)
theory Event_Log
  imports Events "HOL-Library.Signed_Division"
begin

text \<open>
  The log sink (\<open>cpp/src/event_log.cpp\<close>): one line per event. \<open>gmtime_r\<close> is the proleptic
  Gregorian calendar in UTC, failing when the year does not fit an \<open>int\<close>. Writing to the
  stream is the pair of the stream chosen and the text written.
\<close>

section \<open>Formatting\<close>

definition ascii_upper :: "char \<Rightarrow> char" where
  "ascii_upper c = (if 97 \<le> byte c \<and> byte c \<le> 122 then char_of (byte c - 32) else c)"

definition upper :: "string \<Rightarrow> string" where
  "upper text = map ascii_upper text"

definition hex2 :: "nat \<Rightarrow> string" where
  "hex2 b = (let digit = (\<lambda>d. if d < 10 then digit_char d else char_of (87 + d)) in
     [digit (b div 16), digit (b mod 16)])"

fun sanitize :: "string \<Rightarrow> string" where
  "sanitize [] = []"
| "sanitize (c # cs) =
     (if byte c < 0x20 \<or> byte c = 0x7F then BACKSLASH # CHR ''x'' # hex2 (byte c) @ sanitize cs
      else c # sanitize cs)"

text \<open>\<open>\<percent>0wd\<close>.\<close>

definition zero_pad :: "nat \<Rightarrow> int \<Rightarrow> string" where
  "zero_pad width i =
     (let digits = nat_dec (nat \<bar>i\<bar>); sign = (if i < 0 then ''-'' else [])
      in sign @ replicate (width - length sign - length digits) (CHR ''0'') @ digits)"

record tm =
  tm_year :: int
  tm_mon :: int
  tm_mday :: int
  tm_hour :: int
  tm_min :: int
  tm_sec :: int

definition gmtime :: "int \<Rightarrow> tm option" where
  "gmtime t =
     (let days = t div 86400; secs = t mod 86400;
          z = days + 719468; era = z div 146097; doe = z mod 146097;
          yoe = (doe - doe div 1460 + doe div 36524 - doe div 146096) div 365;
          doy = doe - (365 * yoe + yoe div 4 - yoe div 100);
          mp = (5 * doy + 2) div 153;
          month = (if mp < 10 then mp + 3 else mp - 9);
          year = yoe + era * 400 + (if month \<le> 2 then 1 else 0)
      in if - (2 ^ 31) \<le> year - 1900 \<and> year - 1900 < 2 ^ 31
         then Some \<lparr>tm_year = year - 1900, tm_mon = month - 1, tm_mday = doy - (153 * mp + 2) div 5 + 1,
                    tm_hour = secs div 3600, tm_min = secs mod 3600 div 60, tm_sec = secs mod 60\<rparr>
         else None)"

text \<open>The split of the timestamp: truncating division, then the correction.\<close>

definition split_ms :: "int \<Rightarrow> int \<times> int" where
  "split_ms ms =
     (let seconds = ms sdiv 1000; remainder = ms smod 1000
      in if remainder < 0 then (seconds - 1, remainder + 1000) else (seconds, remainder))"

definition event_stamp :: "int \<Rightarrow> string" where
  "event_stamp ms = (case split_ms ms of
     (seconds, remainder) \<Rightarrow>
       (case gmtime seconds of
          Some p \<Rightarrow>
            zero_pad 4 (tm_year p + 1900) @ ''-'' @ zero_pad 2 (tm_mon p + 1) @ ''-'' @
            zero_pad 2 (tm_mday p) @ ''T'' @ zero_pad 2 (tm_hour p) @ '':'' @ zero_pad 2 (tm_min p) @ '':'' @
            zero_pad 2 (tm_sec p) @ ''.'' @ zero_pad 3 remainder @ ''Z''
        | None \<Rightarrow> ''epoch_ms='' @ int_dec ms))"

definition format_event :: "Event \<Rightarrow> string" where
  "format_event e =
     event_stamp (ev_timestamp_ms e) @ '' '' @ EventSeverity_to_string (ev_severity e) @ '' '' @
     EventType_to_string (ev_type e) @
     (if ev_job_id e \<noteq> [] then '' job='' @ sanitize (ev_job_id e) else []) @
     (if ev_file_id e \<noteq> [] then '' file='' @ sanitize (ev_file_id e) else []) @
     (if ev_detail e \<noteq> [] then '' '' @ sanitize (ev_detail e) else [])"

section \<open>The sink\<close>

record EventLogOptions =
  elo_minimum :: EventSeverity
  elo_enabled :: bool

datatype stream = Stdout | Stderr

text \<open>\<open>None\<close>: nothing is written. A null options pointer is \<open>None\<close> as well.\<close>

definition log_event :: "EventLogOptions option \<Rightarrow> Event \<Rightarrow> (stream \<times> string) option" where
  "log_event options e = (case options of
     None \<Rightarrow> None
   | Some opt \<Rightarrow>
      (if \<not> elo_enabled opt then None
       else if \<not> severity_at_least (ev_severity e) (elo_minimum opt) then None
       else Some (if severity_at_least (ev_severity e) Warning then Stderr else Stdout,
                  c_str (format_event e) @ [LF])))"

text \<open>\<open>parse_severity\<close>: the new \<open>minimum\<close> and \<open>enabled\<close>; \<open>None\<close> is the failure.\<close>

definition parse_severity :: "string \<Rightarrow> EventSeverity \<Rightarrow> (EventSeverity \<times> bool) option" where
  "parse_severity text minimum =
     (let value = upper text in
      if value = ''OFF'' then Some (minimum, False)
      else if value = ''DEBUG'' then Some (Debug, True)
      else if value = ''INFO'' then Some (Info, True)
      else if value = ''WARNING'' then Some (Warning, True)
      else if value = ''ERROR'' then Some (Error, True)
      else None)"

section \<open>No control characters\<close>

definition printable :: "string \<Rightarrow> bool" where
  "printable s \<longleftrightarrow> (\<forall>c \<in> set s. \<not> (byte c < 0x20 \<or> byte c = 0x7F))"

lemma printable_append [simp]: "printable (s @ t) \<longleftrightarrow> printable s \<and> printable t"
  and printable_Cons [simp]: "printable (c # s) \<longleftrightarrow> \<not> (byte c < 0x20 \<or> byte c = 0x7F) \<and> printable s"
  and printable_Nil [simp]: "printable []"
  by (auto simp: printable_def)

lemma printable_nat_dec [simp]: "printable (nat_dec n)"
  by (auto simp: printable_def is_digit_def dest: nat_dec_mem)

lemma printable_hex2 [simp]: "b < 256 \<Longrightarrow> printable (hex2 b)"
  by (auto simp: hex2_def digit_char_def Let_def)

lemma printable_sanitize [simp]: "printable (sanitize s)"
  by (induction s rule: sanitize.induct) auto

lemma printable_zero_pad [simp]: "printable (zero_pad n i)"
  by (auto simp: zero_pad_def Let_def) (simp_all add: printable_def)

lemma printable_stamp [simp]: "printable (event_stamp ms)"
  by (auto simp: event_stamp_def int_dec_def split: prod.split option.split)

lemma printable_tokens [simp]: "printable (EventSeverity_to_string s)" "printable (EventType_to_string t)"
  by (cases s; simp) (cases t; simp)

lemma printable_format: "printable (format_event e)"
  by (simp add: format_event_def)

lemma printable_nul_free: "printable s \<Longrightarrow> nul_free s"
  by (auto simp: printable_def nul_free_def)

lemma split_ms_floor: "split_ms ms = (ms div 1000, ms mod 1000)"
proof (cases "0 \<le> ms")
  case True
  then have "ms = 0 \<or> sgn ms = 1" by (auto simp: sgn_if)
  then have "ms sdiv 1000 = ms div 1000" "ms smod 1000 = ms mod 1000"
    using True by (auto simp: signed_divide_int_def signed_modulo_int_def)
  then show ?thesis by (simp add: split_ms_def Let_def)
next
  case False
  define n where "n = - ms"
  have "sgn ms = - 1" "\<bar>ms\<bar> = n" using False by (simp_all add: n_def)
  then have q: "ms sdiv 1000 = - (n div 1000)" "ms smod 1000 = - (n mod 1000)"
    by (simp_all add: signed_divide_int_def signed_modulo_int_def)
  have m: "ms = - n" by (simp add: n_def)
  show ?thesis
  proof (cases "n mod 1000 = 0")
    case True
    then show ?thesis using q by (simp add: split_ms_def m zdiv_zminus1_eq_if zmod_zminus1_eq_if)
  next
    case nz: False
    then have "n mod 1000 > 0" using pos_mod_sign [of 1000 n] by linarith
    then show ?thesis using q nz by (simp add: split_ms_def Let_def m zdiv_zminus1_eq_if zmod_zminus1_eq_if)
  qed
qed

section \<open>Properties\<close>

text \<open>C38. No log forging (L2-CLI-006): for any event, whatever bytes its job id, file name and
  detail contain, what is written is exactly one line: no control character, in
  particular no line break, before the final newline; WARNING and ERROR go to stderr, and
  nothing below the configured minimum is written.\<close>

theorem log_event_one_line:
  "log_event (Some opt) e =
     (if elo_enabled opt \<and> elo_minimum opt \<le> ev_severity e
      then Some (if ev_severity e = Warning \<or> ev_severity e = Error then Stderr else Stdout, format_event e @ [LF])
      else None) \<and>
   set (format_event e) \<inter> {c. byte c < 0x20 \<or> byte c = 0x7F} = {}"
proof
  have "Warning \<le> ev_severity e \<longleftrightarrow> ev_severity e = Warning \<or> ev_severity e = Error"
    by (cases "ev_severity e") (simp_all add: less_eq_EventSeverity_def)
  with printable_nul_free [OF printable_format [of e]]
  show "log_event (Some opt) e =
     (if elo_enabled opt \<and> elo_minimum opt \<le> ev_severity e
      then Some (if ev_severity e = Warning \<or> ev_severity e = Error then Stderr else Stdout, format_event e @ [LF])
      else None)"
    by (simp add: log_event_def severity_at_least_iff)
  show "set (format_event e) \<inter> {c. byte c < 0x20 \<or> byte c = 0x7F} = {}"
    using printable_format [of e] by (auto simp: printable_def)
qed

text \<open>Timestamps before 1970 are split by floor division: seconds and milliseconds
  recombine to the value, with the milliseconds in 0..999.\<close>

theorem split_ms_exact:
  "fst (split_ms ms) * 1000 + snd (split_ms ms) = ms \<and> snd (split_ms ms) \<in> {0..999}"
  using pos_mod_bound [of 1000 ms] by (simp add: split_ms_floor)

end
