(* ===== verification/Config.thy ===== *)
theory Config
  imports Event_Log
begin

text \<open>
  The INI configuration loader (\<open>cpp/src/config.cpp\<close>, \<open>cpp/include/filemover/config.hpp\<close>). The
  loop over the lines is a fold of \<open>config_line\<close> over a loader state (the configuration so
  far, the issues, the sections and keys seen, the current section, the line number).
\<close>

section \<open>Data\<close>

record Config =
  http_bind :: string
  http_port :: nat
  http_max_body_bytes :: nat
  jobs_workers :: nat
  storage_database_path :: string
  retry_max_attempts :: nat
  retry_backoff_initial_ms :: nat
  retry_backoff_max_ms :: nat
  logging_level :: EventSeverity
  logging_enabled :: bool

definition new_Config :: Config where
  "new_Config = \<lparr>http_bind = ''127.0.0.1'', http_port = 8080, http_max_body_bytes = 65536,
     jobs_workers = 4, storage_database_path = [], retry_max_attempts = 3,
     retry_backoff_initial_ms = 1000, retry_backoff_max_ms = 60000,
     logging_level = Info, logging_enabled = True\<rparr>"

section \<open>Helpers\<close>

definition is_ws :: "char \<Rightarrow> bool" where
  "is_ws c \<longleftrightarrow> c = CHR '' '' \<or> c = TAB \<or> c = CR"

definition trim :: "string \<Rightarrow> string" where
  "trim s = rev (dropWhile is_ws (rev (dropWhile is_ws s)))"

definition at_line :: "string \<Rightarrow> nat \<Rightarrow> string \<Rightarrow> string" where
  "at_line origin line message = origin @ '':'' @ nat_dec line @ '': '' @ message"

definition ULONG_MAX :: nat where
  "ULONG_MAX = 2 ^ 64 - 1"

text \<open>\<open>parse_uint\<close>: \<open>strtoul\<close> reads the digits of the C string and must stop at its end; a value
  beyond \<open>ULONG_MAX\<close> sets \<open>errno\<close>.\<close>

definition parse_uint :: "string \<Rightarrow> nat \<Rightarrow> nat \<Rightarrow> nat option" where
  "parse_uint token min_value max_value =
     (if token = [] \<or> \<not> is_digit (token ! 0) then None
      else
        let s = c_str token; v = dec_val s in
        if \<not> list_all is_digit s \<or> v > ULONG_MAX then None
        else if v < min_value \<or> v > max_value then None
        else Some v)"

fun joined :: "string list \<Rightarrow> string" where
  "joined [] = []"
| "joined [x] = x"
| "joined (x # y # ys) = x @ LF # joined (y # ys)"

definition contains_nul :: "string \<Rightarrow> bool" where
  "contains_nul s \<longleftrightarrow> find_char NUL s \<noteq> None"

text \<open>\<open>std::getline\<close> until the stream ends.\<close>

fun getlines :: "string \<Rightarrow> string \<Rightarrow> string list" where
  "getlines acc [] = (if acc = [] then [] else [rev acc])"
| "getlines acc (c # cs) = (if c = LF then rev acc # getlines [] cs else getlines (c # acc) cs)"

definition is_network_filesystem_magic :: "64 word \<Rightarrow> bool" where
  "is_network_filesystem_magic magic \<longleftrightarrow>
     magic \<in> {0x6969, 0xFF534D42, 0x517B, 0xFE534D42, 0x73757245, 0x5346414F, 0x6B414653,
              0x7461636F, 0x01161970, 0x0BD00BD0, 0x00C36400}"

text \<open>\<open>storage_path_is_local\<close> from the answer of \<open>statfs\<close>: the error text or \<open>f_type\<close>.\<close>

definition storage_path_is_local :: "string \<Rightarrow> string + 64 word \<Rightarrow> unit res" where
  "storage_path_is_local path answer = (case answer of
     Inl msg \<Rightarrow> Inl (path @ '': cannot determine filesystem type: '' @ msg)
   | Inr f_type \<Rightarrow>
      (if is_network_filesystem_magic f_type
       then Inl (path @ '': the state database must live on a local filesystem; SQLite'' @ QUOTE @
                 ''s locking is unreliable over network filesystems (L2-JOB-008, ADR-0010)'')
       else Inr ()))"

section \<open>The loader\<close>

record loader =
  ld_cfg :: Config
  ld_issues :: "string list"
  ld_sections :: "string set"
  ld_keys :: "string set"
  ld_section :: string
  ld_line_no :: nat

definition new_loader :: loader where
  "new_loader = \<lparr>ld_cfg = new_Config, ld_issues = [], ld_sections = {}, ld_keys = {},
     ld_section = [], ld_line_no = 0\<rparr>"

definition add_issue :: "string \<Rightarrow> loader \<Rightarrow> loader" where
  "add_issue message l = l\<lparr>ld_issues := ld_issues l @ [message]\<rparr>"

definition dq :: "string \<Rightarrow> string" where
  "dq s = DQ # s @ [DQ]"

text \<open>A numeric parameter: range check, then the field.\<close>

definition set_uint ::
  "string \<Rightarrow> nat \<Rightarrow> nat \<Rightarrow> string \<Rightarrow> (nat \<Rightarrow> Config \<Rightarrow> Config) \<Rightarrow> string \<Rightarrow> loader \<Rightarrow> loader" where
  "set_uint value lo hi what upd origin l = (case parse_uint value lo hi of
     None \<Rightarrow> add_issue (at_line origin (ld_line_no l) what) l
   | Some n \<Rightarrow> l\<lparr>ld_cfg := upd n (ld_cfg l)\<rparr>)"

text \<open>The dispatch on section and key.\<close>

definition config_entry :: "string \<Rightarrow> string \<Rightarrow> string \<Rightarrow> string \<Rightarrow> loader \<Rightarrow> loader" where
  "config_entry origin section key value l =
     (if section = ''http'' \<and> key = ''bind'' then
        (if value = [] \<or> find_char (CHR '' '') value \<noteq> None \<or> find_char TAB value \<noteq> None
         then add_issue (at_line origin (ld_line_no l) ''http.bind must be non-empty without whitespace'') l
         else l\<lparr>ld_cfg := (ld_cfg l)\<lparr>http_bind := value\<rparr>\<rparr>)
      else if section = ''http'' \<and> key = ''port'' then
        set_uint value 1 65535 ''http.port must be an integer in 1..65535''
          (\<lambda>n c. c\<lparr>http_port := n\<rparr>) origin l
      else if section = ''http'' \<and> key = ''max_body_bytes'' then
        set_uint value 1 16777216 ''http.max_body_bytes must be an integer in 1..16777216''
          (\<lambda>n c. c\<lparr>http_max_body_bytes := n\<rparr>) origin l
      else if section = ''jobs'' \<and> key = ''workers'' then
        set_uint value 1 64 ''jobs.workers must be an integer in 1..64''
          (\<lambda>n c. c\<lparr>jobs_workers := n\<rparr>) origin l
      else if section = ''storage'' \<and> key = ''database_path'' then
        (if value = []
         then add_issue (at_line origin (ld_line_no l) ''storage.database_path must be non-empty'') l
         else if contains_nul value
         then add_issue (at_line origin (ld_line_no l) ''storage.database_path must not contain an embedded NUL'') l
         else l\<lparr>ld_cfg := (ld_cfg l)\<lparr>storage_database_path := value\<rparr>\<rparr>)
      else if section = ''retry'' \<and> key = ''max_attempts'' then
        set_uint value 1 100 ''retry.max_attempts must be an integer in 1..100''
          (\<lambda>n c. c\<lparr>retry_max_attempts := n\<rparr>) origin l
      else if section = ''retry'' \<and> key = ''backoff_initial_ms'' then
        set_uint value 1 3600000 ''retry.backoff_initial_ms must be an integer in 1..3600000''
          (\<lambda>n c. c\<lparr>retry_backoff_initial_ms := n\<rparr>) origin l
      else if section = ''retry'' \<and> key = ''backoff_max_ms'' then
        set_uint value 1 3600000 ''retry.backoff_max_ms must be an integer in 1..3600000''
          (\<lambda>n c. c\<lparr>retry_backoff_max_ms := n\<rparr>) origin l
      else if section = ''logging'' \<and> key = ''level'' then
        (case parse_severity value Info of
           None \<Rightarrow> add_issue (at_line origin (ld_line_no l)
             ''logging.level must be one of DEBUG, INFO, WARNING, ERROR, OFF'') l
         | Some (level, enabled) \<Rightarrow>
             l\<lparr>ld_cfg := (ld_cfg l)\<lparr>logging_level := level, logging_enabled := enabled\<rparr>\<rparr>)
      else add_issue (at_line origin (ld_line_no l)
             (''unknown key '' @ dq key @ '' in ['' @ section @ '']'')) l)"

definition config_section :: "string \<Rightarrow> string \<Rightarrow> loader \<Rightarrow> loader" where
  "config_section origin line l =
     (if length line < 3 \<or> last line \<noteq> CHR '']''
      then add_issue (at_line origin (ld_line_no l) ''malformed section header'') l
      else
        let name = trim (substr 1 (length line - 2) line) in
        if name = [] then add_issue (at_line origin (ld_line_no l) ''empty section name'') l
        else if name \<in> ld_sections l
        then add_issue (at_line origin (ld_line_no l) (''duplicate section ['' @ name @ '']'')) l
        else
          let l1 = l\<lparr>ld_sections := insert name (ld_sections l)\<rparr>;
              l2 = (if name \<notin> {''http'', ''jobs'', ''storage'', ''retry'', ''logging''}
                    then add_issue (at_line origin (ld_line_no l) (''unknown section ['' @ name @ '']'')) l1
                    else l1)
          in l2\<lparr>ld_section := name\<rparr>)"

definition config_line :: "string \<Rightarrow> string \<Rightarrow> loader \<Rightarrow> loader" where
  "config_line origin raw l0 =
     (let l = l0\<lparr>ld_line_no := Suc (ld_line_no l0)\<rparr>; line = trim raw in
      if line = [] \<or> line ! 0 = CHR '';'' \<or> line ! 0 = CHR ''#'' then l
      else if line ! 0 = CHR ''['' then config_section origin line l
      else case find_char (CHR ''='') line of
        None \<Rightarrow> add_issue (at_line origin (ld_line_no l)
          (''expected '' @ QUOTE @ ''key = value'' @ QUOTE @ '' or section header'')) l
      | Some eq \<Rightarrow>
         (if ld_section l = []
          then add_issue (at_line origin (ld_line_no l) ''entry before any section header'') l
          else
            let key = trim (take eq line); value = trim (drop (Suc eq) line) in
            if key = [] then add_issue (at_line origin (ld_line_no l) ''empty key'') l
            else
              let qualified = ld_section l @ ''.'' @ key in
              if qualified \<in> ld_keys l
              then add_issue (at_line origin (ld_line_no l)
                     (''duplicate key '' @ dq key @ '' in ['' @ ld_section l @ '']'')) l
              else config_entry origin (ld_section l) key value
                     (l\<lparr>ld_keys := insert qualified (ld_keys l)\<rparr>)))"

definition load_config_from_string :: "string \<Rightarrow> string \<Rightarrow> Config res" where
  "load_config_from_string text origin =
     (let l = fold (config_line origin) (getlines [] text) new_loader;
          cfg = ld_cfg l;
          i1 = (if storage_database_path cfg = []
                then ld_issues l @ [origin @ '': missing required parameter storage.database_path'']
                else ld_issues l);
          i2 = (if retry_backoff_initial_ms cfg > retry_backoff_max_ms cfg
                then i1 @ [origin @ '': retry.backoff_initial_ms ('' @ nat_dec (retry_backoff_initial_ms cfg) @
                           '') must not exceed retry.backoff_max_ms ('' @ nat_dec (retry_backoff_max_ms cfg) @ '')'']
                else i1)
      in if i2 \<noteq> [] then Inl (joined i2) else Inr cfg)"

text \<open>\<open>load_config_file\<close> from what reading the file gave: the error text or the contents.\<close>

definition load_config_file :: "string \<Rightarrow> string + string \<Rightarrow> Config res" where
  "load_config_file path contents = (case contents of
     Inl msg \<Rightarrow> Inl (path @ '': cannot open: '' @ msg)
   | Inr text \<Rightarrow> load_config_from_string text path)"

section \<open>Accepted configurations are valid\<close>

text \<open>Every field within its documented range, in every state of the loader.\<close>

definition fields_ok :: "Config \<Rightarrow> bool" where
  "fields_ok c \<longleftrightarrow> http_bind c \<noteq> [] \<and> CHR '' '' \<notin> set (http_bind c) \<and> TAB \<notin> set (http_bind c) \<and>
     http_port c \<in> {1..65535} \<and> http_max_body_bytes c \<in> {1..16777216} \<and> jobs_workers c \<in> {1..64} \<and>
     nul_free (storage_database_path c) \<and> retry_max_attempts c \<in> {1..100} \<and>
     retry_backoff_initial_ms c \<in> {1..3600000} \<and> retry_backoff_max_ms c \<in> {1..3600000}"

lemma parse_uint_range: "parse_uint t lo hi = Some n \<Longrightarrow> lo \<le> n \<and> n \<le> hi"
  by (auto simp: parse_uint_def Let_def split: if_splits)

lemma fields_ok_new: "fields_ok new_Config"
  by (simp add: fields_ok_def new_Config_def)

lemma fields_ok_issue [simp]: "ld_cfg (add_issue m l) = ld_cfg l"
  by (simp add: add_issue_def)

lemma set_uint_ok:
  assumes "fields_ok (ld_cfg l)" and "\<And>n c. fields_ok c \<Longrightarrow> lo \<le> n \<Longrightarrow> n \<le> hi \<Longrightarrow> fields_ok (upd n c)"
  shows "fields_ok (ld_cfg (set_uint v lo hi what upd origin l))"
  using assms by (auto simp: set_uint_def split: option.splits dest: parse_uint_range)

lemma cfg_if:
  "(b \<Longrightarrow> fields_ok (ld_cfg x)) \<Longrightarrow> (\<not> b \<Longrightarrow> fields_ok (ld_cfg y)) \<Longrightarrow> fields_ok (ld_cfg (if b then x else y))"
  by simp

lemma config_entry_ok:
  assumes "fields_ok (ld_cfg l)"
  shows "fields_ok (ld_cfg (config_entry origin sec key v l))"
proof -
  have bind: "fields_ok ((ld_cfg l)\<lparr>http_bind := v\<rparr>)"
    if "v \<noteq> []" "find_char (CHR '' '') v = None" "find_char TAB v = None"
    using assms that by (simp add: fields_ok_def find_char_None)
  have path: "fields_ok ((ld_cfg l)\<lparr>storage_database_path := v\<rparr>)" if "\<not> contains_nul v"
    using assms that by (simp add: fields_ok_def contains_nul_def find_char_None nul_free_def)
  have level: "fields_ok ((ld_cfg l)\<lparr>logging_level := a, logging_enabled := b\<rparr>)" for a b
    using assms by (simp add: fields_ok_def)
  have port: "fields_ok (ld_cfg (set_uint v 1 65535 w (\<lambda>n c. c\<lparr>http_port := n\<rparr>) origin l))" for w
    by (rule set_uint_ok [OF assms]) (simp add: fields_ok_def)
  have body: "fields_ok (ld_cfg (set_uint v 1 16777216 w (\<lambda>n c. c\<lparr>http_max_body_bytes := n\<rparr>) origin l))" for w
    by (rule set_uint_ok [OF assms]) (simp add: fields_ok_def)
  have workers: "fields_ok (ld_cfg (set_uint v 1 64 w (\<lambda>n c. c\<lparr>jobs_workers := n\<rparr>) origin l))" for w
    by (rule set_uint_ok [OF assms]) (simp add: fields_ok_def)
  have attempts: "fields_ok (ld_cfg (set_uint v 1 100 w (\<lambda>n c. c\<lparr>retry_max_attempts := n\<rparr>) origin l))" for w
    by (rule set_uint_ok [OF assms]) (simp add: fields_ok_def)
  have initial: "fields_ok (ld_cfg (set_uint v 1 3600000 w (\<lambda>n c. c\<lparr>retry_backoff_initial_ms := n\<rparr>) origin l))" for w
    by (rule set_uint_ok [OF assms]) (simp add: fields_ok_def)
  have limit: "fields_ok (ld_cfg (set_uint v 1 3600000 w (\<lambda>n c. c\<lparr>retry_backoff_max_ms := n\<rparr>) origin l))" for w
    by (rule set_uint_ok [OF assms]) (simp add: fields_ok_def)
  show ?thesis
    unfolding config_entry_def
    by (intro cfg_if port body workers attempts initial limit)
       (use bind path level assms in \<open>simp_all split: option.split\<close>)
qed

lemma config_line_ok: "fields_ok (ld_cfg l) \<Longrightarrow> fields_ok (ld_cfg (config_line origin raw l))"
  by (auto simp: config_line_def config_section_def Let_def split: option.split intro!: config_entry_ok)

lemma config_fold_ok: "fields_ok (ld_cfg l) \<Longrightarrow> fields_ok (ld_cfg (fold (config_line origin) ls l))"
  by (induction ls arbitrary: l) (auto intro: config_line_ok)

lemma joined_not_Nil: "ms \<noteq> [] \<Longrightarrow> \<forall>m \<in> set ms. m \<noteq> [] \<Longrightarrow> joined ms \<noteq> []"
  by (induction ms rule: joined.induct) auto

lemma at_line_not_Nil [simp]: "at_line origin n m \<noteq> []"
  by (simp add: at_line_def)

lemma issues_grow: "\<exists>ms. ld_issues (config_line origin raw l) = ld_issues l @ ms \<and> (\<forall>m \<in> set ms. m \<noteq> [])"
proof -
  have add: "\<exists>ms. ld_issues (add_issue (at_line o' n m) l') = ld_issues l' @ ms \<and> (\<forall>m \<in> set ms. m \<noteq> [])" for o' n m l'
    by (simp add: add_issue_def)
  have none: "\<exists>ms. ld_issues l' = ld_issues l' @ ms \<and> (\<forall>m \<in> set ms. m \<noteq> [])" for l' :: loader
    by simp
  have uint: "\<exists>ms. ld_issues (set_uint v lo hi w f o' l') = ld_issues l' @ ms \<and> (\<forall>m \<in> set ms. m \<noteq> [])"
    for v lo hi w f o' l'
    using add none [of l'] by (simp add: set_uint_def split: option.split)
  have entry: "\<exists>ms. ld_issues (config_entry o' sec k v l') = ld_issues l' @ ms \<and> (\<forall>m \<in> set ms. m \<noteq> [])"
    for o' sec k v l'
    using add uint none [of l'] by (simp add: config_entry_def split: option.split)
  have sec: "\<exists>ms. ld_issues (config_section o' ln l') = ld_issues l' @ ms \<and> (\<forall>m \<in> set ms. m \<noteq> [])" for o' ln l'
    using add none by (simp add: config_section_def Let_def add_issue_def)
  have entry': "\<exists>ms. ld_issues (config_entry o' s k v (l\<lparr>ld_line_no := n, ld_keys := ks\<rparr>)) = ld_issues l @ ms \<and>
      (\<forall>m \<in> set ms. m \<noteq> [])" for o' s k v n ks
    using entry [of o' s k v "l\<lparr>ld_line_no := n, ld_keys := ks\<rparr>"] by simp
  have sec': "\<exists>ms. ld_issues (config_section o' ln (l\<lparr>ld_line_no := n\<rparr>)) = ld_issues l @ ms \<and>
      (\<forall>m \<in> set ms. m \<noteq> [])" for o' ln n
    using sec [of o' ln "l\<lparr>ld_line_no := n\<rparr>"] by simp
  show ?thesis
    using entry' sec' by (simp add: config_line_def Let_def add_issue_def split: option.split)
qed

lemma issues_grow_fold:
  "\<exists>ms. ld_issues (fold (config_line origin) ls l) = ld_issues l @ ms \<and> (\<forall>m \<in> set ms. m \<noteq> [])"
proof (induction ls arbitrary: l)
  case (Cons x ls)
  obtain a where a: "ld_issues (config_line origin x l) = ld_issues l @ a" "\<forall>m \<in> set a. m \<noteq> []"
    using issues_grow by blast
  obtain b where "ld_issues (fold (config_line origin) ls (config_line origin x l)) =
      ld_issues (config_line origin x l) @ b" "\<forall>m \<in> set b. m \<noteq> []"
    using Cons.IH by blast
  with a show ?case by (intro exI [of _ "a @ b"]) auto
qed simp

lemma load_config_cases:
  "case load_config_from_string input origin of
     Inr cfg \<Rightarrow> fields_ok cfg \<and> storage_database_path cfg \<noteq> [] \<and> retry_backoff_initial_ms cfg \<le> retry_backoff_max_ms cfg
   | Inl e \<Rightarrow> e \<noteq> []"
proof -
  let ?l = "fold (config_line origin) (getlines [] input) new_loader"
  have ok: "fields_ok (ld_cfg ?l)" by (rule config_fold_ok) (simp add: new_loader_def fields_ok_new)
  obtain ms where ms: "ld_issues ?l = ms" "\<forall>m \<in> set ms. m \<noteq> []"
    using issues_grow_fold [of origin "getlines [] input" new_loader] by (auto simp: new_loader_def)
  have "joined xs \<noteq> []" if "xs \<noteq> []" "set xs \<subseteq> set ms \<union> {x. x \<noteq> []}" for xs
    using that ms(2) by (intro joined_not_Nil) auto
  with ok ms show ?thesis by (auto simp: load_config_from_string_def Let_def)
qed

section \<open>Every valid configuration can be written\<close>

text \<open>A specification of the file format: one file that states every parameter.\<close>

definition level_word :: "Config \<Rightarrow> string" where
  "level_word c = (if logging_enabled c then EventSeverity_to_string (logging_level c) else ''OFF'')"

definition hdr :: "string \<Rightarrow> string" where
  "hdr name = ''['' @ name @ '']''"

definition kv :: "string \<Rightarrow> string \<Rightarrow> string" where
  "kv k v = k @ '' = '' @ v"

definition config_lines :: "Config \<Rightarrow> string list" where
  "config_lines c =
     [hdr ''http'', kv ''bind'' (http_bind c), kv ''port'' (nat_dec (http_port c)),
      kv ''max_body_bytes'' (nat_dec (http_max_body_bytes c)),
      hdr ''jobs'', kv ''workers'' (nat_dec (jobs_workers c)),
      hdr ''storage'', kv ''database_path'' (storage_database_path c),
      hdr ''retry'', kv ''max_attempts'' (nat_dec (retry_max_attempts c)),
      kv ''backoff_initial_ms'' (nat_dec (retry_backoff_initial_ms c)),
      kv ''backoff_max_ms'' (nat_dec (retry_backoff_max_ms c)),
      hdr ''logging'', kv ''level'' (level_word c)]"

definition write_config :: "Config \<Rightarrow> string" where
  "write_config c = concat (map (\<lambda>line. line @ [LF]) (config_lines c))"

text \<open>What one line of the file can hold: no line break, no blank at either end.\<close>

definition line_value :: "string \<Rightarrow> bool" where
  "line_value v \<longleftrightarrow> v \<noteq> [] \<and> LF \<notin> set v \<and> \<not> is_ws (hd v) \<and> \<not> is_ws (last v)"

lemma getlines_acc: "LF \<notin> set s \<Longrightarrow> getlines acc (s @ LF # t) = (rev acc @ s) # getlines [] t"
  by (induction s arbitrary: acc) auto

lemma getlines_concat:
  "\<forall>s \<in> set ls. LF \<notin> set s \<Longrightarrow> getlines [] (concat (map (\<lambda>s. s @ [LF]) ls)) = ls"
  by (induction ls) (simp_all add: getlines_acc)

lemma dropWhile_hd: "s \<noteq> [] \<Longrightarrow> \<not> P (hd s) \<Longrightarrow> dropWhile P s = s"
  by (cases s) auto

lemma trim_clean: "s \<noteq> [] \<Longrightarrow> \<not> is_ws (hd s) \<Longrightarrow> \<not> is_ws (last s) \<Longrightarrow> trim s = s"
  by (simp add: trim_def dropWhile_hd hd_rev)

lemma trim_space_left: "trim (CHR '' '' # s) = trim s"
  by (simp add: trim_def is_ws_def)

lemma trim_space_right: "trim (s @ '' '') = trim s"
proof (cases "\<forall>c \<in> set s. is_ws c")
  case True
  then have "dropWhile is_ws s = []" "dropWhile is_ws (s @ '' '') = []"
    by (simp_all add: dropWhile_eq_Nil_conv is_ws_def)
  then show ?thesis by (simp only: trim_def)
next
  case False
  then obtain c where "c \<in> set s" "\<not> is_ws c" by blast
  then show ?thesis by (simp add: trim_def is_ws_def)
qed

lemma line_value_digits [simp]: "line_value (nat_dec n)"
proof -
  have "is_digit (hd (nat_dec n))" "is_digit (last (nat_dec n))"
    using nat_dec_mem [of _ n] by (simp_all add: hd_in_set last_in_set)
  moreover have "LF \<notin> set (nat_dec n)" by (auto dest: nat_dec_mem simp: is_digit_def)
  ultimately show ?thesis by (auto simp: line_value_def is_ws_def is_digit_def)
qed

lemma within_ulong: "n \<le> 2 ^ 32 \<Longrightarrow> n \<le> ULONG_MAX"
  by (simp add: ULONG_MAX_def)

lemma parse_uint_nat_dec [simp]:
  assumes "lo \<le> n" "n \<le> hi" "hi \<le> ULONG_MAX"
  shows "parse_uint (nat_dec n) lo hi = Some n"
proof -
  have "is_digit (nat_dec n ! 0)"
    using nat_dec_mem [of "nat_dec n ! 0" n] by (simp add: nth_mem)
  then show ?thesis using assms by (simp add: parse_uint_def Let_def nat_dec_digits)
qed

definition key_word :: "string \<Rightarrow> bool" where
  "key_word k \<longleftrightarrow> k \<noteq> [] \<and> (\<forall>c \<in> set k. \<not> is_ws c \<and> c \<noteq> CHR ''='') \<and> hd k \<notin> {CHR '';'', CHR ''#'', CHR ''[''}"

lemma config_line_entry:
  assumes "key_word k" and "line_value v" and "ld_section l \<noteq> []" and "ld_section l @ ''.'' @ k \<notin> ld_keys l"
  shows "config_line origin (kv k v) l = config_entry origin (ld_section l) k v
     (l\<lparr>ld_line_no := Suc (ld_line_no l), ld_keys := insert (ld_section l @ ''.'' @ k) (ld_keys l)\<rparr>)"
proof -
  let ?s = "k @ '' = '' @ v"
  have k: "k \<noteq> []" "\<not> is_ws (hd k)" "\<not> is_ws (last k)" "CHR ''='' \<notin> set k"
    "hd k \<notin> {CHR '';'', CHR ''#'', CHR ''[''}"
    using assms(1) by (auto simp: key_word_def)
  have v: "v \<noteq> []" "\<not> is_ws (hd v)" "\<not> is_ws (last v)" using assms(2) by (simp_all add: line_value_def)
  have ts: "trim ?s = ?s" using k v by (intro trim_clean) simp_all
  have "?s = (k @ '' '') @ CHR ''='' # ('' '' @ v)" by simp
  moreover have "CHR ''='' \<notin> set (k @ '' '')" using k by simp
  ultimately have f: "find_char (CHR ''='') ?s = Some (length k + 1)"
    by (metis find_char_hit length_append length_Cons list.size(3) One_nat_def)
  have t: "trim (take (length k + 1) ?s) = k" "trim (drop (Suc (length k + 1)) ?s) = v"
    using k v by (simp_all add: trim_space_right trim_space_left trim_clean)
  have h: "?s ! 0 = hd k" "?s \<noteq> []" using k(1) by (simp_all add: hd_conv_nth nth_append)
  show ?thesis
    unfolding kv_def config_line_def Let_def ts f
    using t k(1,5) h assms(3,4) by simp
qed

lemma config_line_header:
  assumes "name \<in> {''http'', ''jobs'', ''storage'', ''retry'', ''logging''}" and "name \<notin> ld_sections l"
  shows "config_line origin (hdr name) l =
    l\<lparr>ld_line_no := Suc (ld_line_no l), ld_sections := insert name (ld_sections l), ld_section := name\<rparr>"
proof -
  have n: "name \<noteq> []" "\<not> is_ws (hd name)" "\<not> is_ws (last name)" "1 \<le> length name"
    using assms(1) by (auto simp: is_ws_def)
  have ts: "trim (''['' @ name @ '']'') = ''['' @ name @ '']''"
    using n by (intro trim_clean) (simp_all add: is_ws_def)
  have tn: "trim (substr 1 (length (''['' @ name @ '']'') - 2) (''['' @ name @ '']'')) = name"
    using n by (simp add: substr_def trim_clean)
  show ?thesis
    unfolding hdr_def config_line_def Let_def ts config_section_def
    using tn n assms by (simp add: Let_def)
qed

text \<open>A configuration that can be stated in a file: valid, with values that fit on a line. The
  level of a disabled log is not written, so it is the default one.\<close>

definition statable :: "Config \<Rightarrow> bool" where
  "statable c \<longleftrightarrow> fields_ok c \<and> line_value (http_bind c) \<and> line_value (storage_database_path c) \<and>
     retry_backoff_initial_ms c \<le> retry_backoff_max_ms c \<and> (logging_enabled c \<or> logging_level c = Info)"

lemma line_value_level [simp]: "line_value (level_word c)"
  by (cases "logging_level c") (simp_all add: line_value_def level_word_def is_ws_def)

lemma parse_level_word:
  "logging_enabled c \<or> logging_level c = Info \<Longrightarrow>
   parse_severity (level_word c) Info = Some (logging_level c, logging_enabled c)"
  by (cases "logging_level c") (auto simp: level_word_def parse_severity_def upper_def ascii_upper_def)

lemma config_lines_single: "statable c \<Longrightarrow> \<forall>s \<in> set (config_lines c). LF \<notin> set s"
  using line_value_digits line_value_level [of c]
  by (simp add: config_lines_def statable_def hdr_def kv_def line_value_def)

lemma key_words [simp]:
  "key_word ''bind''" "key_word ''port''" "key_word ''max_body_bytes''" "key_word ''workers''"
  "key_word ''database_path''" "key_word ''max_attempts''" "key_word ''backoff_initial_ms''"
  "key_word ''backoff_max_ms''" "key_word ''level''"
  by (simp_all add: key_word_def is_ws_def)

text \<open>The effect of one accepted entry.\<close>

definition accept :: "string \<Rightarrow> (Config \<Rightarrow> Config) \<Rightarrow> loader \<Rightarrow> loader" where
  "accept k upd l = l\<lparr>ld_cfg := upd (ld_cfg l), ld_line_no := Suc (ld_line_no l),
     ld_keys := insert (ld_section l @ ''.'' @ k) (ld_keys l)\<rparr>"

lemma accept_simps [simp]:
  "ld_cfg (accept k u l) = u (ld_cfg l)" "ld_issues (accept k u l) = ld_issues l"
  "ld_section (accept k u l) = ld_section l" "ld_sections (accept k u l) = ld_sections l"
  "ld_keys (accept k u l) = insert (ld_section l @ ''.'' @ k) (ld_keys l)"
  by (simp_all add: accept_def)

lemma accept_uint:
  assumes "ld_section l \<noteq> []" and "key_word k" and "ld_section l @ ''.'' @ k \<notin> ld_keys l"
    and "\<And>l'. ld_section l' = ld_section l \<Longrightarrow>
      config_entry origin (ld_section l) k (nat_dec n) l' = set_uint (nat_dec n) lo hi what upd origin l'"
    and "lo \<le> n" "n \<le> hi" "hi \<le> ULONG_MAX"
  shows "config_line origin (kv k (nat_dec n)) l = accept k (upd n) l"
  using assms by (simp add: config_line_entry set_uint_def accept_def)

lemma entry_port:
  "ld_section l = ''http'' \<Longrightarrow> ''http.port'' \<notin> ld_keys l \<Longrightarrow> Suc 0 \<le> n \<Longrightarrow> n \<le> 65535 \<Longrightarrow>
   config_line origin (kv ''port'' (nat_dec n)) l = accept ''port'' (\<lambda>c. c\<lparr>http_port := n\<rparr>) l"
  by (rule accept_uint [where lo = 1 and hi = 65535]) (simp_all add: config_entry_def within_ulong)

lemma entry_max_body_bytes:
  "ld_section l = ''http'' \<Longrightarrow> ''http.max_body_bytes'' \<notin> ld_keys l \<Longrightarrow> Suc 0 \<le> n \<Longrightarrow> n \<le> 16777216 \<Longrightarrow>
   config_line origin (kv ''max_body_bytes'' (nat_dec n)) l = accept ''max_body_bytes'' (\<lambda>c. c\<lparr>http_max_body_bytes := n\<rparr>) l"
  by (rule accept_uint [where lo = 1 and hi = 16777216]) (simp_all add: config_entry_def within_ulong)

lemma entry_workers:
  "ld_section l = ''jobs'' \<Longrightarrow> ''jobs.workers'' \<notin> ld_keys l \<Longrightarrow> Suc 0 \<le> n \<Longrightarrow> n \<le> 64 \<Longrightarrow>
   config_line origin (kv ''workers'' (nat_dec n)) l = accept ''workers'' (\<lambda>c. c\<lparr>jobs_workers := n\<rparr>) l"
  by (rule accept_uint [where lo = 1 and hi = 64]) (simp_all add: config_entry_def within_ulong)

lemma entry_max_attempts:
  "ld_section l = ''retry'' \<Longrightarrow> ''retry.max_attempts'' \<notin> ld_keys l \<Longrightarrow> Suc 0 \<le> n \<Longrightarrow> n \<le> 100 \<Longrightarrow>
   config_line origin (kv ''max_attempts'' (nat_dec n)) l = accept ''max_attempts'' (\<lambda>c. c\<lparr>retry_max_attempts := n\<rparr>) l"
  by (rule accept_uint [where lo = 1 and hi = 100]) (simp_all add: config_entry_def within_ulong)

lemma entry_backoff_initial_ms:
  "ld_section l = ''retry'' \<Longrightarrow> ''retry.backoff_initial_ms'' \<notin> ld_keys l \<Longrightarrow> Suc 0 \<le> n \<Longrightarrow> n \<le> 3600000 \<Longrightarrow>
   config_line origin (kv ''backoff_initial_ms'' (nat_dec n)) l = accept ''backoff_initial_ms'' (\<lambda>c. c\<lparr>retry_backoff_initial_ms := n\<rparr>) l"
  by (rule accept_uint [where lo = 1 and hi = 3600000]) (simp_all add: config_entry_def within_ulong)

lemma entry_backoff_max_ms:
  "ld_section l = ''retry'' \<Longrightarrow> ''retry.backoff_max_ms'' \<notin> ld_keys l \<Longrightarrow> Suc 0 \<le> n \<Longrightarrow> n \<le> 3600000 \<Longrightarrow>
   config_line origin (kv ''backoff_max_ms'' (nat_dec n)) l = accept ''backoff_max_ms'' (\<lambda>c. c\<lparr>retry_backoff_max_ms := n\<rparr>) l"
  by (rule accept_uint [where lo = 1 and hi = 3600000]) (simp_all add: config_entry_def within_ulong)

lemma entry_bind:
  "ld_section l = ''http'' \<Longrightarrow> ''http.bind'' \<notin> ld_keys l \<Longrightarrow> line_value v \<Longrightarrow> CHR '' '' \<notin> set v \<Longrightarrow> TAB \<notin> set v \<Longrightarrow>
   config_line origin (kv ''bind'' v) l = accept ''bind'' (\<lambda>c. c\<lparr>http_bind := v\<rparr>) l"
  by (simp add: config_line_entry config_entry_def accept_def find_char_None line_value_def)

lemma entry_database_path:
  "ld_section l = ''storage'' \<Longrightarrow> ''storage.database_path'' \<notin> ld_keys l \<Longrightarrow> line_value v \<Longrightarrow> nul_free v \<Longrightarrow>
   config_line origin (kv ''database_path'' v) l = accept ''database_path'' (\<lambda>c. c\<lparr>storage_database_path := v\<rparr>) l"
  by (simp add: config_line_entry config_entry_def accept_def find_char_None line_value_def contains_nul_def nul_free_def)

lemma entry_level:
  "ld_section l = ''logging'' \<Longrightarrow> ''logging.level'' \<notin> ld_keys l \<Longrightarrow> logging_enabled c \<or> logging_level c = Info \<Longrightarrow>
   config_line origin (kv ''level'' (level_word c)) l =
     accept ''level'' (\<lambda>d. d\<lparr>logging_level := logging_level c, logging_enabled := logging_enabled c\<rparr>) l"
  by (simp add: config_line_entry config_entry_def accept_def parse_level_word)

lemmas entry_rules = entry_bind entry_port entry_max_body_bytes entry_workers entry_database_path
  entry_max_attempts entry_backoff_initial_ms entry_backoff_max_ms entry_level

lemma config_lines_load:
  assumes "statable c"
  shows "ld_cfg (fold (config_line origin) (config_lines c) new_loader) = c"
    and "ld_issues (fold (config_line origin) (config_lines c) new_loader) = []"
  using assms
  by (simp_all add: statable_def fields_ok_def config_lines_def entry_rules config_line_header
      new_loader_def new_Config_def)

section \<open>Properties\<close>

text \<open>C39. A configuration is accepted only if it is valid (L2-CFG-003, L2-CFG-004, L3-CPP-038): every
  numeric parameter is in its documented range, the bind address is non-empty and without
  blanks, the database path is present and free of NUL, and the initial backoff does not
  exceed the maximum. A rejected configuration always comes with a diagnostic.\<close>

theorem accepted_config_valid:
  "(\<exists>e. load_config_from_string input origin = Inl e \<and> e \<noteq> []) \<or>
   (\<exists>c. load_config_from_string input origin = Inr c \<and>
      http_bind c \<noteq> [] \<and> CHR '' '' \<notin> set (http_bind c) \<and> TAB \<notin> set (http_bind c) \<and>
      http_port c \<in> {1..65535} \<and> http_max_body_bytes c \<in> {1..16777216} \<and> jobs_workers c \<in> {1..64} \<and>
      storage_database_path c \<noteq> [] \<and> nul_free (storage_database_path c) \<and>
      retry_max_attempts c \<in> {1..100} \<and> retry_backoff_max_ms c \<in> {1..3600000} \<and>
      1 \<le> retry_backoff_initial_ms c \<and> retry_backoff_initial_ms c \<le> retry_backoff_max_ms c)"
  using load_config_cases [of input origin]
  by (cases "load_config_from_string input origin") (simp_all add: fields_ok_def)

text \<open>Every valid configuration is accepted and read back exactly: the file that states its ten
  parameters section by section loads without a diagnostic and gives the same values, whatever
  the origin in the messages is.\<close>

theorem valid_config_accepted:
  assumes "statable c"
  shows "load_config_from_string (write_config c) origin = Inr c"
proof -
  have lines: "getlines [] (write_config c) = config_lines c"
    unfolding write_config_def by (rule getlines_concat [OF config_lines_single [OF assms]])
  show ?thesis
    using assms config_lines_load [OF assms, of origin]
    by (simp add: load_config_from_string_def lines Let_def statable_def line_value_def)
qed

definition sample_config :: Config where
  "sample_config = new_Config\<lparr>http_port := 9000, storage_database_path := ''/var/lib/fm.db'', jobs_workers := 8\<rparr>"

theorem valid_config_accepted_witness:
  "statable sample_config \<and> load_config_from_string (write_config sample_config) ''fm.ini'' = Inr sample_config"
proof -
  have "statable sample_config"
    by (simp add: statable_def fields_ok_def sample_config_def new_Config_def line_value_def is_ws_def)
  then show ?thesis using valid_config_accepted [of sample_config "''fm.ini''"] by simp
qed

end
