(* ===== verification/Manager.thy ===== *)
theory Manager
  imports Mover Config
begin

text \<open>
  The job manager and its worker pool (\<open>cpp/src/manager.cpp\<close>,
  \<open>cpp/include/filemover/manager.hpp\<close>). The manager mutex is released around every store call
  and every publication, so each command is split at those points: \<open>submit_claim\<close>, the
  durable write, \<open>submit_publish\<close>, and likewise for \<open>cancel\<close>, \<open>retry\<close> and a worker's round. Each
  part is one critical section (a function of the manager) or one unlocked section (a
  function of the world); the commands compose them, and the theory \<open>Manager_Laws\<close>
  interleaves them. The clocks are arguments: \<open>now_ms\<close> is what \<open>Impl::now\<close> read, \<open>ts\<close> what
  \<open>now_epoch_ms\<close> read. A command returns its result with the text it left in \<open>error\<close>, which
  its callers pass in empty.
\<close>

section \<open>Data\<close>

datatype CommandResult = Ok | UnknownJob | InvalidState | NotRunning | StoreError

fun CommandResult_to_string :: "CommandResult \<Rightarrow> string" where
  "CommandResult_to_string Ok = ''OK''"
| "CommandResult_to_string UnknownJob = ''UNKNOWN_JOB''"
| "CommandResult_to_string InvalidState = ''INVALID_STATE''"
| "CommandResult_to_string NotRunning = ''NOT_RUNNING''"
| "CommandResult_to_string StoreError = ''STORE_ERROR''"

text \<open>\<open>JobManager::Impl\<close>. \<open>m_events\<close>: an event publisher is installed.\<close>

record manager =
  m_store_path :: string
  m_config :: Config
  m_strategy :: MoveStrategy
  m_runnable :: "string list"
  m_requests :: "string \<Rightarrow> MoveRequest option"
  m_waiting :: "int smap"
  m_paused :: "string set"
  m_active :: "string set"
  m_pending :: "string set"
  m_running :: bool
  m_stopping :: bool
  m_conn :: conn
  m_events :: bool

definition new_manager :: "string \<Rightarrow> Config \<Rightarrow> manager" where
  "new_manager path cfg =
     \<lparr>m_store_path = path, m_config = cfg, m_strategy = RenameNoReplace, m_runnable = [],
      m_requests = (\<lambda>_. None), m_waiting = [], m_paused = {}, m_active = {}, m_pending = {},
      m_running = False, m_stopping = False, m_conn = closed_conn, m_events = False\<rparr>"

definition set_strategy :: "MoveStrategy \<Rightarrow> manager \<Rightarrow> manager" where
  "set_strategy s m = m\<lparr>m_strategy := s\<rparr>"

definition set_event_publisher :: "bool \<Rightarrow> manager \<Rightarrow> manager" where
  "set_event_publisher installed m = m\<lparr>m_events := installed\<rparr>"

definition runnable_count :: "manager \<Rightarrow> nat" where
  "runnable_count m = length (m_runnable m)"

definition active_count :: "manager \<Rightarrow> nat" where
  "active_count m = card (m_active m)"

section \<open>Helpers\<close>

definition monotonic_now :: "(int \<times> int) option \<Rightarrow> int" where
  "monotonic_now ts = (case ts of None \<Rightarrow> 0 | Some (sec, nsec) \<Rightarrow> sec * 1000 + nsec div 1000000)"

text \<open>\<open>std::string::rfind\<close> of a string: the last position where it occurs.\<close>

fun rfind_sub :: "string \<Rightarrow> string \<Rightarrow> nat option" where
  "rfind_sub pat [] = (if pat = [] then Some 0 else None)"
| "rfind_sub pat (c # cs) = (case rfind_sub pat cs of
     Some i \<Rightarrow> Some (Suc i)
   | None \<Rightarrow> (if take (length pat) (c # cs) = pat then Some 0 else None))"

definition retry_marker :: string where
  "retry_marker = ''-retry-''"

definition strip_retry_suffix :: "string \<Rightarrow> string" where
  "strip_retry_suffix i = (case rfind_sub retry_marker i of
     None \<Rightarrow> i
   | Some at \<Rightarrow>
      (let first = at + length retry_marker in
       if first \<ge> length i then i
       else if \<not> list_all is_digit (drop first i) then i
       else take at i))"

function backoff_loop :: "nat \<Rightarrow> nat \<Rightarrow> int \<Rightarrow> int \<Rightarrow> int" where
  "backoff_loop i attempts delay max_ms =
     (if i < attempts \<and> delay < max_ms then backoff_loop (i + 1) attempts (delay * 2) max_ms else delay)"
  by pat_completeness auto
termination
  by (relation "measure (\<lambda>(i, attempts, _). attempts - i)") auto

declare backoff_loop.simps [simp del]

definition backoff_for :: "nat \<Rightarrow> nat \<Rightarrow> nat \<Rightarrow> int" where
  "backoff_for attempts initial_ms max_ms =
     (let delay = backoff_loop 1 attempts (int initial_ms) (int max_ms) in
      if delay > int max_ms then int max_ms else delay)"

definition no_such_msg :: "string \<Rightarrow> string" where
  "no_such_msg jid = ''manager: no such job '' @ quoted jid"

definition emit :: "EventType \<Rightarrow> EventSeverity \<Rightarrow> string \<Rightarrow> string \<Rightarrow> int \<Rightarrow> manager \<Rightarrow> Event list" where
  "emit type severity jid detail ts m =
     (if m_events m then [new_Event type severity ts jid [] detail] else [])"

definition take_runnable :: "string \<Rightarrow> manager \<Rightarrow> bool \<times> manager" where
  "take_runnable jid m = (jid \<in> set (m_runnable m), m\<lparr>m_runnable := remove1 jid (m_runnable m)\<rparr>)"

section \<open>Failures\<close>

text \<open>The results of the store calls in \<open>fail_permanently\<close> are ignored by the code.\<close>

definition fail_permanently :: "string \<Rightarrow> string \<Rightarrow> conn \<Rightarrow> world \<Rightarrow> world" where
  "fail_permanently jid reason c w =
     (case record_attempt jid 0 reason c w of (_, w1) \<Rightarrow>
     (case load jid c w1 of
        (Inl _, w2) \<Rightarrow> w2
      | (Inr None, w2) \<Rightarrow> w2
      | (Inr (Some job), w2) \<Rightarrow>
         (if job_state job = Failed then w2
          else snd (update_state jid Failed (updated_at_ms job + 1) reason c w2))))"

text \<open>\<open>Some due\<close>: the job runs again at \<open>due\<close>. The attempt count is an unsigned 32-bit sum.\<close>

definition handle_failure ::
  "Config \<Rightarrow> string \<Rightarrow> string \<Rightarrow> int \<Rightarrow> conn \<Rightarrow> world \<Rightarrow> int option \<times> world" where
  "handle_failure cfg jid failure now_ms c w =
     (case load_retry_state jid c w of
        (Inl _, w1) \<Rightarrow> (None, w1)
      | (Inr None, w1) \<Rightarrow> (None, w1)
      | (Inr (Some state), w1) \<Rightarrow>
         (let attempts = nat ((rs_attempts state + 1) mod 2 ^ 32) in
          if attempts < retry_max_attempts cfg
          then
            let due = now_ms + backoff_for attempts (retry_backoff_initial_ms cfg) (retry_backoff_max_ms cfg) in
            (case record_attempt jid due failure c w1 of
               (Inl _, w2) \<Rightarrow> (None, w2)
             | (Inr _, w2) \<Rightarrow> (Some due, w2))
          else (None, fail_permanently jid
                  (''gave up after '' @ nat_dec attempts @ '' attempts: '' @ failure) c w1)))"

section \<open>The worker\<close>

text \<open>The wait at the top of the loop: the worker returns, or takes the front of the queue.
  \<open>requests[job_id]\<close> inserts an empty request when there is none.\<close>

definition worker_exits :: "manager \<Rightarrow> bool" where
  "worker_exits m \<longleftrightarrow> m_runnable m = [] \<and> m_stopping m"

definition worker_ready :: "manager \<Rightarrow> bool" where
  "worker_ready m \<longleftrightarrow> m_runnable m \<noteq> [] \<or> m_stopping m"

definition empty_request :: MoveRequest where
  "empty_request = \<lparr>mr_source_dir = [], mr_source_name = [], mr_dest_dir = [], mr_dest_name = []\<rparr>"

definition worker_take :: "manager \<Rightarrow> (string \<times> MoveRequest \<times> MoveStrategy) \<times> manager" where
  "worker_take m =
     (let jid = hd (m_runnable m);
          request = (case m_requests m jid of Some r \<Rightarrow> r | None \<Rightarrow> empty_request)
      in ((jid, request, m_strategy m),
          m\<lparr>m_runnable := tl (m_runnable m), m_requests := (m_requests m)(jid \<mapsto> request),
            m_active := insert jid (m_active m)\<rparr>))"

definition worker_event :: "bool \<Rightarrow> MoveOutcome \<Rightarrow> EventType \<times> EventSeverity" where
  "worker_event reschedule out =
     (if reschedule then (JobRetryScheduled, Warning)
      else case out of
        MoveCompleted \<Rightarrow> (JobCompleted, Info)
      | HaltedAfterCommit \<Rightarrow> (JobHaltedAfterCommit, Error)
      | FailedExternal \<Rightarrow> (JobFailedExternal, Error)
      | Rejected \<Rightarrow> (JobFailed, Error)
      | AbortedBeforeCommit \<Rightarrow> (JobFailed, Error))"

text \<open>The unlocked part of a round, with the worker's own connection: the move, the recording
  of a failure, then the events.\<close>

definition worker_record ::
  "Config \<Rightarrow> string \<Rightarrow> MoveRequest \<Rightarrow> MoveStrategy \<Rightarrow> int \<Rightarrow> conn \<Rightarrow> world \<Rightarrow>
   (int option \<times> MoveOutcome \<times> string) \<times> world" where
  "worker_record cfg jid request strategy now_ms c w =
     (case execute jid request strategy c w of
        ((out, error), w1) \<Rightarrow>
         (case out of
            AbortedBeforeCommit \<Rightarrow>
              (case handle_failure cfg jid error now_ms c w1 of
                 (due, w2) \<Rightarrow> ((due, out, error), w2))
          | Rejected \<Rightarrow> ((None, out, error), fail_permanently jid error c w1)
          | _ \<Rightarrow> ((None, out, error), w1)))"

definition worker_run ::
  "string \<Rightarrow> MoveRequest \<Rightarrow> MoveStrategy \<Rightarrow> int \<Rightarrow> int \<Rightarrow> int \<Rightarrow> conn \<Rightarrow> manager \<Rightarrow> world \<Rightarrow>
   int option \<times> Event list \<times> world" where
  "worker_run jid request strategy now_ms ts ts' c m w =
     (case worker_record (m_config m) jid request strategy now_ms c w of
        ((due, out, error), w1) \<Rightarrow>
         (case worker_event (due \<noteq> None) out of
            (type, severity) \<Rightarrow>
              (due,
               emit JobStarted Info jid [] ts m @
               emit type severity jid (if type = JobCompleted then [] else error) ts' m,
               w1)))"

definition worker_settle :: "string \<Rightarrow> int option \<Rightarrow> manager \<Rightarrow> manager" where
  "worker_settle jid due m =
     (let m1 = m\<lparr>m_active := m_active m - {jid}\<rparr> in
      case due of None \<Rightarrow> m1 | Some d \<Rightarrow> m1\<lparr>m_waiting := smap_put jid d (m_waiting m1)\<rparr>)"

text \<open>The worker's own connection; \<open>None\<close>: the thread returns at once.\<close>

definition worker_open :: "pragma_answers \<Rightarrow> manager \<Rightarrow> world \<Rightarrow> conn option \<times> world" where
  "worker_open pa m w = (case store_open (m_store_path m) pa closed_conn w of
     (Inl _, _, w1) \<Rightarrow> (None, w1)
   | (Inr _, c, w1) \<Rightarrow> (Some c, w1))"

section \<open>Start and shutdown\<close>

text \<open>\<open>start\<close> returns the number of worker threads to spawn.\<close>

definition start :: "pragma_answers \<Rightarrow> manager \<Rightarrow> world \<Rightarrow> nat res \<times> manager \<times> world" where
  "start pa m w =
     (if m_running m then (Inr 0, m, w)
      else case store_open (m_store_path m) pa (m_conn m) w of
        (Inl e, c, w1) \<Rightarrow> (Inl e, m\<lparr>m_conn := c\<rparr>, w1)
      | (Inr _, c, w1) \<Rightarrow>
          (Inr (if jobs_workers (m_config m) > 0 then jobs_workers (m_config m) else 1),
           m\<lparr>m_conn := c, m_stopping := False, m_running := True\<rparr>, w1))"

text \<open>\<open>shutdown\<close> up to the joins, and what follows them.\<close>

definition shutdown_begin :: "manager \<Rightarrow> manager" where
  "shutdown_begin m = (if \<not> m_running m then m else m\<lparr>m_stopping := True, m_running := False\<rparr>)"

definition shutdown_finish :: "manager \<Rightarrow> manager" where
  "shutdown_finish m = m\<lparr>m_conn := store_close (m_conn m)\<rparr>"

section \<open>Submission\<close>

definition not_running_msg :: string where
  "not_running_msg = ''manager: not running''"

definition submit_claim :: "string \<Rightarrow> manager \<Rightarrow> (CommandResult \<times> string) + manager" where
  "submit_claim jid m =
     (if \<not> m_running m then Inl (NotRunning, not_running_msg)
      else if m_requests m jid \<noteq> None \<or> jid \<in> m_pending m
      then Inl (InvalidState, ''manager: job '' @ quoted jid @ '' already exists'')
      else Inr (m\<lparr>m_pending := insert jid (m_pending m)\<rparr>))"

definition submit_job :: "string \<Rightarrow> MoveRequest \<Rightarrow> int \<Rightarrow> Job" where
  "submit_job jid request now_ms =
     new_Job jid (mr_source_dir request @ ''/'' @ mr_source_name request)
       (mr_dest_dir request @ ''/'' @ mr_dest_name request) now_ms"

definition submit_publish :: "string \<Rightarrow> MoveRequest \<Rightarrow> bool \<Rightarrow> manager \<Rightarrow> manager" where
  "submit_publish jid request recorded m =
     (let m1 = m\<lparr>m_pending := m_pending m - {jid}\<rparr> in
      if \<not> recorded then m1
      else m1\<lparr>m_requests := (m_requests m1)(jid \<mapsto> request), m_runnable := m_runnable m1 @ [jid]\<rparr>)"

definition submit ::
  "string \<Rightarrow> MoveRequest \<Rightarrow> int \<Rightarrow> int \<Rightarrow> manager \<Rightarrow> world \<Rightarrow>
   (CommandResult \<times> string) \<times> Event list \<times> manager \<times> world" where
  "submit jid request now_ms ts m w =
     (case submit_claim jid m of
        Inl r \<Rightarrow> (r, [], m, w)
      | Inr m1 \<Rightarrow>
         (case record_intent (submit_job jid request now_ms) [] (m_conn m1) w of
            (Inl e, w1) \<Rightarrow> ((StoreError, e), [], submit_publish jid request False m1, w1)
          | (Inr _, w1) \<Rightarrow>
              ((Ok, []), emit JobSubmitted Info jid [] ts m1, submit_publish jid request True m1, w1)))"

text \<open>The overload that allocates the id; it also returns \<open>job_id\<close>.\<close>

definition submit_allocated ::
  "MoveRequest \<Rightarrow> int \<Rightarrow> int \<Rightarrow> manager \<Rightarrow> world \<Rightarrow>
   (CommandResult \<times> string \<times> string) \<times> Event list \<times> manager \<times> world" where
  "submit_allocated request now_ms ts m w =
     (if \<not> m_running m then ((NotRunning, not_running_msg, []), [], m, w)
      else case next_sequence (m_conn m) w of
        (Inl e, w1) \<Rightarrow> ((StoreError, e, []), [], m, w1)
      | (Inr sequence, w1) \<Rightarrow>
         (let allocated = ''job-'' @ nat_dec (unat sequence) in
          case submit allocated request now_ms ts m w1 of
            ((result, error), evs, m2, w2) \<Rightarrow>
              ((result, error, if result = Ok then allocated else []), evs, m2, w2)))"

section \<open>Pause and resume\<close>

definition pause :: "string \<Rightarrow> int \<Rightarrow> manager \<Rightarrow> (CommandResult \<times> string) \<times> Event list \<times> manager" where
  "pause jid ts m =
     (if \<not> m_running m then ((NotRunning, not_running_msg), [], m)
      else if m_requests m jid = None then ((UnknownJob, no_such_msg jid), [], m)
      else if jid \<in> m_active m
      then ((InvalidState, ''manager: job '' @ quoted jid @
               '' is already in flight and cannot be paused mid-move''), [], m)
      else
        let m1 = snd (take_runnable jid m);
            m2 = m1\<lparr>m_waiting := smap_erase jid (m_waiting m1), m_paused := insert jid (m_paused m1)\<rparr>
        in ((Ok, []), emit JobPaused Info jid [] ts m2, m2))"

definition resume :: "string \<Rightarrow> int \<Rightarrow> manager \<Rightarrow> (CommandResult \<times> string) \<times> Event list \<times> manager" where
  "resume jid ts m =
     (if \<not> m_running m then ((NotRunning, not_running_msg), [], m)
      else if m_requests m jid = None then ((UnknownJob, no_such_msg jid), [], m)
      else if jid \<notin> m_paused m
      then ((InvalidState, ''manager: job '' @ quoted jid @ '' is not paused''), [], m)
      else
        let m1 = m\<lparr>m_paused := m_paused m - {jid}, m_runnable := m_runnable m @ [jid]\<rparr>
        in ((Ok, []), emit JobResumed Info jid [] ts m1, m1))"

section \<open>Cancellation\<close>

definition cancel_claim :: "string \<Rightarrow> manager \<Rightarrow> (CommandResult \<times> string) + bool \<times> manager" where
  "cancel_claim jid m =
     (if \<not> m_running m then Inl (NotRunning, not_running_msg)
      else if m_requests m jid = None then Inl (UnknownJob, no_such_msg jid)
      else if jid \<in> m_active m
      then Inl (InvalidState, ''manager: job '' @ quoted jid @
              '' is in flight; a move past its commit point is not interruptible'')
      else case take_runnable jid m of
        (was_runnable, m1) \<Rightarrow>
          Inr (was_runnable, m1\<lparr>m_waiting := smap_erase jid (m_waiting m1), m_paused := m_paused m1 - {jid}\<rparr>))"

definition cancel_durable :: "string \<Rightarrow> conn \<Rightarrow> world \<Rightarrow> (CommandResult \<times> string) \<times> world" where
  "cancel_durable jid c w =
     (case load jid c w of
        (Inl e, w1) \<Rightarrow> ((UnknownJob, e), w1)
      | (Inr None, w1) \<Rightarrow> ((UnknownJob, []), w1)
      | (Inr (Some job), w1) \<Rightarrow>
         (if job_state job \<noteq> Queued
          then ((InvalidState, ''manager: job '' @ quoted jid @ '' is '' @
                   JobState_to_string (job_state job) @ '' and cannot be cancelled''), w1)
          else case update_state jid Failed (updated_at_ms job + 1) ''cancelled by operator'' c w1 of
            (Inl e, w2) \<Rightarrow> ((StoreError, e), w2)
          | (Inr _, w2) \<Rightarrow> ((Ok, []), w2)))"

definition cancel_settle :: "string \<Rightarrow> bool \<Rightarrow> CommandResult \<Rightarrow> manager \<Rightarrow> manager" where
  "cancel_settle jid was_runnable outcome m =
     (if outcome \<noteq> Ok \<and> was_runnable then m\<lparr>m_runnable := m_runnable m @ [jid]\<rparr> else m)"

definition cancel ::
  "string \<Rightarrow> int \<Rightarrow> manager \<Rightarrow> world \<Rightarrow> (CommandResult \<times> string) \<times> Event list \<times> manager \<times> world" where
  "cancel jid ts m w =
     (case cancel_claim jid m of
        Inl r \<Rightarrow> (r, [], m, w)
      | Inr (was_runnable, m1) \<Rightarrow>
         (case cancel_durable jid (m_conn m1) w of
            ((outcome, error), w1) \<Rightarrow>
             (let m2 = cancel_settle jid was_runnable outcome m1 in
              ((outcome, error), (if outcome = Ok then emit JobCancelled Info jid [] ts m2 else []), m2, w1))))"

section \<open>Manual retry\<close>

definition retry_claim :: "string \<Rightarrow> manager \<Rightarrow> (CommandResult \<times> string) + MoveRequest" where
  "retry_claim jid m =
     (if \<not> m_running m then Inl (NotRunning, not_running_msg)
      else case m_requests m jid of
        None \<Rightarrow> Inl (UnknownJob, no_such_msg jid)
      | Some request \<Rightarrow> Inr request)"

definition retry_check :: "string \<Rightarrow> conn \<Rightarrow> world \<Rightarrow> (CommandResult \<times> string) option \<times> world" where
  "retry_check jid c w =
     (case load jid c w of
        (Inl _, w1) \<Rightarrow> (Some (UnknownJob, no_such_msg jid), w1)
      | (Inr None, w1) \<Rightarrow> (Some (UnknownJob, no_such_msg jid), w1)
      | (Inr (Some job), w1) \<Rightarrow>
         (if job_state job \<noteq> Failed
          then (Some (InvalidState, ''manager: job '' @ quoted jid @ '' is '' @
                  JobState_to_string (job_state job) @ ''; only a FAILED job can be retried''), w1)
          else (None, w1)))"

text \<open>The counter of the search is an \<open>int\<close> that starts at 1 and only grows: a natural number up to
  \<open>INT_MAX\<close>.\<close>

definition INT_MAX :: int where
  "INT_MAX = 2147483647"

definition retry_candidate :: "string \<Rightarrow> nat \<Rightarrow> string" where
  "retry_candidate root n = root @ retry_marker @ nat_dec n"

text \<open>The critical section of the probe: \<open>Some\<close> claims the candidate.\<close>

definition retry_reserve :: "string \<Rightarrow> manager \<Rightarrow> manager option" where
  "retry_reserve candidate m =
     (if m_requests m candidate = None \<and> candidate \<notin> m_pending m
      then Some (m\<lparr>m_pending := insert candidate (m_pending m)\<rparr>) else None)"

text \<open>The search for a free id. The loop has no exit at the end of the range of its counter, where \<open>++n\<close>
  overflows and the behaviour is undefined: \<open>None\<close> stands for it.\<close>

partial_function (option) retry_probe ::
  "string \<Rightarrow> nat \<Rightarrow> manager \<Rightarrow> conn \<Rightarrow> world \<Rightarrow> ((string + string \<times> manager) \<times> world) option" where
  "retry_probe root n m c w =
     (case load (retry_candidate root n) c w of
        (Inl e, w1) \<Rightarrow> Some (Inl e, w1)
      | (Inr (Some _), w1) \<Rightarrow> (if int n < INT_MAX then retry_probe root (n + 1) m c w1 else None)
      | (Inr None, w1) \<Rightarrow>
         (case retry_reserve (retry_candidate root n) m of
            Some m1 \<Rightarrow> Some (Inr (retry_candidate root n, m1), w1)
          | None \<Rightarrow> (if int n < INT_MAX then retry_probe root (n + 1) m c w1 else None)))"

declare retry_probe.simps [code]

definition retry ::
  "string \<Rightarrow> int \<Rightarrow> int \<Rightarrow> manager \<Rightarrow> world \<Rightarrow>
   ((CommandResult \<times> string \<times> string) \<times> Event list \<times> manager \<times> world) option" where
  "retry jid now_ms ts m w =
     (case retry_claim jid m of
        Inl (r, e) \<Rightarrow> Some ((r, e, []), [], m, w)
      | Inr move \<Rightarrow>
     (case retry_check jid (m_conn m) w of
        (Some (r, e), w1) \<Rightarrow> Some ((r, e, []), [], m, w1)
      | (None, w1) \<Rightarrow>
     (case retry_probe (strip_retry_suffix jid) 1 m (m_conn m) w1 of
        None \<Rightarrow> None
      | Some (Inl e, w2) \<Rightarrow> Some ((StoreError, e, []), [], m, w2)
      | Some (Inr (candidate, m1), w2) \<Rightarrow>
         (case record_intent (submit_job candidate move now_ms) jid (m_conn m1) w2 of
            (Inl e, w3) \<Rightarrow> Some ((StoreError, e, []), [], submit_publish candidate move False m1, w3)
          | (Inr _, w3) \<Rightarrow>
              Some ((Ok, [], candidate),
                emit JobRetrySubmitted Info candidate (''retry_of='' @ jid) ts m1,
                submit_publish candidate move True m1, w3)))))"

section \<open>Scheduled retries\<close>

definition pump_due :: "int \<Rightarrow> manager \<Rightarrow> string list" where
  "pump_due now_ms m =
     map fst (filter (\<lambda>(k, due). due \<le> now_ms \<and> k \<notin> m_paused m) (m_waiting m))"

definition pump :: "int \<Rightarrow> manager \<Rightarrow> nat \<times> manager" where
  "pump now_ms m =
     (if \<not> m_running m then (0, m)
      else
        let due = pump_due now_ms m in
        (length due,
         fold (\<lambda>jid n. n\<lparr>m_waiting := smap_erase jid (m_waiting n), m_runnable := m_runnable n @ [jid]\<rparr>) due m))"

text \<open>What \<open>wait_idle\<close> polls for, and its loop: \<open>polled n\<close> is the manager under the mutex at the \<open>n\<close>th poll,
  and a poll that finds the time used up looks once more.\<close>

definition idle :: "manager \<Rightarrow> bool" where
  "idle m \<longleftrightarrow> m_runnable m = [] \<and> m_active m = {}"

definition kPollMs :: int where
  "kPollMs = 1"

function wait_idle_loop :: "(nat \<Rightarrow> manager) \<Rightarrow> nat \<Rightarrow> int \<Rightarrow> int \<Rightarrow> bool \<times> nat" where
  "wait_idle_loop polled n waited timeout_ms =
     (if idle (polled n) then (True, n + 1)
      else if waited \<ge> timeout_ms then (idle (polled (n + 1)), n + 2)
      else wait_idle_loop polled (n + 1) (waited + kPollMs) timeout_ms)"
  by pat_completeness auto
termination
  by (relation "measure (\<lambda>(_, _, waited, timeout_ms). nat (timeout_ms - waited))") (auto simp: kPollMs_def)

declare wait_idle_loop.simps [simp del]

text \<open>The answer, and how often the mutex was taken for it.\<close>

definition wait_idle :: "(nat \<Rightarrow> manager) \<Rightarrow> int \<Rightarrow> bool \<times> nat" where
  "wait_idle polled timeout_ms = wait_idle_loop polled 0 0 timeout_ms"

end
