(* ===== verification/Router.thy ===== *)
theory Router
  imports Api_Codec Http_Parser Manager
begin

text \<open>
  The route table and its handlers (\<open>cpp/src/router.cpp\<close>). A request is answered from the manager
  it is given; \<open>None\<close> stands for a manual retry whose search for a free id does not end. The
  clocks the manager reads are arguments, as in the theory \<open>Manager\<close>.
\<close>

section \<open>Responses\<close>

definition make_response :: "int \<Rightarrow> string \<Rightarrow> Response" where
  "make_response status body = new_Response\<lparr>resp_status := status, resp_body := body\<rparr>"

definition error_response :: "int \<Rightarrow> string \<Rightarrow> Response" where
  "error_response status message = make_response status (encode_error message)"

definition method_not_allowed :: "string \<Rightarrow> Response" where
  "method_not_allowed allow = (error_response 405 ''method not allowed on this route'')\<lparr>resp_allow := allow\<rparr>"

fun status_for :: "CommandResult \<Rightarrow> int" where
  "status_for Ok = 200"
| "status_for UnknownJob = 404"
| "status_for InvalidState = 409"
| "status_for NotRunning = 503"
| "status_for StoreError = 500"

section \<open>Paths\<close>

text \<open>The scan of \<open>path_segments\<close>: slashes are skipped, a run of other characters is a segment.\<close>

function segments :: "string \<Rightarrow> string list" where
  "segments path =
     (let rest = dropWhile (\<lambda>c. c = CHR ''/'') path in
      if rest = [] then []
      else takeWhile (\<lambda>c. c \<noteq> CHR ''/'') rest # segments (dropWhile (\<lambda>c. c \<noteq> CHR ''/'') rest))"
  by pat_completeness auto
termination
proof (relation "measure length", goal_cases)
  case (2 path rest)
  have le: "length rest \<le> length path" unfolding 2 by (rule length_dropWhile_le)
  obtain c cs where rest: "rest = c # cs" using 2(2) by (cases rest) auto
  have "hd rest \<noteq> CHR ''/''" using hd_dropWhile [of "\<lambda>c. c = CHR ''/''" path] 2 by simp
  then have "c \<noteq> CHR ''/''" using rest by simp
  then have "length (dropWhile (\<lambda>c. c \<noteq> CHR ''/'') rest) \<le> length cs" using rest by (simp add: length_dropWhile_le)
  then show ?case using le rest by simp
qed simp

declare segments.simps [simp del]

definition path_segments :: "string \<Rightarrow> string list" where
  "path_segments target = (case find_char (CHR ''?'') target of
     None \<Rightarrow> segments target
   | Some query \<Rightarrow> segments (substr 0 query target))"

definition split_path :: "string \<Rightarrow> (string \<times> string) option" where
  "split_path path =
     (if path = [] \<or> hd path \<noteq> CHR ''/'' then None
      else case rfind_char (CHR ''/'') path of
        None \<Rightarrow> None
      | Some slash \<Rightarrow>
         (if slash + 1 \<ge> length path then None
          else Some (if slash = 0 then ''/'' else substr 0 slash path, drop (slash + 1) path)))"

section \<open>Handlers\<close>

definition status_ok_body :: string where
  "status_ok_body = ''{'' @ DQ # ''status'' @ DQ # '':'' @ DQ # ''ok'' @ DQ # ''}''"

definition job_id_body :: "string \<Rightarrow> string" where
  "job_id_body jid = ''{'' @ DQ # ''job_id'' @ DQ # '':'' @ DQ # jid @ DQ # ''}''"

type_synonym routed = "(Response \<times> Event list \<times> manager \<times> world) option"

definition route_submit :: "string \<Rightarrow> int \<Rightarrow> int \<Rightarrow> manager \<Rightarrow> world \<Rightarrow> routed" where
  "route_submit body now_ms ts m w =
     (case decode_submit_request body of
        Inl e \<Rightarrow> Some (error_response 400 e, [], m, w)
      | Inr submission \<Rightarrow>
         (case (split_path (submit_source submission), split_path (submit_dest submission)) of
            (Some (sd, sn), Some (dd, dn)) \<Rightarrow>
              (case submit_allocated \<lparr>mr_source_dir = sd, mr_source_name = sn, mr_dest_dir = dd, mr_dest_name = dn\<rparr>
                      now_ms ts m w of
                 ((result, e, jid), evs, m1, w1) \<Rightarrow>
                   Some (if result \<noteq> Ok then error_response (status_for result) e else make_response 202 (job_id_body jid),
                         evs, m1, w1))
          | _ \<Rightarrow> Some (error_response 400 ''source and dest must be absolute paths naming a file'', [], m, w)))"

definition command_response :: "CommandResult \<Rightarrow> string \<Rightarrow> string \<Rightarrow> Response" where
  "command_response result e body =
     (if result = Ok then make_response (status_for result) (if body = [] then status_ok_body else body)
      else error_response (status_for result) e)"

definition route_action :: "string \<Rightarrow> string \<Rightarrow> int \<Rightarrow> int \<Rightarrow> manager \<Rightarrow> world \<Rightarrow> routed" where
  "route_action jid action now_ms ts m w =
     (if action = ''pause''
      then (case pause jid ts m of ((result, e), evs, m1) \<Rightarrow> Some (command_response result e [], evs, m1, w))
      else if action = ''resume''
      then (case resume jid ts m of ((result, e), evs, m1) \<Rightarrow> Some (command_response result e [], evs, m1, w))
      else if action = ''cancel''
      then (case cancel jid ts m w of ((result, e), evs, m1, w1) \<Rightarrow> Some (command_response result e [], evs, m1, w1))
      else
        case retry jid now_ms ts m w of
          None \<Rightarrow> None
        | Some ((result, e, new_job_id), evs, m1, w1) \<Rightarrow>
            Some (command_response result e (if result = Ok then job_id_body new_job_id else []), evs, m1, w1))"

definition route_request :: "Request \<Rightarrow> int \<Rightarrow> int \<Rightarrow> manager \<Rightarrow> world \<Rightarrow> routed" where
  "route_request request now_ms ts m w =
     (let seg = path_segments (req_target request) in
      if length seg = 1 \<and> seg ! 0 = ''healthz''
      then Some (if req_method request \<noteq> ''GET'' \<and> req_method request \<noteq> ''HEAD''
                 then method_not_allowed ''GET, HEAD'' else make_response 200 status_ok_body, [], m, w)
      else if length seg = 2 \<and> seg ! 0 = ''api'' \<and> seg ! 1 = ''jobs''
      then
        (if req_method request \<noteq> ''POST'' then Some (method_not_allowed ''POST'', [], m, w)
         else route_submit (req_body request) now_ms ts m w)
      else if length seg = 4 \<and> seg ! 0 = ''api'' \<and> seg ! 1 = ''jobs''
      then
        (if seg ! 3 \<notin> {''pause'', ''resume'', ''cancel'', ''retry''} then Some (error_response 404 ''no such route'', [], m, w)
         else if req_method request \<noteq> ''POST'' then Some (method_not_allowed ''POST'', [], m, w)
         else if seg ! 2 = [] then Some (error_response 400 ''job id is empty'', [], m, w)
         else route_action (seg ! 2) (seg ! 3) now_ms ts m w)
      else Some (error_response 404 ''no such route'', [], m, w))"

end
