(* ===== verification/Server.thy ===== *)
theory Server
  imports Prelude "HOL-Library.Signed_Division"
begin

text \<open>
  The socket layer (\<open>cpp/src/server.cpp\<close>): the listening socket, bounded reads and writes, and the
  accept loop with its pool of handler threads. What the kernel answers is a parameter: a
  \<open>net\<close> for the calls that set a socket up, a list of events for the bytes that arrive or can be
  sent. An exhausted list is a peer that stays silent until the deadline expires. The threads
  share \<open>pool\<close> under one mutex; each critical section is a function of it, and the theory
  \<open>Server_Laws\<close> interleaves them.
\<close>

section \<open>The listening socket\<close>

datatype family = Inet | Inet6 | OtherFamily

record net =
  net_pton4 :: "string \<Rightarrow> bool"
  net_pton6 :: "string \<Rightarrow> bool"
  net_socket :: "string + int"
  net_reuseaddr :: "string option"
  net_bind :: "string option"
  net_listen :: "string option"
  net_getsockname :: "string + family \<times> nat"
  net_socketpair :: "string + int \<times> int"

record ListenSocket =
  ls_fd :: int
  ls_port :: nat

definition new_ListenSocket :: ListenSocket where
  "new_ListenSocket = \<lparr>ls_fd = -1, ls_port = 0\<rparr>"

definition listen_is_open :: "ListenSocket \<Rightarrow> bool" where
  "listen_is_open ls \<longleftrightarrow> ls_fd ls \<ge> 0"

text \<open>\<open>ListenSocket::close\<close>, with the descriptors it closes.\<close>

definition listen_close :: "ListenSocket \<Rightarrow> ListenSocket \<times> int list" where
  "listen_close ls =
     (if ls_fd ls \<ge> 0 then (ls\<lparr>ls_fd := -1, ls_port := 0\<rparr>, [ls_fd ls]) else (ls\<lparr>ls_port := 0\<rparr>, []))"

definition port_from :: "family \<times> nat \<Rightarrow> nat option" where
  "port_from ss = (case fst ss of Inet \<Rightarrow> Some (snd ss) | Inet6 \<Rightarrow> Some (snd ss) | OtherFamily \<Rightarrow> None)"

definition bind_family :: "string \<Rightarrow> net \<Rightarrow> family option" where
  "bind_family bind_address nt =
     (if net_pton4 nt (c_str bind_address) then Some Inet
      else if net_pton6 nt (c_str bind_address) then Some Inet6
      else None)"

text \<open>\<open>ListenSocket::open\<close>: the result, the socket afterwards and the descriptors closed on the way.\<close>

definition listen_open ::
  "string \<Rightarrow> nat \<Rightarrow> int \<Rightarrow> net \<Rightarrow> ListenSocket \<Rightarrow> unit res \<times> ListenSocket \<times> int list" where
  "listen_open bind_address port backlog nt ls =
     (let where = bind_address @ '':'' @ nat_dec port @ '': '' in
      if listen_is_open ls then (Inl ''server: listen socket is already open'', ls, [])
      else if bind_address = [] then (Inl ''server: bind address is empty'', ls, [])
      else if backlog \<le> 0 then (Inl ''server: backlog must be positive'', ls, [])
      else case bind_family bind_address nt of
        None \<Rightarrow> (Inl (''server: bind address '' @ QUOTE @ bind_address @ QUOTE @
            '' is not a numeric IPv4 or IPv6 address. Names are not resolved: a service that resolves its own bind '' @
            ''address can be moved to another interface by whoever controls the name, and the bind still succeeds.''), ls, [])
      | Some _ \<Rightarrow>
         (case net_socket nt of
            Inl e \<Rightarrow> (Inl (''server: socket: '' @ e), ls, [])
          | Inr sock \<Rightarrow>
             (case net_reuseaddr nt of
                Some e \<Rightarrow> (Inl (''server: setsockopt SO_REUSEADDR: '' @ e), ls, [sock])
              | None \<Rightarrow>
                 (case net_bind nt of
                    Some e \<Rightarrow> (Inl (''server: cannot bind '' @ where @ e), ls, [sock])
                  | None \<Rightarrow>
                     (case net_listen nt of
                        Some e \<Rightarrow> (Inl (''server: cannot listen on '' @ where @ e), ls, [sock])
                      | None \<Rightarrow>
                         (case net_getsockname nt of
                            Inl e \<Rightarrow> (Inl (''server: getsockname: '' @ e), ls, [sock])
                          | Inr ss \<Rightarrow>
                             (case port_from ss of
                                None \<Rightarrow> (Inl ''server: bound socket has an unexpected address family'', ls, [sock])
                              | Some actual \<Rightarrow> (Inr (), ls\<lparr>ls_fd := sock, ls_port := actual\<rparr>, []))))))))"

section \<open>Bounded reads and writes\<close>

datatype IoResult = IoOk | PeerClosed | TimedOut | IoError

text \<open>What \<open>recv\<close> meets: bytes that have arrived (none: the peer has closed), a signal, the
  deadline, another failure.\<close>

datatype recv_event = Data string | RecvInterrupted | RecvWouldBlock | RecvFailed

fun recv_loop :: "nat \<Rightarrow> recv_event list \<Rightarrow> IoResult \<times> string \<times> recv_event list" where
  "recv_loop capacity [] = (TimedOut, [], [])"
| "recv_loop capacity (Data d # es) =
     (if d = [] then (PeerClosed, [], es)
      else (IoOk, take capacity d, if drop capacity d = [] then es else Data (drop capacity d) # es))"
| "recv_loop capacity (RecvInterrupted # es) = recv_loop capacity es"
| "recv_loop capacity (RecvWouldBlock # es) = (TimedOut, [], es)"
| "recv_loop capacity (RecvFailed # es) = (IoError, [], es)"

definition read_some :: "nat \<Rightarrow> recv_event list \<Rightarrow> IoResult \<times> string \<times> recv_event list" where
  "read_some capacity es = (if capacity = 0 then (IoError, [], es) else recv_loop capacity es)"

text \<open>What is left of a stream.\<close>

fun stream_size :: "recv_event list \<Rightarrow> nat" where
  "stream_size [] = 0"
| "stream_size (Data d # es) = Suc (length d) + stream_size es"
| "stream_size (_ # es) = Suc (stream_size es)"

lemma recv_loop_shrinks: "recv_loop cap es = (IoOk, got, es') \<Longrightarrow> 0 < cap \<Longrightarrow> stream_size es' < stream_size es"
  by (induction cap es rule: recv_loop.induct) (auto split: if_splits)

lemma read_some_shrinks: "read_some cap es = (IoOk, got, es') \<Longrightarrow> stream_size es' < stream_size es"
  by (auto simp: read_some_def split: if_splits dest: recv_loop_shrinks)

text \<open>What \<open>send\<close> meets: room for so many bytes, a signal, the deadline, another failure.\<close>

datatype send_event = Room nat | SendInterrupted | SendWouldBlock | SendFailed

text \<open>The result and the bytes that were sent.\<close>

fun write_all :: "send_event list \<Rightarrow> string \<Rightarrow> IoResult \<times> string" where
  "write_all es [] = (IoOk, [])"
| "write_all [] data = (TimedOut, [])"
| "write_all (Room n # es) data =
     (if n = 0 then (IoError, [])
      else case write_all es (drop n data) of (r, sent) \<Rightarrow> (r, take n data @ sent))"
| "write_all (SendInterrupted # es) data = write_all es data"
| "write_all (SendWouldBlock # es) data = (TimedOut, [])"
| "write_all (SendFailed # es) data = (IoError, [])"

section \<open>The pool\<close>

definition kServiceUnavailable :: string where
  "kServiceUnavailable =
     ''HTTP/1.1 503 Service Unavailable'' @ [CR, LF] @
     ''Content-Type: application/json'' @ [CR, LF] @
     ''Content-Length: 58'' @ [CR, LF] @
     ''Connection: close'' @ [CR, LF] @
     [CR, LF] @
     ''{'' @ DQ # ''error'' @ DQ # '':'' @ DQ # ''all connection handlers are busy; retry shortly'' @ DQ # ''}''"

text \<open>The seconds and microseconds a deadline is set to.\<close>

definition set_deadline :: "int \<Rightarrow> int \<times> int" where
  "set_deadline milliseconds = (milliseconds sdiv 1000, milliseconds smod 1000 * 1000)"

record ServerOptions =
  so_handlers :: nat
  so_recv_timeout_ms :: int
  so_send_timeout_ms :: int

definition default_ServerOptions :: ServerOptions where
  "default_ServerOptions = \<lparr>so_handlers = 4, so_recv_timeout_ms = 5000, so_send_timeout_ms = 5000\<rparr>"

record pool =
  p_listener :: ListenSocket
  p_options :: ServerOptions
  p_wake :: "(int \<times> int) option"
  p_queued :: "int list"
  p_idle :: nat
  p_stopping :: bool
  p_running :: bool
  p_served :: nat
  p_rejected :: nat

definition new_pool :: pool where
  "new_pool = \<lparr>p_listener = new_ListenSocket, p_options = default_ServerOptions, p_wake = None, p_queued = [], p_idle = 0,
     p_stopping = False, p_running = False, p_served = 0, p_rejected = 0\<rparr>"

text \<open>The critical section of the accept loop: is the connection handed to the pool?\<close>

definition accept_connection :: "int \<Rightarrow> pool \<Rightarrow> bool \<times> pool" where
  "accept_connection conn p =
     (if \<not> p_stopping p \<and> p_idle p > 0
      then (True, p\<lparr>p_idle := p_idle p - 1, p_queued := p_queued p @ [conn], p_served := p_served p + 1\<rparr>)
      else (False, p\<lparr>p_rejected := p_rejected p + 1\<rparr>))"

text \<open>One round of \<open>run_acceptor\<close>, from what \<open>poll\<close> and \<open>accept4\<close> answer: does the thread go on, and which
  connection was refused and closed, with what was sent on it. Both deadlines are set on an
  accepted descriptor before it goes anywhere.\<close>

datatype poll_event = PollInterrupted | PollFailed | Woken | NotReadable | AcceptFailed | Accepted int

definition set_deadlines :: "ServerOptions \<Rightarrow> (int \<times> int) \<times> (int \<times> int)" where
  "set_deadlines options = (set_deadline (so_recv_timeout_ms options), set_deadline (so_send_timeout_ms options))"

fun acceptor_round :: "poll_event \<Rightarrow> pool \<Rightarrow> bool \<times> (int \<times> string) option \<times> pool" where
  "acceptor_round PollInterrupted p = (True, None, p)"
| "acceptor_round PollFailed p = (False, None, p)"
| "acceptor_round Woken p = (False, None, p)"
| "acceptor_round NotReadable p = (True, None, p)"
| "acceptor_round AcceptFailed p = (True, None, p)"
| "acceptor_round (Accepted conn) p =
     (case accept_connection conn p of
        (True, p') \<Rightarrow> (True, None, p')
      | (False, p') \<Rightarrow> (True, Some (conn, kServiceUnavailable), p'))"

text \<open>A handler's wait, its exit, the connection it takes and the slot it gives back.\<close>

definition handler_ready :: "pool \<Rightarrow> bool" where
  "handler_ready p \<longleftrightarrow> p_queued p \<noteq> [] \<or> p_stopping p"

definition handler_exits :: "pool \<Rightarrow> bool" where
  "handler_exits p \<longleftrightarrow> handler_ready p \<and> p_queued p = []"

definition handler_take :: "pool \<Rightarrow> int \<times> pool" where
  "handler_take p = (hd (p_queued p), p\<lparr>p_queued := tl (p_queued p)\<rparr>)"

definition handler_release :: "pool \<Rightarrow> pool" where
  "handler_release p = p\<lparr>p_idle := p_idle p + 1\<rparr>"

text \<open>\<open>start\<close> with a handler: the number of handler threads to spawn, the pool, and the descriptors
  closed on the way.\<close>

definition kDefaultBacklog :: int where
  "kDefaultBacklog = 64"

definition server_start ::
  "string \<Rightarrow> nat \<Rightarrow> ServerOptions \<Rightarrow> bool \<Rightarrow> net \<Rightarrow> pool \<Rightarrow> nat res \<times> pool \<times> int list" where
  "server_start bind_address port options has_handler nt p =
     (if p_running p then (Inl ''server: already running'', p, [])
      else if so_handlers options = 0 then (Inl ''server: handler count must be at least 1'', p, [])
      else if so_recv_timeout_ms options \<le> 0 \<or> so_send_timeout_ms options \<le> 0
      then (Inl ''server: receive and send timeouts must be positive'', p, [])
      else if \<not> has_handler then (Inl ''server: no connection handler supplied'', p, [])
      else case listen_open bind_address port kDefaultBacklog nt (p_listener p) of
        (Inl e, ls, closed) \<Rightarrow> (Inl e, p\<lparr>p_listener := ls\<rparr>, closed)
      | (Inr _, ls, closed) \<Rightarrow>
         (case net_socketpair nt of
            Inl e \<Rightarrow>
              (case listen_close ls of (ls1, closed1) \<Rightarrow>
                 (Inl (''server: socketpair: '' @ e), p\<lparr>p_listener := ls1\<rparr>, closed @ closed1))
          | Inr wake \<Rightarrow>
              (Inr (so_handlers options),
               p\<lparr>p_listener := ls, p_wake := Some wake, p_options := options, p_idle := so_handlers options,
                 p_stopping := False, p_running := True, p_served := 0, p_rejected := 0\<rparr>, closed)))"

text \<open>The overload that takes the number of handlers, and the accessors.\<close>

definition server_start_handlers ::
  "string \<Rightarrow> nat \<Rightarrow> nat \<Rightarrow> bool \<Rightarrow> net \<Rightarrow> pool \<Rightarrow> nat res \<times> pool \<times> int list" where
  "server_start_handlers bind_address port handlers has_handler nt p =
     server_start bind_address port (default_ServerOptions\<lparr>so_handlers := handlers\<rparr>) has_handler nt p"

definition server_is_running :: "pool \<Rightarrow> bool" where
  "server_is_running p = p_running p"

definition served_count :: "pool \<Rightarrow> nat" where
  "served_count p = p_served p"

definition rejected_count :: "pool \<Rightarrow> nat" where
  "rejected_count p = p_rejected p"

text \<open>\<open>shutdown\<close> up to the joins, and after them, with the descriptors it closes.\<close>

definition server_shutdown_begin :: "pool \<Rightarrow> pool" where
  "server_shutdown_begin p = (if \<not> p_running p then p else p\<lparr>p_stopping := True, p_running := False\<rparr>)"

definition close_wake :: "pool \<Rightarrow> pool \<times> int list" where
  "close_wake p = (p\<lparr>p_wake := None\<rparr>, case p_wake p of None \<Rightarrow> [] | Some (r, w) \<Rightarrow> [r, w])"

definition server_shutdown_finish :: "pool \<Rightarrow> pool \<times> int list" where
  "server_shutdown_finish p =
     (case listen_close (p_listener p) of (ls, closed) \<Rightarrow>
     (case close_wake (p\<lparr>p_listener := ls\<rparr>) of (p1, closed1) \<Rightarrow>
        (p1\<lparr>p_queued := []\<rparr>, closed @ closed1 @ p_queued p1)))"

text \<open>The call as a whole, once the threads have drained the queue and been joined.\<close>

definition server_shutdown :: "pool \<Rightarrow> pool \<times> int list" where
  "server_shutdown p = (if \<not> p_running p then (p, []) else server_shutdown_finish (server_shutdown_begin p))"

end
