(* ===== verification/Http_Service.thy ===== *)
theory Http_Service
  imports Router Server
begin

text \<open>
  One connection from its first byte to its reply (\<open>cpp/src/http_service.cpp\<close>). The bytes the peer
  sends are the events of the theory \<open>Server\<close>. The two read loops end because every successful
  read consumes part of them. What the connection did is a record: the reply, if one was written,
  the bytes read, the events published and the state of the manager and the world.
\<close>

record HttpServiceOptions =
  max_head_bytes :: nat
  max_body_bytes :: nat

definition default_HttpServiceOptions :: HttpServiceOptions where
  "default_HttpServiceOptions = \<lparr>max_head_bytes = 8 * 1024, max_body_bytes = 64 * 1024\<rparr>"

definition refusal :: "int \<Rightarrow> string \<Rightarrow> Response" where
  "refusal status message = new_Response\<lparr>resp_status := status, resp_body := encode_error message\<rparr>"

text \<open>The loop that reads the head: the refusal or silence it ends with, or the request, the length
  of its head and the buffer. The last component is what is left of the stream.\<close>

datatype head_end = Refused Response | Silent | Headed Request nat

function read_head :: "nat \<Rightarrow> string \<Rightarrow> recv_event list \<Rightarrow> head_end \<times> string \<times> recv_event list" where
  "read_head max_head buffer es = (case parse_request_head buffer max_head of
     HeadOk request head_len \<Rightarrow> (Headed request head_len, buffer, es)
   | Bad e \<Rightarrow> (Refused (refusal 400 e), buffer, es)
   | TooLarge _ \<Rightarrow> (Refused (refusal 431 ''request head exceeds the permitted size''), buffer, es)
   | NeedMore \<Rightarrow>
      (case read_some 2048 es of
         (IoOk, got, es1) \<Rightarrow> read_head max_head (buffer @ got) es1
       | (_, _, es1) \<Rightarrow> (Silent, buffer, es1)))"
  by pat_completeness auto
termination
  by (relation "measure (\<lambda>(_, _, es). stream_size es)") (auto dest: read_some_shrinks [OF sym])

declare read_head.simps [simp del]

text \<open>The loop that reads the rest of the body: the buffer, or a stream that ended early.\<close>

function read_body :: "nat \<Rightarrow> string \<Rightarrow> recv_event list \<Rightarrow> bool \<times> string \<times> recv_event list" where
  "read_body remaining buffer es =
     (if remaining = 0 then (True, buffer, es)
      else case read_some (if remaining < 4096 then remaining else 4096) es of
        (IoOk, got, es1) \<Rightarrow> read_body (remaining - length got) (buffer @ got) es1
      | (_, _, es1) \<Rightarrow> (False, buffer, es1))"
  by pat_completeness auto
termination
  by (relation "measure (\<lambda>(_, _, es). stream_size es)") (auto dest: read_some_shrinks [OF sym])

declare read_body.simps [simp del]

record served =
  sv_reply :: "Response option"
  sv_bytes_read :: nat
  sv_events :: "Event list"
  sv_manager :: manager
  sv_world :: world

text \<open>\<open>serve_connection\<close>; \<open>None\<close> only for a manual retry that does not end.\<close>

definition serve_connection ::
  "HttpServiceOptions \<Rightarrow> recv_event list \<Rightarrow> int \<Rightarrow> int \<Rightarrow> manager \<Rightarrow> world \<Rightarrow> served option" where
  "serve_connection options es now_ms ts m w =
     (let answer = (\<lambda>reply buffer.
            \<lparr>sv_reply = reply, sv_bytes_read = length buffer, sv_events = [], sv_manager = m, sv_world = w\<rparr>) in
      case read_head (max_head_bytes options) [] es of
        (Silent, buffer, _) \<Rightarrow> Some (answer None buffer)
      | (Refused r, buffer, _) \<Rightarrow> Some (answer (Some r) buffer)
      | (Headed request head_len, buffer, es1) \<Rightarrow>
         (case content_length_for request (max_body_bytes options) of
            Inl (status, e) \<Rightarrow> Some (answer (Some (refusal status e)) buffer)
          | Inr declared \<Rightarrow>
             (let arrived = length buffer - head_len in
              if arrived > declared
              then Some (answer (Some (refusal 400 ''unexpected bytes after the declared body'')) buffer)
              else
                case read_body (declared - arrived) buffer es1 of
                  (False, buffer1, _) \<Rightarrow>
                    Some (answer (Some (refusal 400 ''body shorter than the declared length'')) buffer1)
                | (True, buffer1, _) \<Rightarrow>
                   (case route_request (request\<lparr>req_body := substr head_len declared buffer1\<rparr>) now_ms ts m w of
                      None \<Rightarrow> None
                    | Some (r, evs, m1, w1) \<Rightarrow>
                        Some \<lparr>sv_reply = Some r, sv_bytes_read = length buffer1, sv_events = evs, sv_manager = m1, sv_world = w1\<rparr>))))"

text \<open>\<open>reply\<close>: the bytes that reach the peer.\<close>

definition reply :: "send_event list \<Rightarrow> Response \<Rightarrow> string" where
  "reply es r = snd (write_all es (serialize_response r))"

end
