(* ===== verification/Fsops_Laws.thy ===== *)
theory Fsops_Laws
  imports Fsops
begin

text \<open>
  The laws of the file system layer: what each operation does to the names of an object.
  The security properties hold against any environment; the exact effects are stated for
  a quiet one, with arbitrary failing calls.
\<close>

section \<open>Names\<close>

lemma plain_name_nul_free: "is_plain_name n \<Longrightarrow> nul_free n"
  by (simp add: is_plain_name_def find_char_None nul_free_def)

lemma reject_bad_name_None [simp]: "reject_bad_name n = None \<longleftrightarrow> is_plain_name n"
  by (simp add: reject_bad_name_def)

lemma reject_plain [simp]: "is_plain_name n \<Longrightarrow> reject_bad_name n = None"
  by simp

lemma reject_bad_name_Some: "reject_bad_name n = Some e \<Longrightarrow> \<not> is_plain_name n \<and> e \<noteq> []"
  by (auto simp: reject_bad_name_def split: if_splits)

lemma errno_message_nonempty [msg_nonempty, simp]: "errno_message what e w \<noteq> []"
  by (simp add: errno_message_def)

lemma fs_msgs_nonempty [msg_nonempty, simp]: "not_open_dir_msg \<noteq> []" "changed_msg n a b \<noteq> []"
  by (simp_all add: not_open_dir_msg_def changed_msg_def)

lemma kind_from_mode_not_Missing [simp]: "kind_from_mode m \<noteq> Missing"
  by (simp add: kind_from_mode_def)

lemma has_type_unique: "has_type m s \<Longrightarrow> has_type m t \<Longrightarrow> s = t"
  by (simp add: has_type_def)

lemma kind_Regular_iff: "kind_from_mode m = Regular \<longleftrightarrow> has_type m S_IFREG"
  by (simp add: kind_from_mode_def)

lemma regular_not_dir: "has_type m S_IFREG \<Longrightarrow> \<not> has_type m S_IFDIR"
  by (auto simp: has_type_def mode_defs)

lemma regular_not_link: "has_type m S_IFREG \<Longrightarrow> \<not> has_type m S_IFLNK"
  by (auto simp: has_type_def mode_defs)

section \<open>System calls in a quiet environment\<close>

lemma kcall_ticked: "quiet w \<Longrightarrow> kcall w = (r, w') \<Longrightarrow> ticked w w'"
  by (auto simp: kcall_quiet)

lemma kcall_fault_free: "quiet w \<Longrightarrow> fault_free w \<Longrightarrow> kcall w = (None, w\<lparr>w_tick := Suc (w_tick w)\<rparr>)"
  by (simp add: kcall_quiet fault_free_def)

lemma quiet_tick [simp]: "quiet (w\<lparr>w_tick := n\<rparr>) \<longleftrightarrow> quiet w"
  by (simp add: quiet_def)

lemma honest_tick [simp]: "honest (w\<lparr>w_tick := n\<rparr>) \<longleftrightarrow> honest w"
  by (simp add: honest_def)

lemma quiet_fs [simp]: "quiet (w\<lparr>w_fs := f\<rparr>) \<longleftrightarrow> quiet w"
  by (simp add: quiet_def)

lemma ticked_quiet: "ticked w w' \<Longrightarrow> quiet w \<Longrightarrow> quiet w'"
  and ticked_honest: "ticked w w' \<Longrightarrow> honest w \<Longrightarrow> honest w'"
  and ticked_fault_free: "ticked w w' \<Longrightarrow> fault_free w \<Longrightarrow> fault_free w'"
  by (auto dest!: tickedD(4) intro: same_env_quiet same_env_honest same_env_fault_free)

text \<open>\<open>fs_step w w'\<close>: between \<open>w\<close> and \<open>w'\<close> at most the file system changed, and of it only
  directory entries.\<close>

definition fs_step :: "world \<Rightarrow> world \<Rightarrow> bool" where
  "fs_step w w' \<longleftrightarrow> w_db w' = w_db w \<and> w_dbfile w' = w_dbfile w \<and> same_env w w' \<and>
     fs_stat (w_fs w') = fs_stat (w_fs w) \<and> fs_roots (w_fs w') = fs_roots (w_fs w)"

lemma fs_step_ticked: "ticked w w' \<Longrightarrow> fs_step w w'"
  by (simp add: fs_step_def tickedD)

lemma fs_step_trans: "fs_step u v \<Longrightarrow> fs_step v w \<Longrightarrow> fs_step u w"
  by (auto simp: fs_step_def intro: same_env_trans)

section \<open>Read-only operations\<close>

lemma open_root_cases:
  assumes "open_root path w = ((res, h), w')" and "quiet w"
  obtains (failed) e where "res = Inl e" "e \<noteq> []" "h = None" "ticked w w'"
  | (opened) d where "res = Inr ()" "h = Some d" "fs_roots (w_fs w) (c_str path) = Some d" "ticked w w'"
proof (cases "w_fault w (w_tick w)")
  case (Some e)
  with assms show thesis by (auto simp: open_root_def sys_open_dir_def kcall_quiet intro: failed)
next
  case f: None
  show thesis
  proof (cases "fs_roots (w_fs w) (c_str path)")
    case None
    with assms f show thesis by (auto simp: open_root_def sys_open_dir_def kcall_quiet intro: failed)
  next
    case (Some d)
    show thesis
    proof (cases "has_type (st_mode (fs_stat (w_fs w) d)) S_IFDIR")
      case True
      with assms f Some have "res = Inr ()" "h = Some d" "ticked w w'"
        by (auto simp: open_root_def sys_open_dir_def kcall_quiet)
      with Some show thesis by (intro opened)
    next
      case False
      with assms f Some show thesis by (auto simp: open_root_def sys_open_dir_def kcall_quiet intro: failed)
    qed
  qed
qed

lemma open_root_fault_free:
  assumes "quiet w" and "fault_free w" and "fs_roots (w_fs w) (c_str path) = Some d"
    and "has_type (st_mode (fs_stat (w_fs w) d)) S_IFDIR"
  shows "open_root path w = ((Inr (), Some d), w\<lparr>w_tick := Suc (w_tick w)\<rparr>)"
  using assms by (simp add: open_root_def sys_open_dir_def kcall_fault_free)

text \<open>What a name is bound to, as \<open>classify\<close> reports it.\<close>

definition identity_at :: "fsys \<Rightarrow> objid \<Rightarrow> string \<Rightarrow> FileIdentity" where
  "identity_at fs d n = (case fs_at fs d n of None \<Rightarrow> new_FileIdentity | Some ob \<Rightarrow> identity_of ob (fs_stat fs ob))"

lemma identity_at_Missing [simp]: "fi_kind (identity_at fs d n) = Missing \<longleftrightarrow> fs_at fs d n = None"
  by (simp add: identity_at_def new_FileIdentity_def identity_of_def split: option.splits)

lemma same_object_at:
  "fs_at fs d n = Some ob \<Longrightarrow> fs_at fs d' n' = Some ob' \<Longrightarrow>
    same_object_as (identity_at fs d n) (identity_at fs d' n') \<longleftrightarrow> ob = ob'"
  by (cases ob; cases ob') (auto simp: identity_at_def same_object_as_def identity_of_def)

lemma classify_cases:
  assumes "classify dir name w = (res, w')" and "quiet w"
  obtains (failed) e where "res = Inl e" "e \<noteq> []" "ticked w w'"
  | (answered) d where "res = Inr (identity_at (w_fs w) d name)" "dir = Some d" "is_plain_name name" "ticked w w'"
  | (lied) d where "res = Inr new_FileIdentity" "dir = Some d" "is_plain_name name" "ticked w w'" "\<not> honest w"
proof (cases dir)
  case None
  with assms show thesis by (auto simp: classify_def intro: failed)
next
  case (Some d)
  show thesis
  proof (cases "is_plain_name name")
    case False
    then obtain e where "reject_bad_name name = Some e" and "e \<noteq> []"
      by (cases "reject_bad_name name") (auto dest: reject_bad_name_Some)
    with assms Some show thesis by (auto simp: classify_def intro: failed)
  next
    case True
    then have n: "c_str name = name" "reject_bad_name name = None" by (simp_all add: plain_name_nul_free)
    show thesis
    proof (cases "w_fault w (w_tick w)")
      case None
      with assms Some n True have "res = Inr (identity_at (w_fs w) d name)" "ticked w w'"
        by (auto simp: classify_def sys_fstatat_def kcall_quiet identity_at_def split: option.splits)
      with Some True show thesis by (intro answered)
    next
      case (Some e)
      with assms \<open>dir = Some d\<close> n have r: "ticked w w'"
        "res = (if e = ENOENT then Inr new_FileIdentity
           else Inl (errno_message (''cannot stat '' @ QUOTE @ name @ QUOTE) e w'))"
        by (auto simp: classify_def sys_fstatat_def kcall_quiet split: if_splits)
      show thesis
      proof (cases "e = ENOENT")
        case True
        with r Some \<open>dir = Some d\<close> \<open>is_plain_name name\<close> show thesis by (intro lied) (auto simp: honest_def)
      next
        case False
        with r show thesis by (intro failed) auto
      qed
    qed
  qed
qed

lemma classify_ticked: "classify dir name w = (res, w') \<Longrightarrow> quiet w \<Longrightarrow> ticked w w'"
  by (erule classify_cases) auto

text \<open>An entry seen is there; in an honest environment an entry not seen is not.\<close>

lemma classify_seen:
  assumes "classify dir name w = (Inr fi, w')" and "quiet w" and "fi_kind fi \<noteq> Missing"
  shows "\<exists>d ob. dir = Some d \<and> is_plain_name name \<and> fs_at (w_fs w) d name = Some ob \<and>
    fi = identity_of ob (fs_stat (w_fs w) ob)"
  using assms(1,2) by (cases rule: classify_cases)
    (use assms(3) in \<open>auto simp: new_FileIdentity_def identity_at_def split: option.splits\<close>)

lemma classify_honest:
  assumes "classify dir name w = (Inr fi, w')" and "quiet w" and "honest w"
  shows "\<exists>d. dir = Some d \<and> is_plain_name name \<and> fi = identity_at (w_fs w) d name"
  using assms(1,2) by (cases rule: classify_cases) (use assms(3) in auto)

lemma classify_fault_free:
  assumes "quiet w" and "fault_free w" and "is_plain_name name"
  shows "classify (Some d) name w = (Inr (identity_at (w_fs w) d name), w\<lparr>w_tick := Suc (w_tick w)\<rparr>)"
  using assms by (auto simp: classify_def sys_fstatat_def kcall_fault_free identity_at_def
      plain_name_nul_free split: option.splits)

lemma open_regular_ticked: "open_regular dir name ex w = (res, w') \<Longrightarrow> quiet w \<Longrightarrow> ticked w w'"
  by (auto simp: open_regular_def sys_openat_def sys_fstat_def kcall_quiet
      split: option.splits if_splits sum.splits prod.splits)

lemma open_regular_fault_free:
  assumes "quiet w" and "fault_free w" and "is_plain_name name" and "fs_at (w_fs w) d name = Some ob"
    and "has_type (st_mode (fs_stat (w_fs w) ob)) S_IFREG"
  shows "open_regular (Some d) name (identity_at (w_fs w) d name) w = (Inr ob, w\<lparr>w_tick := w_tick w + 2\<rparr>)"
proof -
  have "fi_kind (identity_at (w_fs w) d name) = Regular"
    using assms(4,5) by (simp add: identity_at_def identity_of_def kind_Regular_iff)
  moreover have "same_object_as (identity_of ob (fs_stat (w_fs w) ob)) (identity_at (w_fs w) d name)"
    using assms(4) by (simp add: identity_at_def same_object_as_def)
  ultimately show ?thesis using assms regular_not_link [OF assms(5)]
    by (simp add: open_regular_def sys_openat_def sys_fstat_def kcall_fault_free plain_name_nul_free)
qed

section \<open>Operations that move names\<close>

text \<open>One object went from one name to another and nothing else changed.\<close>

definition fs_moved :: "objid \<Rightarrow> string \<Rightarrow> objid \<Rightarrow> string \<Rightarrow> objid \<Rightarrow> fsys \<Rightarrow> fsys \<Rightarrow> bool" where
  "fs_moved sd sn td tn ob fs fs' \<longleftrightarrow> fs_at fs sd sn = Some ob \<and>
     (\<forall>d n. fs_at fs' d n = (if d = td \<and> n = tn then Some ob
                             else if d = sd \<and> n = sn then None else fs_at fs d n))"

lemma renameat2_cases:
  assumes "sys_renameat2 sd sn td tn w = (r, w')" and "quiet w" and "nul_free sn" and "nul_free tn"
  obtains (failed) e where "r = Some e" "ticked w w'"
  | (moved) ob where "r = None" "fs_at (w_fs w) td tn = None" "fs_moved sd sn td tn ob (w_fs w) (w_fs w')"
      "fs_step w w'"
proof (cases r)
  case (Some e)
  with assms have "ticked w w'"
    by (auto simp: sys_renameat2_def kcall_quiet split: option.splits if_splits)
  with Some show thesis by (rule failed)
next
  case None
  with assms obtain ob where ob: "fs_at (w_fs w) sd sn = Some ob" "fs_at (w_fs w) td tn = None"
    and w': "w' = w\<lparr>w_tick := Suc (w_tick w), w_fs := fs_set td tn ob (fs_del sd sn (w_fs w))\<rparr>"
    by (auto simp: sys_renameat2_def kcall_quiet split: option.splits if_splits)
  from None ob show thesis
    by (intro moved [of ob]) (auto simp: w' fs_moved_def fs_step_def same_env_def)
qed

lemma linkat_cases:
  assumes "sys_linkat sd sn td tn w = (r, w')" and "quiet w" and "nul_free sn" and "nul_free tn"
  obtains (failed) e where "r = Some e" "ticked w w'"
  | (linked) ob where "r = None" "fs_at (w_fs w) sd sn = Some ob" "fs_at (w_fs w) td tn = None"
      "w_fs w' = fs_set td tn ob (w_fs w)" "fs_step w w'"
proof (cases r)
  case (Some e)
  with assms have "ticked w w'"
    by (auto simp: sys_linkat_def kcall_quiet split: option.splits if_splits)
  with Some show thesis by (rule failed)
next
  case None
  with assms obtain ob where ob: "fs_at (w_fs w) sd sn = Some ob" "fs_at (w_fs w) td tn = None"
    and w': "w' = w\<lparr>w_tick := Suc (w_tick w), w_fs := fs_set td tn ob (w_fs w)\<rparr>"
    by (auto simp: sys_linkat_def kcall_quiet split: option.splits if_splits)
  from None ob show thesis
    by (intro linked [of ob]) (auto simp: w' fs_step_def same_env_def)
qed

lemma unlinkat_cases:
  assumes "sys_unlinkat d n w = (r, w')" and "quiet w" and "nul_free n"
  obtains (failed) e where "r = Some e" "ticked w w'"
  | (unlinked) "r = None" "w_fs w' = fs_del d n (w_fs w)" "fs_step w w'"
proof (cases r)
  case (Some e)
  with assms have "ticked w w'"
    by (auto simp: sys_unlinkat_def kcall_quiet split: option.splits if_splits)
  with Some show thesis by (rule failed)
next
  case None
  with assms have w': "w' = w\<lparr>w_tick := Suc (w_tick w), w_fs := fs_del d n (w_fs w)\<rparr>"
    by (auto simp: sys_unlinkat_def kcall_quiet split: option.splits if_splits)
  from None show thesis
    by (intro unlinked) (auto simp: w' fs_step_def same_env_def)
qed

lemma renameat_cases:
  assumes "sys_renameat sd sn td tn w = (r, w')" and "quiet w" and "nul_free sn" and "nul_free tn"
  obtains (failed) e where "r = Some e" "ticked w w'"
  | (same) ob where "r = None" "fs_at (w_fs w) sd sn = Some ob" "fs_at (w_fs w) td tn = Some ob" "ticked w w'"
  | (moved) ob where "r = None" "fs_at (w_fs w) td tn \<noteq> Some ob"
      "fs_moved sd sn td tn ob (w_fs w) (w_fs w')" "fs_step w w'"
proof (cases r)
  case (Some e)
  with assms have "ticked w w'"
    by (auto simp: sys_renameat_def kcall_quiet Let_def split: option.splits if_splits)
  with Some show thesis by (rule failed)
next
  case None
  with assms obtain ob where ob: "fs_at (w_fs w) sd sn = Some ob"
    and w': "w' = (if fs_at (w_fs w) td tn = Some ob then w\<lparr>w_tick := Suc (w_tick w)\<rparr>
      else w\<lparr>w_tick := Suc (w_tick w), w_fs := fs_set td tn ob (fs_del sd sn (w_fs w))\<rparr>)"
    by (auto simp: sys_renameat_def kcall_quiet Let_def split: option.splits if_splits)
  show thesis
  proof (cases "fs_at (w_fs w) td tn = Some ob")
    case True
    with None ob w' show thesis by (intro same [of ob]) auto
  next
    case False
    with None ob show thesis
      by (intro moved [of ob]) (auto simp: w' fs_moved_def fs_step_def same_env_def)
  qed
qed

lemma move_within_refused:
  assumes "\<not> (src \<noteq> None \<and> dst \<noteq> None \<and> is_plain_name a \<and> is_plain_name b)"
  shows "\<exists>e. e \<noteq> [] \<and> move_within src a dst b st w = (Inl e, w)"
  using assms
  by (cases src; cases dst; cases "reject_bad_name a"; cases "reject_bad_name b")
     (simp_all add: move_within_def reject_bad_name_Some)

lemma publish_refused:
  assumes "\<not> (dir \<noteq> None \<and> is_plain_name a \<and> is_plain_name b)"
  shows "\<exists>e. e \<noteq> [] \<and> publish dir a b w = (Inl e, w)"
  using assms
  by (cases dir; cases "reject_bad_name a"; cases "reject_bad_name b")
     (simp_all add: publish_def reject_bad_name_Some)

lemma move_within_cases:
  assumes "move_within src from_name dst to_name st w = (res, w')" and q: "quiet w"
  obtains (refused) e where "res = Inl e" "e \<noteq> []" "ticked w w'"
  | (half) e sd td ob where "res = Inl e" "e \<noteq> []" "st = LinkThenUnlink" "src = Some sd" "dst = Some td"
      "fs_at (w_fs w) sd from_name = Some ob" "fs_at (w_fs w) td to_name = None"
      "w_fs w' = fs_set td to_name ob (w_fs w)" "fs_step w w'"
  | (moved) sd td ob where "res = Inr ()" "src = Some sd" "dst = Some td" "fs_at (w_fs w) td to_name = None"
      "fs_moved sd from_name td to_name ob (w_fs w) (w_fs w')" "fs_step w w'"
proof (cases "src \<noteq> None \<and> dst \<noteq> None \<and> is_plain_name from_name \<and> is_plain_name to_name")
  case False
  from move_within_refused [OF False, of st w] assms show thesis by (auto intro: refused)
next
  case True
  then obtain sd td where dirs: "src = Some sd" "dst = Some td" by auto
  from True have plain: "reject_bad_name from_name = None" "reject_bad_name to_name = None"
    and nf: "nul_free from_name" "nul_free to_name" by (simp_all add: plain_name_nul_free)
  show thesis
  proof (cases st)
    case RenameNoReplace
    obtain r w1 where r: "sys_renameat2 sd from_name td to_name w = (r, w1)" by fastforce
    from r q nf show thesis
    proof (cases rule: renameat2_cases)
      case (failed e)
      with assms dirs plain r RenameNoReplace show thesis by (auto simp: move_within_def intro: refused)
    next
      case (moved ob)
      with assms dirs plain r RenameNoReplace have "res = Inr ()" "w' = w1" by (auto simp: move_within_def)
      with moved dirs show thesis by (intro that(3)) auto
    qed
  next
    case LinkThenUnlink
    obtain r w1 where r: "sys_linkat sd from_name td to_name w = (r, w1)" by fastforce
    obtain r2 w2 where r2: "sys_unlinkat sd from_name w1 = (r2, w2)" by fastforce
    from r q nf show thesis
    proof (cases rule: linkat_cases)
      case (failed e)
      with assms dirs plain r LinkThenUnlink show thesis by (auto simp: move_within_def intro: refused)
    next
      case (linked ob)
      then have q1: "quiet w1" using q by (auto simp: fs_step_def intro: same_env_quiet)
      from r2 q1 nf(1) show thesis
      proof (cases rule: unlinkat_cases)
        case (failed e)
        have "\<exists>m. m \<noteq> [] \<and> move_within src from_name dst to_name st w = (Inl m, w2)"
          by (simp add: move_within_def dirs plain r r2 LinkThenUnlink linked(1) failed(1))
        with assms(1) have "\<exists>e. res = Inl e \<and> e \<noteq> []" "w' = w2" by auto
        moreover from linked failed have "fs_step w w2" by (blast intro: fs_step_trans fs_step_ticked)
        moreover from linked failed have "w_fs w2 = fs_set td to_name ob (w_fs w)" by (simp add: tickedD)
        ultimately show thesis using linked dirs LinkThenUnlink half [of _ sd td ob] by blast
      next
        case unlinked
        have "move_within src from_name dst to_name st w = (Inr (), w2)"
          by (simp add: move_within_def dirs plain r r2 LinkThenUnlink linked(1) unlinked(1))
        with assms(1) have res: "res = Inr ()" "w' = w2" by simp_all
        have "fs_moved sd from_name td to_name ob (w_fs w) (w_fs w')"
          using linked unlinked res by (auto simp: fs_moved_def)
        with res dirs linked unlinked show thesis by (intro that(3)) (auto intro: fs_step_trans)
      qed
    qed
  qed
qed

lemma publish_cases:
  assumes "publish dir temp final w = (res, w')" and q: "quiet w"
  obtains (refused) e where "res = Inl e" "e \<noteq> []" "ticked w w'"
  | (renamed) d ob where "\<And>e. res = Inl e \<Longrightarrow> e \<noteq> []" "dir = Some d" "fs_at (w_fs w) d temp = Some ob"
      "fs_at (w_fs w) d final \<noteq> Some ob" "fs_moved d temp d final ob (w_fs w) (w_fs w')" "fs_step w w'"
  | (same) d ob where "\<And>e. res = Inl e \<Longrightarrow> e \<noteq> []" "dir = Some d" "fs_at (w_fs w) d temp = Some ob"
      "fs_at (w_fs w) d final = Some ob" "ticked w w'"
proof (cases "dir \<noteq> None \<and> is_plain_name temp \<and> is_plain_name final")
  case False
  from publish_refused [OF False, of w] assms show thesis by (auto intro: refused)
next
  case True
  then obtain d where d: "dir = Some d" by auto
  from True have plain: "reject_bad_name temp = None" "reject_bad_name final = None"
    and nf: "nul_free temp" "nul_free final" by (simp_all add: plain_name_nul_free)
  obtain r1 w1 where r1: "sys_openat d temp w = (r1, w1)" by fastforce
  obtain r2 w2 where r2: "sys_fsync w1 = (r2, w2)" by fastforce
  obtain r3 w3 where r3: "sys_renameat d temp d final w2 = (r3, w3)" by fastforce
  obtain r4 w4 where r4: "sys_fsync w3 = (r4, w4)" by fastforce
  have t1: "ticked w w1"
    using r1 q by (auto simp: sys_openat_def kcall_quiet split: option.splits if_splits)
  have t2: "ticked w1 w2" using r2 ticked_quiet [OF t1 q] by (auto simp: sys_fsync_def dest: kcall_ticked)
  note t12 = ticked_trans [OF t1 t2]
  have res: "(res, w') = (case r1 of
       Inl e \<Rightarrow> (Inl (errno_message (''cannot open '' @ QUOTE @ temp @ QUOTE @ '' to fsync'') e w1), w1)
     | Inr fd \<Rightarrow> (case r2 of
       Some e \<Rightarrow> (Inl (errno_message (''fsync of '' @ QUOTE @ temp @ QUOTE) e w2), w2)
     | None \<Rightarrow> (case r3 of
       Some e \<Rightarrow> (Inl (errno_message (''publishing '' @ QUOTE @ temp @ QUOTE @ '' as '' @ QUOTE @ final @ QUOTE) e w3), w3)
     | None \<Rightarrow> (case r4 of
       Some e \<Rightarrow> (Inl (errno_message ''fsync of destination directory'' e w4), w4)
     | None \<Rightarrow> (Inr (), w4)))))"
    unfolding assms(1) [symmetric]
    by (simp add: publish_def d plain r1 r2 r3 r4 split: sum.split option.split)
  have q2: "quiet w2" using ticked_quiet [OF t12 q] .
  from r3 q2 nf show thesis
  proof (cases rule: renameat_cases)
    case (failed e)
    then have "\<exists>e. res = Inl e \<and> e \<noteq> []" and "ticked w w'"
      using res t1 t12 by (auto split: sum.splits option.splits intro: ticked_trans)
    then show thesis by (auto intro: refused)
  next
    case (moved ob)
    have t4: "ticked w3 w4"
      using r4 moved q2 by (auto simp: sys_fsync_def fs_step_def dest: kcall_ticked same_env_quiet)
    show thesis
    proof (cases "(\<exists>fd. r1 = Inr fd) \<and> r2 = None")
      case False
      then have "\<exists>e. res = Inl e \<and> e \<noteq> []" and "ticked w w'"
        using res t1 t12 by (auto split: sum.splits option.splits)
      then show thesis by (auto intro: refused)
    next
      case True
      then have ww: "w' = w4" and ne: "\<And>e. res = Inl e \<Longrightarrow> e \<noteq> []"
        using res moved by (auto split: option.splits)
      have "fs_step w w'" unfolding ww
        using t12 moved(4) t4 by (blast intro: fs_step_trans fs_step_ticked)
      with moved ne d t12 t4 ww show thesis
        by (intro that(2) [of d ob]) (auto simp: tickedD fs_moved_def)
    qed
  next
    case (same ob)
    have t4: "ticked w3 w4"
      using r4 ticked_quiet [OF same(4) q2] by (auto simp: sys_fsync_def dest: kcall_ticked)
    show thesis
    proof (cases "(\<exists>fd. r1 = Inr fd) \<and> r2 = None")
      case False
      then have "\<exists>e. res = Inl e \<and> e \<noteq> []" and "ticked w w'"
        using res t1 t12 by (auto split: sum.splits option.splits)
      then show thesis by (auto intro: refused)
    next
      case True
      then have ww: "w' = w4" and ne: "\<And>e. res = Inl e \<Longrightarrow> e \<noteq> []"
        using res same by (auto split: option.splits)
      have "ticked w w'" unfolding ww using t12 same(4) t4 by (blast intro: ticked_trans)
      with same ne d t12 show thesis by (intro that(3) [of d ob]) (auto simp: tickedD)
    qed
  qed
qed

section \<open>Success without failing calls\<close>

lemma move_within_succeeds:
  assumes "quiet w" and "fault_free w" and "is_plain_name sn" and "is_plain_name tn" and "fst sd = fst td"
    and "fs_at (w_fs w) sd sn = Some ob" and "fs_at (w_fs w) td tn = None"
    and "has_type (st_mode (fs_stat (w_fs w) ob)) S_IFREG"
  shows "fst (move_within (Some sd) sn (Some td) tn st w) = Inr ()"
proof -
  have nf: "c_str sn = sn" "c_str tn = tn" using assms(3,4) by (simp_all add: plain_name_nul_free)
  note nd = regular_not_dir [OF assms(8)]
  have k: "kcall w = (None, w\<lparr>w_tick := Suc (w_tick w)\<rparr>)"
    using assms(1,2) by (rule kcall_fault_free)
  show ?thesis
  proof (cases st)
    case RenameNoReplace
    with assms nf k show ?thesis by (simp add: move_within_def sys_renameat2_def)
  next
    case LinkThenUnlink
    have "sys_linkat sd sn td tn w =
        (None, w\<lparr>w_tick := Suc (w_tick w), w_fs := fs_set td tn ob (w_fs w)\<rparr>)" (is "_ = (None, ?w1)")
      using assms nf nd k by (simp add: sys_linkat_def)
    moreover have "fault_free ?w1" using assms(2) by (simp add: fault_free_def)
    then have "fst (sys_unlinkat sd sn ?w1) = None"
      using assms nf nd kcall_fault_free [of ?w1] by (auto simp: sys_unlinkat_def)
    ultimately show ?thesis using assms(3,4) LinkThenUnlink
      by (cases "sys_unlinkat sd sn ?w1") (simp add: move_within_def)
  qed
qed

lemma publish_succeeds:
  assumes "quiet w" and "fault_free w" and "is_plain_name t" and "is_plain_name f"
    and "fs_at (w_fs w) d t = Some ob" and "has_type (st_mode (fs_stat (w_fs w) ob)) S_IFREG"
    and "\<And>x. fs_at (w_fs w) d f = Some x \<Longrightarrow> \<not> has_type (st_mode (fs_stat (w_fs w) x)) S_IFDIR"
  shows "fst (publish (Some d) t f w) = Inr ()"
proof -
  have nf: "c_str t = t" "c_str f = f" using assms(3,4) by (simp_all add: plain_name_nul_free)
  note reg = regular_not_dir [OF assms(6)] regular_not_link [OF assms(6)]
  have ff: "fault_free (w\<lparr>w_tick := n\<rparr>)" if "w_tick w \<le> n" for n using assms(2) that by simp
  have o: "sys_openat d t w = (Inr ob, w\<lparr>w_tick := Suc (w_tick w)\<rparr>)"
    using assms nf reg by (simp add: sys_openat_def kcall_fault_free)
  have s: "sys_fsync (w\<lparr>w_tick := Suc (w_tick w)\<rparr>) = (None, w\<lparr>w_tick := w_tick w + 2\<rparr>)"
    using assms(1) ff [of "Suc (w_tick w)"] by (simp add: sys_fsync_def kcall_fault_free)
  let ?w2 = "w\<lparr>w_tick := w_tick w + 2\<rparr>"
  have w2: "quiet ?w2" "fault_free ?w2" using assms(1) ff by simp_all
  have "fst (sys_renameat d t d f ?w2) = None"
  proof (cases "fs_at (w_fs w) d f")
    case None
    then show ?thesis using assms(5) nf kcall_fault_free [OF w2] by (simp add: sys_renameat_def Let_def)
  next
    case (Some x)
    with assms(5,7) nf reg kcall_fault_free [OF w2] show ?thesis by (simp add: sys_renameat_def Let_def)
  qed
  then obtain w3 where r: "sys_renameat d t d f ?w2 = (None, w3)"
    by (cases "sys_renameat d t d f ?w2") auto
  from r w2(1) plain_name_nul_free [OF assms(3)] plain_name_nul_free [OF assms(4)] have "same_env ?w2 w3"
    by (cases rule: renameat_cases) (auto simp: fs_step_def tickedD)
  with w2 have w3: "quiet w3" "fault_free w3" by (auto intro: same_env_quiet same_env_fault_free)
  have "fst (sys_fsync w3) = None" using w3 by (simp add: sys_fsync_def kcall_fault_free)
  then show ?thesis using assms(3,4) o s r
    by (cases "sys_fsync w3") (simp add: publish_def)
qed

section \<open>Path components\<close>

fun components :: "string \<Rightarrow> string list" where
  "components [] = [[]]"
| "components (c # cs) = (if c = CHR ''/'' then [] # components cs
     else case components cs of [] \<Rightarrow> [[c]] | x # xs \<Rightarrow> (c # x) # xs)"

lemma components_not_Nil [simp]: "components s \<noteq> []"
  by (cases s) (auto split: list.splits)

lemma components_find:
  "components s = (case find_char (CHR ''/'') s of
     None \<Rightarrow> [s] | Some i \<Rightarrow> take i s # components (drop (Suc i) s))"
proof (induction s)
  case (Cons c cs)
  then show ?case by (cases "find_char (CHR ''/'') cs") auto
qed simp

lemma dotdot_from_components:
  "start \<le> length path \<Longrightarrow> dotdot_from path start \<longleftrightarrow> ''..'' \<in> set (components (drop start path))"
proof (induction path start rule: dotdot_from.induct)
  case (1 path start)
  show ?case
  proof (cases "find_char (CHR ''/'') (drop start path)")
    case None
    moreover have "\<not> dotdot_from path (Suc (length path))" by (simp add: dotdot_from.simps)
    ultimately show ?thesis using "1.prems"
      by (subst dotdot_from.simps) (auto simp: components_find [of "drop start path"] substr_def)
  next
    case (Some i)
    then have i: "start + i < length path" by (auto dest: find_char_SomeD)
    have ih: "take i (drop start path) \<noteq> ''..'' \<Longrightarrow> dotdot_from path (Suc (start + i)) \<longleftrightarrow>
        ''..'' \<in> set (components (drop (Suc (start + i)) path))"
      using "1.IH" [OF "1.prems" refl] i Some by (simp add: substr_def)
    from Some i ih show ?thesis
      by (subst dotdot_from.simps)
         (auto simp: components_find [of "drop start path"] substr_def add.commute)
  qed
qed

lemma find_control_None: "find_control i s = None \<longleftrightarrow> (\<forall>c \<in> set s. \<not> is_control c)"
  by (induction s arbitrary: i) auto

lemma validate_accepts:
  "validate_external_path p = Inr () \<longleftrightarrow>
     p \<noteq> [] \<and> hd p = CHR ''/'' \<and> (\<forall>c \<in> set p. \<not> is_control c) \<and> ''..'' \<notin> set (components p)"
  using dotdot_from_components [of 0 p] find_control_None [of 0 p]
  by (auto simp: validate_external_path_def hd_conv_nth split: option.splits)

lemma validate_error: "validate_external_path p = Inl e \<Longrightarrow> e \<noteq> []"
  by (auto simp: validate_external_path_def split: if_splits option.splits)

section \<open>Directory listings\<close>

lemma read_loop_names:
  assumes "read_loop d es out w = (Inr res, w')"
  shows "map de_name res = map de_name out @ filter (\<lambda>n. n \<noteq> ''.'' \<and> n \<noteq> ''..'') (map fst es)"
  using assms
proof (induction es arbitrary: out w)
  case Nil
  then show ?case by (auto split: prod.splits option.splits)
next
  case (Cons e es)
  obtain n t where e: "e = (n, t)" by fastforce
  from Cons.prems e obtain w1 where "kcall w = (None, w1)" by (auto split: prod.splits option.splits)
  with Cons.prems e Cons.IH show ?case
    by (auto split: prod.splits if_splits)
qed

lemma entry_kind_quiet: "quiet w \<Longrightarrow> entry_kind d n t w = (k, w') \<Longrightarrow> ticked w w'"
  by (auto simp: entry_kind_def sys_fstatat_def kcall_quiet split: option.splits if_splits)

lemma entry_kind_fault_free:
  assumes "quiet w" and "fault_free w" and "fs_at (w_fs w) d n = Some ob" and "nul_free n"
    and "t \<noteq> 0 \<Longrightarrow> kind_from_dtype t = Some (kind_from_mode (st_mode (fs_stat (w_fs w) ob)))"
  shows "fst (entry_kind d n t w) = kind_from_mode (st_mode (fs_stat (w_fs w) ob))"
  using assms by (cases "t = 0")
    (auto simp: entry_kind_def kind_from_dtype_def sys_fstatat_def kcall_fault_free split: option.splits)

lemma read_loop_kinds:
  assumes "quiet w" and "fault_free w"
    and "\<forall>(n, t) \<in> set es. n = ''.'' \<or> n = ''..'' \<or> nul_free n \<and> (\<exists>ob. fs_at (w_fs w) d n = Some ob \<and>
          (t \<noteq> 0 \<longrightarrow> kind_from_dtype t = Some (kind_from_mode (st_mode (fs_stat (w_fs w) ob)))))"
  shows "\<exists>res. fst (read_loop d es out w) = Inr (out @ res) \<and>
    (\<forall>x \<in> set res. de_kind x = fi_kind (identity_at (w_fs w) d (de_name x)))"
  using assms
proof (induction es arbitrary: out w)
  case Nil
  then show ?case by (auto simp: kcall_fault_free)
next
  case (Cons e es)
  obtain n t where e: "e = (n, t)" by fastforce
  let ?w1 = "w\<lparr>w_tick := Suc (w_tick w)\<rparr>"
  have k: "kcall w = (None, ?w1)" using Cons.prems(1,2) by (rule kcall_fault_free)
  have w1: "quiet ?w1" "fault_free ?w1" using Cons.prems(1,2) by simp_all
  show ?case
  proof (cases "n = ''.'' \<or> n = ''..''")
    case True
    with Cons.IH [OF w1, of out] Cons.prems(3) k e show ?thesis by auto
  next
    case False
    then obtain ob where ob: "nul_free n" "fs_at (w_fs w) d n = Some ob"
      "t \<noteq> 0 \<longrightarrow> kind_from_dtype t = Some (kind_from_mode (st_mode (fs_stat (w_fs w) ob)))"
      using Cons.prems(3) e by auto
    obtain kd w2 where ek: "entry_kind d n t ?w1 = (kd, w2)" by fastforce
    have kd: "kd = kind_from_mode (st_mode (fs_stat (w_fs w) ob))"
      using entry_kind_fault_free [OF w1, of d n ob t] ob ek by simp
    have t2: "ticked ?w1 w2" using w1(1) ek by (rule entry_kind_quiet)
    then have w2: "quiet w2" "fault_free w2" "w_fs w2 = w_fs w"
      using w1 by (auto intro: ticked_quiet ticked_fault_free simp: tickedD)
    from Cons.IH [OF w2(1,2), of "out @ [\<lparr>de_name = n, de_kind = kd\<rparr>]"] Cons.prems(3) w2(3)
    obtain res where "fst (read_loop d es (out @ [\<lparr>de_name = n, de_kind = kd\<rparr>]) w2) =
        Inr ((out @ [\<lparr>de_name = n, de_kind = kd\<rparr>]) @ res)"
      and "\<forall>x \<in> set res. de_kind x = fi_kind (identity_at (w_fs w) d (de_name x))" by auto
    moreover have "kd = fi_kind (identity_at (w_fs w) d n)"
      using kd ob(2) by (simp add: identity_at_def identity_of_def)
    ultimately show ?thesis using k e False ek
      by (intro exI [of _ "\<lparr>de_name = n, de_kind = kd\<rparr> # res"]) auto
  qed
qed

section \<open>The state of a move\<close>

lemma classify_move_state_spec:
  assumes "classify_move_state (Some sd) sn (Some td) tn w = (res, w')" and "quiet w" and "honest w"
  shows "(\<forall>st. res = Inr st \<longrightarrow>
      st = (case (fs_at (w_fs w) sd sn, fs_at (w_fs w) td tn) of
         (Some a, Some b) \<Rightarrow> (if a = b then Interrupted else Collision)
       | (Some a, None) \<Rightarrow> NotStarted
       | (None, Some b) \<Rightarrow> Completed
       | (None, None) \<Rightarrow> BothMissing)) \<and>
    w_fs w' = w_fs w \<and> w_db w' = w_db w \<and>
    (fault_free w \<longrightarrow> is_plain_name sn \<longrightarrow> is_plain_name tn \<longrightarrow> (\<exists>st. res = Inr st))"
proof -
  obtain r1 w1 where c1: "classify (Some sd) sn w = (r1, w1)" by fastforce
  obtain r2 w2 where c2: "classify (Some td) tn w1 = (r2, w2)" by fastforce
  have t1: "ticked w w1" using c1 assms(2) by (rule classify_ticked)
  then have q1: "quiet w1" "honest w1" using assms(2,3) by (auto intro: ticked_quiet ticked_honest)
  have t2: "ticked w1 w2" using c2 q1(1) by (rule classify_ticked)
  have res: "(res, w') = (case r1 of Inl e \<Rightarrow> (Inl e, w1) | Inr a \<Rightarrow> (case r2 of Inl e \<Rightarrow> (Inl e, w2)
     | Inr b \<Rightarrow> (Inr (if fi_kind a \<noteq> Missing \<and> fi_kind b \<noteq> Missing
          then (if same_object_as a b then Interrupted else Collision)
          else if fi_kind a \<noteq> Missing then NotStarted
          else if fi_kind b \<noteq> Missing then Completed else BothMissing), w2)))"
    unfolding assms(1) [symmetric]
    by (simp add: classify_move_state_def c1 c2 Let_def split: sum.split)
  have a: "a = identity_at (w_fs w) sd sn" if "r1 = Inr a" for a
    using classify_honest [of "Some sd" sn w a w1] c1 assms(2,3) that by auto
  have b: "b = identity_at (w_fs w) td tn" if "r2 = Inr b" for b
    using classify_honest [of "Some td" tn w1 b w2] c2 q1 that t1 by (auto simp: tickedD)
  have "st = (case (fs_at (w_fs w) sd sn, fs_at (w_fs w) td tn) of
         (Some a, Some b) \<Rightarrow> (if a = b then Interrupted else Collision)
       | (Some a, None) \<Rightarrow> NotStarted | (None, Some b) \<Rightarrow> Completed | (None, None) \<Rightarrow> BothMissing)"
    if st: "res = Inr st" for st
  proof -
    obtain x y where "r1 = Inr x" "r2 = Inr y" using res st by (auto split: sum.splits)
    with res st a b show ?thesis
      by (cases "fs_at (w_fs w) sd sn"; cases "fs_at (w_fs w) td tn") (simp_all add: same_object_at)
  qed
  moreover have "\<exists>st. res = Inr st" if "fault_free w" "is_plain_name sn" "is_plain_name tn"
    using res classify_fault_free [OF assms(2) that(1,2), of sd] c1
      classify_fault_free [OF q1(1) ticked_fault_free [OF t1 that(1)] that(3), of td] c2 by auto
  moreover have "w' = w1 \<or> w' = w2" using res by (auto split: sum.splits)
  ultimately show ?thesis using t1 t2 by (auto simp: tickedD)
qed

section \<open>Properties\<close>

text \<open>A concrete file system: /in and /out are directories of one device, /in holds the
  regular file a and the symbolic link l.\<close>

definition ex_fs :: fsys where
  "ex_fs = \<lparr>fs_roots = [''/in'' \<mapsto> (3, 10), ''/out'' \<mapsto> (3, 20)],
     fs_dents = (\<lambda>d. if d = (3, 10) then [(''a'', (3, 11)), (''l'', (3, 12))] else []),
     fs_stat = (\<lambda>ob. if ob = (3, 11) then \<lparr>st_mode = 0x81A4, st_uid = 7\<rparr>
                    else if ob = (3, 12) then \<lparr>st_mode = 0xA1FF, st_uid = 7\<rparr>
                    else \<lparr>st_mode = 0x41ED, st_uid = 0\<rparr>)\<rparr>"

definition ex_world :: world where
  "ex_world = \<lparr>w_fs = ex_fs, w_db = empty_db, w_dbfile = False, w_tick = 0, w_fault = (\<lambda>_. None),
     w_dbfault = (\<lambda>_. None), w_env = (\<lambda>_ fs. fs), w_strerror = (\<lambda>_. ''error'')\<rparr>"

lemma ex_world_facts [simp]: "quiet ex_world" "honest ex_world" "fault_free ex_world" "w_fs ex_world = ex_fs"
  by (simp_all add: ex_world_def quiet_def honest_def fault_free_def)

lemma ex_names [simp]: "is_plain_name ''a''" "is_plain_name ''b''" "is_plain_name ''l''" "nul_free ''a''"
  by (simp_all add: is_plain_name_def nul_free_def)

lemma ex_fs_at [simp]:
  "fs_at ex_fs (3, 10) ''a'' = Some (3, 11)" "fs_at ex_fs (3, 10) ''l'' = Some (3, 12)"
  "fs_at ex_fs (3, 20) n = None"
  by (simp_all add: ex_fs_def fs_at_def)

lemma ex_fs_stat [simp]:
  "fs_stat ex_fs (3, 11) = \<lparr>st_mode = 0x81A4, st_uid = 7\<rparr>"
  "fs_stat ex_fs (3, 12) = \<lparr>st_mode = 0xA1FF, st_uid = 7\<rparr>"
  "fs_stat ex_fs (3, 10) = \<lparr>st_mode = 0x41ED, st_uid = 0\<rparr>"
  "fs_stat ex_fs (3, 20) = \<lparr>st_mode = 0x41ED, st_uid = 0\<rparr>"
  by (simp_all add: ex_fs_def)

lemma ex_types [simp]: "has_type 0x81A4 S_IFREG" "has_type 0xA1FF S_IFLNK" "has_type 0x41ED S_IFDIR"
  by (simp_all add: has_type_def mode_defs)

text \<open>C13. No swap between classification and open (L2-SEC-002): whatever other processes did
  between the two calls, if \<open>open_regular\<close> succeeds, its descriptor is the very object
  that \<open>classify\<close> found under the name, and it is a regular file.\<close>

theorem open_regular_no_swap:
  assumes "classify dir name w = (Inr fi, w1)" and "open_regular dir name fi w2 = (Inr fd, w3)"
  shows "\<exists>d. dir = Some d \<and> fs_at (w_fs w1) d name = Some fd \<and>
    has_type (st_mode (fs_stat (w_fs w3) fd)) S_IFREG"
proof -
  obtain d where d: "dir = Some d" and plain: "is_plain_name name" and reg: "fi_kind fi = Regular"
    and same: "same_object_as (identity_of fd (fs_stat (w_fs w3) fd)) fi"
    using assms(2) by (auto simp: open_regular_def sys_fstat_def split: option.splits if_splits
        prod.splits sum.splits)
  have "fs_at (w_fs w1) d name = Some (fi_dev fi, fi_ino fi)"
    using assms(1) d plain reg
    by (auto simp: classify_def sys_fstatat_def new_FileIdentity_def identity_of_def plain_name_nul_free
        split: prod.splits option.splits if_splits)
  with d same reg show ?thesis
    by (cases fd) (auto simp: same_object_as_def identity_of_def kind_Regular_iff)
qed

theorem open_regular_no_swap_witness:
  "\<exists>fi w1 w3. classify (Some (3, 10)) ''a'' ex_world = (Inr fi, w1) \<and>
     open_regular (Some (3, 10)) ''a'' fi w1 = (Inr (3, 11), w3) \<and> fs_at (w_fs w1) (3, 10) ''a'' = Some (3, 11)"
proof -
  let ?fi = "identity_at ex_fs (3, 10) ''a''" and ?w1 = "ex_world\<lparr>w_tick := Suc (w_tick ex_world)\<rparr>"
  have c: "classify (Some (3, 10)) ''a'' ex_world = (Inr ?fi, ?w1)"
    using classify_fault_free [of ex_world "''a''" "(3, 10)"] by simp
  have o: "open_regular (Some (3, 10)) ''a'' ?fi ?w1 = (Inr (3, 11), ?w1\<lparr>w_tick := w_tick ?w1 + 2\<rparr>)"
    using open_regular_fault_free [of ?w1 "''a''" "(3, 10)" "(3, 11)"] by simp
  from open_regular_no_swap [OF c o] c o show ?thesis by auto
qed

text \<open>C12. A move never clobbers (L2-SEC-007): if some object already has the target name when
  the first system call of \<open>move_within\<close> runs, the move fails and the file system is left
  exactly as the environment made it, whichever strategy is used.\<close>

theorem move_within_no_clobber:
  assumes "move_within (Some sd) sn (Some td) tn st w = (res, w')"
    and "fs_at (w_env w (w_tick w) (w_fs w)) td tn = Some x"
  shows "\<exists>e. res = Inl e \<and> e \<noteq> [] \<and> (w_fs w' = w_fs w \<or> w_fs w' = w_env w (w_tick w) (w_fs w))"
proof (cases "is_plain_name sn \<and> is_plain_name tn")
  case False
  with move_within_refused [of "Some sd" "Some td" sn tn st w] assms(1) show ?thesis by auto
next
  case True
  then have nf: "c_str sn = sn" "c_str tn = tn" by (simp_all add: plain_name_nul_free)
  have "\<exists>e. fst (sys_renameat2 sd sn td tn w) = Some e" "\<exists>e. fst (sys_linkat sd sn td tn w) = Some e"
    "w_fs (snd (sys_renameat2 sd sn td tn w)) = w_env w (w_tick w) (w_fs w)"
    "w_fs (snd (sys_linkat sd sn td tn w)) = w_env w (w_tick w) (w_fs w)"
    using assms(2) nf by (auto simp: sys_renameat2_def sys_linkat_def kcall_def split: option.splits)
  with True assms(1) show ?thesis
    by (cases st; cases "sys_renameat2 sd sn td tn w"; cases "sys_linkat sd sn td tn w")
       (auto simp: move_within_def)
qed

theorem move_within_no_clobber_witness:
  "\<exists>e. fst (move_within (Some (3, 10)) ''l'' (Some (3, 10)) ''a'' LinkThenUnlink ex_world) = Inl e \<and>
     w_fs (snd (move_within (Some (3, 10)) ''l'' (Some (3, 10)) ''a'' LinkThenUnlink ex_world)) = ex_fs"
proof -
  let ?p = "move_within (Some (3, 10)) ''l'' (Some (3, 10)) ''a'' LinkThenUnlink ex_world"
  have p: "?p = (fst ?p, snd ?p)" by simp
  have env: "w_env ex_world (w_tick ex_world) (w_fs ex_world) = ex_fs"
    using ex_world_facts(1) by (simp add: quiet_def)
  then have a: "fs_at (w_env ex_world (w_tick ex_world) (w_fs ex_world)) (3, 10) ''a'' = Some (3, 11)" by simp
  from move_within_no_clobber [OF p a] env show ?thesis by auto
qed

text \<open>C31. A move conserves the object: with failing calls at any point and no interference,
  \<open>move_within\<close> either succeeds, and then the object has exactly the target name, which
  was free; or it fails, and then the object still has its old name. No other name
  changes and nothing is written to the job store; without failing calls a regular file
  is always moved to a free name on the same device.\<close>

theorem move_within_conserves:
  assumes "move_within (Some sd) sn (Some td) tn st w = (res, w')" and "quiet w"
  shows "(case res of
      Inr _ \<Rightarrow> (\<exists>ob. fs_at (w_fs w) sd sn = Some ob \<and> fs_at (w_fs w) td tn = None \<and>
                  fs_at (w_fs w') td tn = Some ob \<and> fs_at (w_fs w') sd sn = None)
    | Inl e \<Rightarrow> fs_at (w_fs w') sd sn = fs_at (w_fs w) sd sn \<and>
         fs_at (w_fs w') td tn \<in> {fs_at (w_fs w) td tn, fs_at (w_fs w) sd sn}) \<and>
    (\<forall>d n. (d, n) \<noteq> (sd, sn) \<longrightarrow> (d, n) \<noteq> (td, tn) \<longrightarrow> fs_at (w_fs w') d n = fs_at (w_fs w) d n) \<and>
    w_db w' = w_db w \<and>
    (fault_free w \<longrightarrow> is_plain_name sn \<longrightarrow> is_plain_name tn \<longrightarrow> fst sd = fst td \<longrightarrow>
      (\<forall>ob. fs_at (w_fs w) sd sn = Some ob \<longrightarrow> fs_at (w_fs w) td tn = None \<longrightarrow>
         has_type (st_mode (fs_stat (w_fs w) ob)) S_IFREG \<longrightarrow> res = Inr ()))"
proof -
  have total: "fault_free w \<longrightarrow> is_plain_name sn \<longrightarrow> is_plain_name tn \<longrightarrow> fst sd = fst td \<longrightarrow>
      (\<forall>ob. fs_at (w_fs w) sd sn = Some ob \<longrightarrow> fs_at (w_fs w) td tn = None \<longrightarrow>
         has_type (st_mode (fs_stat (w_fs w) ob)) S_IFREG \<longrightarrow> res = Inr ())"
    using move_within_succeeds [OF assms(2), of sn tn sd td _ st] assms(1) by simp
  from assms show ?thesis
  proof (cases rule: move_within_cases)
    case (refused e)
    then show ?thesis by (intro conjI total) (auto simp: tickedD)
  next
    case (half e sd' td' ob)
    then show ?thesis by (intro conjI total) (auto simp: fs_step_def)
  next
    case (moved sd' td' ob)
    then have "\<not> (sd = td \<and> sn = tn)" by (auto simp: fs_moved_def)
    with moved show ?thesis by (intro conjI total) (auto simp: fs_step_def fs_moved_def)
  qed
qed

theorem move_within_conserves_witness:
  "fs_at (w_fs (snd (move_within (Some (3, 10)) ''a'' (Some (3, 20)) ''b'' LinkThenUnlink ex_world))) (3, 20) ''b''
     = Some (3, 11)"
proof -
  let ?p = "move_within (Some (3, 10)) ''a'' (Some (3, 20)) ''b'' LinkThenUnlink ex_world"
  have p: "?p = (fst ?p, snd ?p)" by simp
  from move_within_conserves [OF p] have "fst ?p = Inr ()" by simp
  with move_within_conserves [OF p] show ?thesis by auto
qed

text \<open>Recovery judges a move from the disk alone (L2-NFS-003, L2-SEC-011): in an honest
  environment \<open>classify_move_state\<close> tells exactly which of the two names exist and whether
  they are one object, and without failing calls it always answers.\<close>

theorem classify_move_state_exact:
  assumes "classify_move_state (Some sd) sn (Some td) tn w = (res, w')" and "quiet w" and "honest w"
  shows "(\<forall>st. res = Inr st \<longrightarrow>
      st = (case (fs_at (w_fs w) sd sn, fs_at (w_fs w) td tn) of
         (Some a, Some b) \<Rightarrow> (if a = b then Interrupted else Collision)
       | (Some a, None) \<Rightarrow> NotStarted
       | (None, Some b) \<Rightarrow> Completed
       | (None, None) \<Rightarrow> BothMissing)) \<and>
    w_fs w' = w_fs w \<and> w_db w' = w_db w \<and>
    (fault_free w \<longrightarrow> is_plain_name sn \<longrightarrow> is_plain_name tn \<longrightarrow> (\<exists>st. res = Inr st))"
  using assms by (rule classify_move_state_spec)

theorem classify_move_state_exact_witness:
  "fst (classify_move_state (Some (3, 10)) ''a'' (Some (3, 20)) ''b'' ex_world) = Inr NotStarted"
proof -
  let ?p = "classify_move_state (Some (3, 10)) ''a'' (Some (3, 20)) ''b'' ex_world"
  have p: "?p = (fst ?p, snd ?p)" by simp
  from classify_move_state_exact [OF p] show ?thesis by auto
qed

text \<open>C30. External paths (L2-SEC-006): \<open>validate_external_path\<close> accepts exactly the absolute
  paths without control characters none of whose components is \<open>..\<close>; a refusal always
  carries a diagnostic. Names such as my..file are accepted.\<close>

theorem validate_external_path_exact:
  "(validate_external_path p = Inr () \<longleftrightarrow>
      (\<exists>q. p = CHR ''/'' # q) \<and> set p \<inter> {c. byte c < 0x20 \<or> byte c = 0x7F} = {} \<and>
      ''..'' \<notin> set (components p)) \<and>
   validate_external_path p \<noteq> Inl []"
proof -
  have "set p \<inter> {c. byte c < 0x20 \<or> byte c = 0x7F} = {} \<longleftrightarrow> (\<forall>c \<in> set p. \<not> is_control c)"
    by (auto simp: is_control_def)
  moreover have "(\<exists>q. p = CHR ''/'' # q) \<longleftrightarrow> p \<noteq> [] \<and> hd p = CHR ''/''" by (cases p) simp_all
  ultimately show ?thesis using validate_accepts [of p] validate_error [of p "[]"] by blast
qed

text \<open>The source trust check (L2-SEC-005): \<open>check_source_trust\<close> passes exactly when both
  \<open>fstat\<close> calls succeed, the open descriptor is a regular file owned by the trusted user,
  and the directory is not world-writable unless it is sticky, each in the file system
  at the time of its own call.\<close>

theorem check_source_trust_exact:
  "fst (check_source_trust parent fd uid w) = Inr () \<longleftrightarrow>
    (\<exists>p. parent = Some p \<and> w_fault w (w_tick w) = None \<and> w_fault w (Suc (w_tick w)) = None \<and>
      (let fs1 = w_env w (w_tick w) (w_fs w); fs2 = w_env w (Suc (w_tick w)) fs1 in
       has_type (st_mode (fs_stat fs1 fd)) S_IFREG \<and> st_uid (fs_stat fs1 fd) = uid \<and>
       \<not> (st_mode (fs_stat fs2 p) AND S_IWOTH \<noteq> 0 \<and> st_mode (fs_stat fs2 p) AND S_ISVTX = 0)))"
  by (cases parent; cases "w_fault w (w_tick w)"; cases "w_fault w (Suc (w_tick w))")
     (simp_all add: check_source_trust_def sys_fstat_def kcall_def Let_def)

text \<open>Directory listings: \<open>read_entries\<close> returns every name of the directory once, in the
  order of the stream, never \<open>.\<close> or \<open>..\<close>; without failing calls the reported kinds are the
  true ones, also where the file system answers DT_UNKNOWN (as NFS does).\<close>

theorem read_entries_exact:
  assumes "quiet w" and "distinct (map fst (fs_dents (w_fs w) d))"
    and "\<forall>(n, ob) \<in> set (fs_dents (w_fs w) d). nul_free n \<and> n \<noteq> ''.'' \<and> n \<noteq> ''..''"
    and "read_entries dtype (Some d) w = (res, w')"
  shows "(\<forall>out. res = Inr out \<longrightarrow> map de_name out = map fst (fs_dents (w_fs w) d)) \<and>
    (fault_free w \<longrightarrow> (\<forall>ob. dtype ob = 0 \<or> kind_from_dtype (dtype ob) =
         Some (kind_from_mode (st_mode (fs_stat (w_fs w) ob)))) \<longrightarrow>
       (\<exists>out. res = Inr out \<and> (\<forall>x \<in> set out. de_kind x = fi_kind (identity_at (w_fs w) d (de_name x)))))"
proof (intro conjI allI impI)
  let ?es = "[(''.'', 4), (''..'', 4)] @ map (\<lambda>(n, ob). (n, dtype ob)) (fs_dents (w_fs w) d)"
  let ?w2 = "w\<lparr>w_tick := Suc (Suc (w_tick w))\<rparr>"
  fix out assume "res = Inr out"
  with assms(1,4) have "read_loop d ?es [] ?w2 = (Inr out, w')"
    by (auto simp: read_entries_def kcall_quiet split: option.splits)
  from read_loop_names [OF this] assms(3) show "map de_name out = map fst (fs_dents (w_fs w) d)"
    by (auto simp: comp_def case_prod_beta intro!: filter_True)
next
  let ?es = "[(''.'', 4), (''..'', 4)] @ map (\<lambda>(n, ob). (n, dtype ob)) (fs_dents (w_fs w) d)"
  let ?w2 = "w\<lparr>w_tick := Suc (Suc (w_tick w))\<rparr>"
  assume ff: "fault_free w" and dt: "\<forall>ob. dtype ob = 0 \<or> kind_from_dtype (dtype ob) =
         Some (kind_from_mode (st_mode (fs_stat (w_fs w) ob)))"
  have at: "fs_at (w_fs w) d n = Some ob" if "(n, ob) \<in> set (fs_dents (w_fs w) d)" for n ob
    using that assms(2) by (simp add: fs_at_def)
  have "\<forall>(n, t) \<in> set ?es. n = ''.'' \<or> n = ''..'' \<or> nul_free n \<and> (\<exists>ob. fs_at (w_fs ?w2) d n = Some ob \<and>
          (t \<noteq> 0 \<longrightarrow> kind_from_dtype t = Some (kind_from_mode (st_mode (fs_stat (w_fs ?w2) ob)))))"
  proof (rule ballI, rule case_prodI2)
    fix x n t assume "x \<in> set ?es" and "x = (n, t)"
    then consider "n = ''.'' \<or> n = ''..''" | ob where "(n, ob) \<in> set (fs_dents (w_fs w) d)" "t = dtype ob"
      by auto
    then show "n = ''.'' \<or> n = ''..'' \<or> nul_free n \<and> (\<exists>ob. fs_at (w_fs ?w2) d n = Some ob \<and>
          (t \<noteq> 0 \<longrightarrow> kind_from_dtype t = Some (kind_from_mode (st_mode (fs_stat (w_fs ?w2) ob)))))"
    proof cases
      case (2 ob)
      moreover have "nul_free n" using assms(3) 2(1) by fast
      moreover have "dtype ob = 0 \<or> kind_from_dtype (dtype ob) =
         Some (kind_from_mode (st_mode (fs_stat (w_fs w) ob)))" using dt by blast
      ultimately show ?thesis using at [OF 2(1)] by auto
    qed blast
  qed
  from read_loop_kinds [OF _ _ this, of "[]"] assms(1) ff
  have "\<exists>out. fst (read_loop d ?es [] ?w2) = Inr out \<and>
      (\<forall>x \<in> set out. de_kind x = fi_kind (identity_at (w_fs w) d (de_name x)))" by simp
  moreover have "fst (read_loop d ?es [] ?w2) = res"
    using assms(1,4) ff by (simp add: read_entries_def kcall_fault_free)
  ultimately show "\<exists>out. res = Inr out \<and> (\<forall>x \<in> set out. de_kind x = fi_kind (identity_at (w_fs w) d (de_name x)))"
    by simp
qed

theorem read_entries_exact_witness:
  "\<exists>out. fst (read_entries (\<lambda>_. 0) (Some (3, 10)) ex_world) = Inr out \<and> map de_name out = [''a'', ''l'']"
proof -
  let ?p = "read_entries (\<lambda>_. 0) (Some (3, 10)) ex_world"
  have p: "?p = (fst ?p, snd ?p)" by simp
  have d: "fs_dents (w_fs ex_world) (3, 10) = [(''a'', (3, 11)), (''l'', (3, 12))]"
    by (simp add: ex_fs_def)
  have dd: "distinct (map fst (fs_dents (w_fs ex_world) (3, 10)))"
    "\<forall>(n, ob) \<in> set (fs_dents (w_fs ex_world) (3, 10)). nul_free n \<and> n \<noteq> ''.'' \<and> n \<noteq> ''..''"
    unfolding d by (simp_all add: nul_free_def)
  note R = read_entries_exact [OF ex_world_facts(1) dd p]
  from R obtain out where out: "fst ?p = Inr out" using ex_world_facts(3) by blast
  with R have "map de_name out = map fst (fs_dents (w_fs ex_world) (3, 10))" by blast
  with out show ?thesis unfolding d by simp
qed

end
