(* ===== verification/Singleton.thy ===== *)
theory Singleton
  imports Fsops_Laws
begin

text \<open>
  The singleton lock (\<open>cpp/src/singleton.cpp\<close>). \<open>flock\<close> locks belong to the kernel: \<open>locks\<close> says
  which instance of the service holds the exclusive lock on which file. \<open>flock\<close> may also fail for
  another reason, which is the argument \<open>lock_error\<close>. The process id that \<open>acquire\<close> leaves in the
  file for an operator to read has no effect on the program and is left out.
\<close>

declare split_paired_All [simp del] split_paired_Ex [simp del]

section \<open>Operations\<close>

definition lock_path_for_database :: "string \<Rightarrow> (string \<times> string) res" where
  "lock_path_for_database database_path =
     (if database_path = [] then Inl ''singleton: database path is empty''
      else
        let (directory, name) = (case rfind_char (CHR ''/'') database_path of
              None \<Rightarrow> (''.'', database_path)
            | Some slash \<Rightarrow> (if slash = 0 then ''/'' else substr 0 slash database_path, drop (slash + 1) database_path))
        in
        if name = []
        then Inl (''singleton: database path '' @ QUOTE @ database_path @ QUOTE @ '' names a directory, not a file'')
        else Inr (directory, name @ ''.lock''))"

type_synonym locks = "objid \<Rightarrow> nat option"

text \<open>\<open>SingletonLock\<close>: the file it holds open and locked.\<close>

type_synonym SingletonLock = "objid option"

definition lock_is_held :: "SingletonLock \<Rightarrow> bool" where
  "lock_is_held l \<longleftrightarrow> l \<noteq> None"

definition lock_acquire ::
  "nat \<Rightarrow> string \<Rightarrow> objid \<Rightarrow> string option \<Rightarrow> SingletonLock \<Rightarrow> locks \<Rightarrow> world \<Rightarrow>
   unit res \<times> SingletonLock \<times> locks \<times> world" where
  "lock_acquire me database_path fresh lock_error l lks w =
     (if l \<noteq> None then (Inl ''singleton: lock is already held by this instance'', l, lks, w)
      else case lock_path_for_database database_path of
        Inl e \<Rightarrow> (Inl e, l, lks, w)
      | Inr (directory, name) \<Rightarrow>
         (let display = directory @ ''/'' @ name in
          case open_root directory w of
            ((Inl e, _), w1) \<Rightarrow> (Inl (''singleton: '' @ e), l, lks, w1)
          | ((Inr _, dir), w1) \<Rightarrow>
             (case open_lock_file fresh dir name w1 of
                (Inl e, w2) \<Rightarrow> (Inl (''singleton: '' @ e), l, lks, w2)
              | (Inr fd, w2) \<Rightarrow>
                 (case lock_error of
                    Some e \<Rightarrow> (Inl (''singleton: cannot lock '' @ QUOTE @ display @ QUOTE @ '': '' @ e), l, lks, w2)
                  | None \<Rightarrow>
                     (if lks fd \<noteq> None
                      then (Inl (''another instance is already running (lock held on '' @ display @ '')''), l, lks, w2)
                      else (Inr (), Some fd, lks(fd \<mapsto> me), w2))))))"

definition lock_release :: "SingletonLock \<Rightarrow> locks \<Rightarrow> SingletonLock \<times> locks" where
  "lock_release l lks = (case l of None \<Rightarrow> (None, lks) | Some fd \<Rightarrow> (None, lks(fd := None)))"

section \<open>Instances of the service\<close>

text \<open>Several instances, each with its own lock object, over one kernel and one world.\<close>

record instances =
  in_lock :: "nat \<Rightarrow> SingletonLock"
  in_locks :: locks
  in_world :: world

inductive inst_step :: "instances \<Rightarrow> instances \<Rightarrow> bool" where
  acquires: "lock_acquire i path fresh err (in_lock x i) (in_locks x) (in_world x) = (r, l, lks, w) \<Longrightarrow>
    inst_step x (x\<lparr>in_lock := (in_lock x)(i := l), in_locks := lks, in_world := w\<rparr>)"
| releases: "lock_release (in_lock x i) (in_locks x) = (l, lks) \<Longrightarrow>
    inst_step x (x\<lparr>in_lock := (in_lock x)(i := l), in_locks := lks\<rparr>)"

definition lock_inv :: "instances \<Rightarrow> bool" where
  "lock_inv x \<longleftrightarrow> (\<forall>i ob. in_lock x i = Some ob \<longleftrightarrow> in_locks x ob = Some i)"

lemma lock_path_error: "lock_path_for_database path = Inl e \<Longrightarrow> e \<noteq> []"
  by (auto simp: lock_path_for_database_def split: if_splits option.splits prod.splits)

lemma lock_acquire_cases:
  assumes "lock_acquire me path fresh err l lks w = (r, l', lks', w')"
  obtains (refused) e where "r = Inl e" "e \<noteq> []" "l' = l" "lks' = lks"
  | (taken) d n dir w1 fd where "r = Inr ()" "l = None" "l' = Some fd" "lks fd = None" "lks' = lks(fd \<mapsto> me)"
      "lock_path_for_database path = Inr (d, n)" "open_root d w = ((Inr (), dir), w1)"
      "open_lock_file fresh dir n w1 = (Inr fd, w')"
proof (cases "l = None")
  case False
  then show thesis using assms refused by (auto simp: lock_acquire_def)
next
  case free: True
  show thesis
  proof (cases "lock_path_for_database path")
    case (Inl e)
    then show thesis using assms free refused [of e] lock_path_error [OF Inl] by (simp add: lock_acquire_def)
  next
    case path: (Inr p)
    obtain d n where p: "p = (d, n)" by fastforce
    obtain rr dir w1 where root: "open_root d w = ((rr, dir), w1)" by (metis prod.collapse)
    obtain fr w2 where lk: "open_lock_file fresh dir n w1 = (fr, w2)" by fastforce
    note eq = assms [unfolded lock_acquire_def, unfolded free path p root lk Let_def sum.case prod.case]
    show thesis
    proof (cases rr)
      case (Inl e)
      then show thesis using eq root free by (auto intro!: refused)
    next
      case ok: (Inr u)
      show thesis
      proof (cases fr)
        case (Inl e)
        then show thesis using eq root lk ok free by (auto intro!: refused)
      next
        case (Inr fd)
        show thesis
        proof (cases "err = None \<and> lks fd = None")
          case True
          then have out: "r = Inr ()" "l' = Some fd" "lks' = lks(fd \<mapsto> me)" "w' = w2" using eq ok Inr by auto
          show thesis
            by (rule taken [of fd d n dir w1]) (use out True free root lk ok Inr p path in simp_all)
        next
          case False
          then obtain e where "r = Inl e" "e \<noteq> []" "l' = None" "lks' = lks"
            using eq ok Inr by (cases err) (auto split: if_split_asm)
          then show thesis using free by (intro refused) simp_all
        qed
      qed
    qed
  qed
qed

lemma lock_inv_step:
  assumes "inst_step x y" "lock_inv x"
  shows "lock_inv y"
  using assms(1)
proof cases
  case (acquires i path fresh err r l lks w)
  from acquires(2) show ?thesis
  proof (cases rule: lock_acquire_cases)
    case (refused e)
    then show ?thesis using acquires(1) assms(2) by (simp add: lock_inv_def)
  next
    case (taken d n dir w1 fd)
    have "in_locks x ob \<noteq> Some i" for ob using taken(2) assms(2) by (metis lock_inv_def option.distinct(1))
    then show ?thesis using taken acquires(1) assms(2) by (auto simp: lock_inv_def)
  qed
next
  case (releases i l lks)
  have inv: "in_lock x j = Some ob \<longleftrightarrow> in_locks x ob = Some j" for j ob using assms(2) by (simp add: lock_inv_def)
  show ?thesis
  proof (cases "in_lock x i")
    case None
    then have "y = x" using releases by (simp add: lock_release_def fun_upd_idem)
    then show ?thesis using assms(2) by simp
  next
    case (Some ob)
    then have y: "in_lock y = (in_lock x)(i := None)" "in_locks y = (in_locks x)(ob := None)"
      using releases by (auto simp: lock_release_def)
    have "in_lock y j = Some ob' \<longleftrightarrow> in_locks y ob' = Some j" for j ob'
      unfolding y by (cases "j = i"; cases "ob' = ob") (use Some inv [of j ob'] inv [of i ob] inv [of j ob] in auto)
    then show ?thesis by (simp add: lock_inv_def)
  qed
qed

interpretation inst_sys: step_system inst_step lock_inv
  by unfold_locales (rule lock_inv_step)

text \<open>The lock object only depends on the database path while the directory keeps the entry.\<close>

definition lock_file_at :: "string \<Rightarrow> world \<Rightarrow> objid \<Rightarrow> bool" where
  "lock_file_at path w ob \<longleftrightarrow> (\<exists>d n dir. lock_path_for_database path = Inr (d, n) \<and>
     fs_roots (w_fs w) (c_str d) = Some dir \<and> fs_at (w_fs w) dir (c_str n) = Some ob)"

lemma quiet_kcall: "w_env w = (\<lambda>_ fs. fs) \<Longrightarrow> kcall w = (e, w1) \<Longrightarrow> w_fs w1 = w_fs w \<and> w_env w1 = w_env w"
  by (auto simp: kcall_def)

lemma open_root_quiet:
  assumes "open_root d w = ((Inr u, h), w1)" "w_env w = (\<lambda>_ fs. fs)"
  shows "h = fs_roots (w_fs w) (c_str d) \<and> h \<noteq> None \<and> w_fs w1 = w_fs w \<and> w_env w1 = w_env w"
  using assms
  by (auto simp: open_root_def sys_open_dir_def kcall_def split: prod.splits sum.splits option.splits if_splits)

lemma open_lock_file_quiet:
  assumes "open_lock_file fresh (Some dir) n w = (Inr fd, w1)" "w_env w = (\<lambda>_ fs. fs)"
  shows "fs_at (w_fs w1) dir (c_str n) = Some fd \<and> (fs_at (w_fs w) dir (c_str n) = None \<or> fs_at (w_fs w) dir (c_str n) = Some fd)
     \<and> fs_roots (w_fs w1) = fs_roots (w_fs w) \<and> w_env w1 = w_env w"
  using assms
  by (auto simp: open_lock_file_def sys_openat_creat_def kcall_def fs_at_def fs_set_def update_conv'
      split: prod.splits sum.splits option.splits if_splits)

lemma lock_acquire_file:
  assumes "lock_acquire me path fresh err None lks w = (Inr u, Some fd, lks', w')" "w_env w = (\<lambda>_ fs. fs)"
  shows "lock_file_at path w' fd \<and> (\<forall>ob. lock_file_at path w ob \<longrightarrow> ob = fd) \<and> w_env w' = w_env w"
  using assms(1)
proof (cases rule: lock_acquire_cases)
  case (taken d n dir w1 fd')
  have fd: "fd' = fd" using taken(3) by simp
  note q = open_root_quiet [OF taken(7) assms(2)]
  then obtain h where "dir = Some h" by blast
  with q have h: "dir = Some h" "fs_roots (w_fs w) (c_str d) = Some h" "w_fs w1 = w_fs w" "w_env w1 = w_env w" by auto
  from open_lock_file_quiet [of fresh h n w1 fd w'] taken(8) h assms(2) fd
  show ?thesis using taken(6) h by (auto simp: lock_file_at_def)
qed simp

text \<open>
  C21. One instance per database (L2-CTL-008): however instances acquire and release, no lock file is
  held by two of them, and while an instance holds the lock file that belongs to a database path, no
  other instance can acquire the lock for that path; every refusal leaves the locks as they were
  and says why. (The file system is otherwise quiet: in particular nobody unlinks the lock file, which
  is why the code never does.)
\<close>

theorem singleton_exclusive:
  assumes "inst_step\<^sup>*\<^sup>* x y" "lock_inv x"
  shows "(in_lock y i = Some ob \<and> in_lock y j = Some ob \<longrightarrow> i = j) \<and>
    (lock_acquire j path fresh err (in_lock y j) (in_locks y) (in_world y) = (r, l, lks, w) \<longrightarrow>
       w_env (in_world y) = (\<lambda>_ fs. fs) \<longrightarrow> in_lock y i = Some ob \<longrightarrow> lock_file_at path (in_world y) ob \<longrightarrow>
       (\<exists>e. r = Inl e \<and> e \<noteq> []) \<and> l = in_lock y j \<and> lks = in_locks y)"
proof (intro conjI impI)
  have inv: "lock_inv y" by (rule inst_sys.inv_reach [OF assms])
  show "i = j" if "in_lock y i = Some ob \<and> in_lock y j = Some ob"
    using that inv by (auto simp: lock_inv_def)
  assume a: "lock_acquire j path fresh err (in_lock y j) (in_locks y) (in_world y) = (r, l, lks, w)"
    "w_env (in_world y) = (\<lambda>_ fs. fs)" "in_lock y i = Some ob" "lock_file_at path (in_world y) ob"
  have "(\<exists>e. r = Inl e \<and> e \<noteq> []) \<and> l = in_lock y j \<and> lks = in_locks y"
    using a(1)
  proof (cases rule: lock_acquire_cases)
    case (taken d n dir w1 fd)
    then have "ob = fd" using lock_acquire_file [of j path fresh err "in_locks y" "in_world y" _ fd lks w] a by auto
    then show ?thesis using taken(4) a(3) inv by (auto simp: lock_inv_def)
  qed auto
  then show "\<exists>e. r = Inl e \<and> e \<noteq> []" "l = in_lock y j" "lks = in_locks y" by auto
qed

definition one_holder :: instances where
  "one_holder = (case lock_acquire 3 ''/in/db'' (3, 77) None None (\<lambda>_. None) ex_world of
     (r, l, lks, w) \<Rightarrow> \<lparr>in_lock = (\<lambda>_. None)(3 := l), in_locks = lks, in_world = w\<rparr>)"

lemma one_holder_facts:
  "in_lock one_holder 3 = Some (3, 77)" "in_lock one_holder 2 = None" "w_env (in_world one_holder) = (\<lambda>_ fs. fs)"
  "lock_file_at ''/in/db'' (in_world one_holder) (3, 77)"
  "inst_step \<lparr>in_lock = (\<lambda>_. None), in_locks = (\<lambda>_. None), in_world = ex_world\<rparr> one_holder"
proof -
  obtain r l lks w where a: "lock_acquire 3 ''/in/db'' (3, 77) None None (\<lambda>_. None) ex_world = (r, l, lks, w)"
    by (metis prod.collapse)
  have "fst (lock_acquire 3 ''/in/db'' (3, 77) None None (\<lambda>_. None) ex_world) = Inr ()"
    "fst (snd (lock_acquire 3 ''/in/db'' (3, 77) None None (\<lambda>_. None) ex_world)) = Some (3, 77)" by code_simp+
  then have r: "r = Inr ()" "l = Some (3, 77)" using a by simp_all
  have one: "one_holder = \<lparr>in_lock = (\<lambda>_. None)(3 := l), in_locks = lks, in_world = w\<rparr>" by (simp add: one_holder_def a)
  have quiet: "w_env ex_world = (\<lambda>_ fs. fs)" by (simp add: ex_world_def)
  note lf = lock_acquire_file [OF a [unfolded r] quiet]
  show "in_lock one_holder 3 = Some (3, 77)" "in_lock one_holder 2 = None" by (simp_all add: one r)
  show "w_env (in_world one_holder) = (\<lambda>_ fs. fs)" using lf quiet by (simp add: one)
  show "lock_file_at ''/in/db'' (in_world one_holder) (3, 77)" using lf by (simp add: one)
  show "inst_step \<lparr>in_lock = (\<lambda>_. None), in_locks = (\<lambda>_. None), in_world = ex_world\<rparr> one_holder"
    using inst_step.acquires [of 3 "''/in/db''" "(3, 77)" None
      "\<lparr>in_lock = (\<lambda>_. None), in_locks = (\<lambda>_. None), in_world = ex_world\<rparr>" r l lks w] a by (simp add: one)
qed

theorem singleton_exclusive_witness:
  "\<exists>e. fst (lock_acquire 2 ''/in/db'' (3, 78) None (in_lock one_holder 2) (in_locks one_holder) (in_world one_holder)) = Inl e"
proof -
  obtain r l lks w where a: "lock_acquire 2 ''/in/db'' (3, 78) None (in_lock one_holder 2) (in_locks one_holder) (in_world one_holder)
      = (r, l, lks, w)" by (metis prod.collapse)
  have "lock_inv \<lparr>in_lock = (\<lambda>_. None), in_locks = (\<lambda>_. None), in_world = ex_world\<rparr>" by (simp add: lock_inv_def)
  note ex = singleton_exclusive [OF r_into_rtranclp [where r = inst_step, OF one_holder_facts(5)] this,
      of 3 "(3, 77)" 2 "''/in/db''" "(3, 78)" None r l lks w]
  from conjunct2 [OF ex] a one_holder_facts(1,3,4) have "\<exists>e. r = Inl e" by blast
  then show ?thesis using a by simp
qed

end
