(* ===== verification/Service.thy ===== *)
theory Service
  imports Http_Service Singleton
begin

text \<open>
  The daemon (\<open>cpp/src/service.cpp\<close>, \<open>cpp/src/main.cpp\<close>): the configuration check, the messages to the
  service manager, the signals, start-up and teardown, and the command line. Start-up and teardown
  are cut where other threads or other instances can run in between, after the lock, the log sink,
  the manager and the socket; \<open>service_start\<close> and \<open>service_stop\<close> compose the pieces, and the theory
  \<open>Service_Laws\<close> interleaves them. What the operating system answers is an \<open>os_env\<close>. The pair of
  pointers \<open>g_dispatch\<close> belongs to the process; a process has one service.
\<close>

section \<open>The operating system\<close>

text \<open>\<open>getenv\<close> answers are C strings; \<open>os_notify_socket\<close> says whether the datagram socket can be
  created, \<open>os_clock\<close> is what \<open>now_epoch_ms\<close> reads.\<close>

record os_env =
  os_pid :: nat
  os_statfs :: "string \<Rightarrow> string + 64 word"
  os_lock_inode :: objid
  os_lock_error :: "string option"
  os_pragmas :: pragma_answers
  os_net :: net
  os_getenv :: "string \<Rightarrow> string option"
  os_notify_socket :: bool
  os_clock :: int

datatype effect = Sent string string | Delivered subscriber Event | ClosedFd int

section \<open>Messages to the service manager\<close>

definition SUN_PATH_SIZE :: nat where
  "SUN_PATH_SIZE = 108"

text \<open>The datagram that leaves: the address bytes after \<open>sun_family\<close>, and the payload.\<close>

definition notify_service_manager :: "os_env \<Rightarrow> string \<Rightarrow> unit res \<times> effect list" where
  "notify_service_manager os state =
     (if state = [] then (Inl ''service: notification state is empty'', [])
      else case os_getenv os ''NOTIFY_SOCKET'' of
        None \<Rightarrow> (Inr (), [])
      | Some socket_path \<Rightarrow>
         (if socket_path = [] then (Inr (), [])
          else if \<not> os_notify_socket os then (Inr (), [])
          else if length socket_path \<ge> SUN_PATH_SIZE then (Inr (), [])
          else (Inr (), [Sent (if hd socket_path = CHR ''@'' then NUL # tl socket_path else socket_path @ [NUL]) state])))"

text \<open>\<open>strtol\<close> in base 10: \<open>None\<close> when no digit is found, otherwise the value, unless it is out of
  the range of \<open>long\<close>, and the text after the number.\<close>

definition is_space :: "char \<Rightarrow> bool" where
  "is_space c \<longleftrightarrow> byte c = 32 \<or> (9 \<le> byte c \<and> byte c \<le> 13)"

definition strtol :: "string \<Rightarrow> (int option \<times> string) option" where
  "strtol s =
     (let t = dropWhile is_space s;
          negative = (t \<noteq> [] \<and> hd t = CHR ''-'');
          u = (if t \<noteq> [] \<and> (hd t = CHR ''-'' \<or> hd t = CHR ''+'') then tl t else t);
          digits = takeWhile is_digit u;
          v = (if negative then - int (dec_val digits) else int (dec_val digits))
      in if digits = [] then None
         else Some (if - (2 ^ 63) \<le> v \<and> v < 2 ^ 63 then Some v else None, dropWhile is_digit u))"

text \<open>A whole C string read as a \<open>long\<close>.\<close>

definition whole_long :: "string \<Rightarrow> int option" where
  "whole_long s = (case strtol s of Some (Some v, []) \<Rightarrow> Some v | _ \<Rightarrow> None)"

definition watchdog_interval_ms :: "os_env \<Rightarrow> 32 word" where
  "watchdog_interval_ms os =
     (case os_getenv os ''WATCHDOG_USEC'' of
        None \<Rightarrow> 0
      | Some usec \<Rightarrow>
         (if usec = [] then 0
          else if (case os_getenv os ''WATCHDOG_PID'' of
                     None \<Rightarrow> False
                   | Some pid \<Rightarrow> pid \<noteq> [] \<and> whole_long pid \<noteq> Some (int (os_pid os)))
          then 0
          else case whole_long usec of
            None \<Rightarrow> 0
          | Some value \<Rightarrow>
             (if value \<le> 0 then 0
              else let half_ms = value div 1000 div 2 in
                   if half_ms \<le> 0 then 1 else word_of_int half_ms)))"

section \<open>The watchdog thread\<close>

definition kSliceMs :: "32 word" where
  "kSliceMs = 100"

text \<open>One slice of \<open>run_watchdog\<close>: has it pinged, and the time waited since the last ping. The sum is
  an \<open>unsigned\<close>. \<open>run_watchdog\<close> counts the pings of \<open>n\<close> slices, after which the thread sees the flag.\<close>

definition watchdog_slice :: "32 word \<Rightarrow> 32 word \<Rightarrow> bool \<times> 32 word" where
  "watchdog_slice interval_ms waited =
     (let waited' = waited + kSliceMs in if waited' \<ge> interval_ms then (True, 0) else (False, waited'))"

fun run_watchdog :: "nat \<Rightarrow> 32 word \<Rightarrow> 32 word \<Rightarrow> nat" where
  "run_watchdog 0 interval_ms waited = 0"
| "run_watchdog (Suc n) interval_ms waited =
     (case watchdog_slice interval_ms waited of
        (ping, waited') \<Rightarrow> (if ping then 1 else 0) + run_watchdog n interval_ms waited')"

section \<open>The configuration check\<close>

definition check_config :: "os_env \<Rightarrow> Config \<Rightarrow> unit res" where
  "check_config os config =
     (if storage_database_path config = [] then Inl ''storage.database_path is required''
      else
        let path = storage_database_path config;
            directory = (case rfind_char (CHR ''/'') path of
              None \<Rightarrow> ''.''
            | Some slash \<Rightarrow> (if slash = 0 then ''/'' else substr 0 slash path))
        in case storage_path_is_local directory (os_statfs os (c_str directory)) of
             Inl reason \<Rightarrow> Inl reason
           | Inr _ \<Rightarrow> (if jobs_workers config = 0 then Inl ''jobs.workers must be at least 1'' else Inr ()))"

section \<open>Signals\<close>

datatype stop_signal = SIGINT | SIGTERM

text \<open>The dispositions and the mask of the process; \<open>sg_stop\<close> is \<open>g_stop_requested\<close>. A blocked signal
  that arrives stays pending; a delivered one runs the handler if one is installed and otherwise takes its default
  action, the end of the process (\<open>sg_killed\<close>). The main thread is about to test the flag, about to
  suspend, suspended, or has returned from \<open>wait_for_stop_signal\<close>.\<close>

datatype waiter = Testing | Suspending | Suspended | Returned_to_main

record signals =
  sg_pipe_ignored :: bool
  sg_handled :: "stop_signal set"
  sg_blocked :: "stop_signal set"
  sg_pending :: "stop_signal set"
  sg_stop :: bool
  sg_waiter :: waiter
  sg_killed :: bool

definition initial_signals :: signals where
  "initial_signals = \<lparr>sg_pipe_ignored = False, sg_handled = {}, sg_blocked = {}, sg_pending = {}, sg_stop = False,
     sg_waiter = Testing, sg_killed = False\<rparr>"

text \<open>\<open>install_signal_handlers\<close> from the answers of its four system calls (\<open>Some\<close>: it failed, with
  this text).\<close>

record sigaction_answers =
  sa_pipe :: "string option"
  sa_int :: "string option"
  sa_term :: "string option"
  sa_mask_failed :: bool

definition install_signal_handlers :: "sigaction_answers \<Rightarrow> signals \<Rightarrow> unit res \<times> signals" where
  "install_signal_handlers sa g =
     (case sa_pipe sa of
        Some e \<Rightarrow> (Inl (''service: cannot ignore SIGPIPE: '' @ e), g)
      | None \<Rightarrow>
         (let g1 = g\<lparr>sg_pipe_ignored := True\<rparr> in
          case sa_int sa of
            Some e \<Rightarrow> (Inl (''service: cannot install stop handlers: '' @ e), g1)
          | None \<Rightarrow>
             (let g2 = g1\<lparr>sg_handled := insert SIGINT (sg_handled g1)\<rparr> in
              case sa_term sa of
                Some e \<Rightarrow> (Inl (''service: cannot install stop handlers: '' @ e), g2)
              | None \<Rightarrow>
                 (let g3 = g2\<lparr>sg_handled := insert SIGTERM (sg_handled g2)\<rparr> in
                  if sa_mask_failed sa then (Inl ''service: cannot block stop signals'', g3)
                  else (Inr (), g3\<lparr>sg_blocked := sg_blocked g3 \<union> {SIGINT, SIGTERM}\<rparr>)))))"

definition on_stop_signal :: "signals \<Rightarrow> signals" where
  "on_stop_signal g = g\<lparr>sg_stop := True\<rparr>"

text \<open>The delivery of a set of unblocked signals: every one with a handler runs it; one without ends the
  process.\<close>

definition deliver_signals :: "stop_signal set \<Rightarrow> signals \<Rightarrow> signals" where
  "deliver_signals ss g = (if ss \<subseteq> sg_handled g then on_stop_signal g else g\<lparr>sg_killed := True\<rparr>)"

text \<open>The loop of \<open>wait_for_stop_signal\<close>, one step at a time: test the flag, then \<open>sigsuspend\<close>, which
  unmasks, delivers what is pending and otherwise sleeps. A process that was ended takes no step.\<close>

definition wait_step :: "signals \<Rightarrow> signals" where
  "wait_step g =
     (if sg_killed g then g else case sg_waiter g of
        Testing \<Rightarrow> g\<lparr>sg_waiter := (if sg_stop g then Returned_to_main else Suspending)\<rparr>
      | Suspending \<Rightarrow>
         (if sg_pending g \<noteq> {} then deliver_signals (sg_pending g) (g\<lparr>sg_pending := {}, sg_waiter := Testing\<rparr>)
          else g\<lparr>sg_waiter := Suspended\<rparr>)
      | Suspended \<Rightarrow> g
      | Returned_to_main \<Rightarrow> g)"

text \<open>The arrival of a signal: it is delivered to a suspended thread and \<open>sigsuspend\<close> returns; a
  blocked signal becomes pending; otherwise it is delivered where the thread is.\<close>

definition signal_arrives :: "stop_signal \<Rightarrow> signals \<Rightarrow> signals" where
  "signal_arrives s g =
     (if sg_killed g then g
      else if sg_waiter g = Suspended then deliver_signals {s} (g\<lparr>sg_waiter := Testing\<rparr>)
      else if s \<in> sg_blocked g then g\<lparr>sg_pending := insert s (sg_pending g)\<rparr>
      else deliver_signals {s} g)"

section \<open>Start-up\<close>

text \<open>\<open>Service::Impl\<close>; \<open>sd_watchdog\<close> is the interval of the watchdog thread, \<open>sd_dispatch\<close> says whether
  \<open>g_dispatch\<close> points at this service's manager.\<close>

record service =
  sd_events :: publisher
  sd_log_options :: EventLogOptions
  sd_lock :: SingletonLock
  sd_manager :: "manager option"
  sd_server :: pool
  sd_http :: HttpServiceOptions
  sd_running :: bool
  sd_watchdog :: "32 word option"
  sd_dispatch :: bool

definition new_service :: service where
  "new_service = \<lparr>sd_events = new_publisher, sd_log_options = \<lparr>elo_minimum = Info, elo_enabled = True\<rparr>, sd_lock = None,
     sd_manager = None, sd_server = new_pool, sd_http = default_HttpServiceOptions, sd_running = False,
     sd_watchdog = None, sd_dispatch = False\<rparr>"

text \<open>The callback \<open>log_event\<close> and the address of \<open>log_options\<close>.\<close>

definition log_sink :: subscriber where
  "log_sink = (1, 1)"

text \<open>The last two statements of every failure path and of \<open>stop\<close>.\<close>

definition release_all :: "service \<Rightarrow> locks \<Rightarrow> service \<times> locks" where
  "release_all s lks =
     (case lock_release (sd_lock s) lks of
        (l, lks') \<Rightarrow> (s\<lparr>sd_events := snd (unsubscribe_remove log_sink (sd_events s)), sd_lock := l\<rparr>, lks'))"

definition service_start_lock ::
  "os_env \<Rightarrow> Config \<Rightarrow> service \<Rightarrow> locks \<Rightarrow> world \<Rightarrow> unit res \<times> service \<times> locks \<times> world" where
  "service_start_lock os config s lks w =
     (if sd_running s then (Inl ''service: already running'', s, lks, w)
      else case check_config os config of
        Inl e \<Rightarrow> (Inl e, s, lks, w)
      | Inr _ \<Rightarrow>
         (case lock_acquire (os_pid os) (storage_database_path config) (os_lock_inode os) (os_lock_error os) (sd_lock s) lks w of
            (r, l, lks', w') \<Rightarrow> (r, s\<lparr>sd_lock := l\<rparr>, lks', w')))"

definition service_start_log :: "Config \<Rightarrow> service \<Rightarrow> locks \<Rightarrow> unit res \<times> service \<times> locks" where
  "service_start_log config s lks =
     (let s1 = s\<lparr>sd_log_options := \<lparr>elo_minimum = logging_level config, elo_enabled = logging_enabled config\<rparr>\<rparr> in
      case subscribe log_sink (sd_events s1) of
        (Inl e, _) \<Rightarrow>
          (case lock_release (sd_lock s1) lks of (l, lks') \<Rightarrow> (Inl e, s1\<lparr>sd_lock := l\<rparr>, lks'))
      | (Inr _, p) \<Rightarrow> (Inr (), s1\<lparr>sd_events := p\<rparr>, lks))"

definition service_start_manager ::
  "os_env \<Rightarrow> Config \<Rightarrow> service \<Rightarrow> locks \<Rightarrow> world \<Rightarrow> unit res \<times> service \<times> locks \<times> world" where
  "service_start_manager os config s lks w =
     (case start (os_pragmas os) (set_event_publisher True (new_manager (storage_database_path config) config)) w of
        (Inl e, _, w1) \<Rightarrow> (case release_all (s\<lparr>sd_manager := None\<rparr>) lks of (s1, lks1) \<Rightarrow> (Inl e, s1, lks1, w1))
      | (Inr _, m, w1) \<Rightarrow> (Inr (), s\<lparr>sd_manager := Some m\<rparr>, lks, w1))"

text \<open>The manager is asked to stop; once its workers are joined it is destroyed.\<close>

definition service_stop_manager :: "service \<Rightarrow> service" where
  "service_stop_manager s = s\<lparr>sd_manager := map_option shutdown_begin (sd_manager s)\<rparr>"

definition service_drop_manager :: "service \<Rightarrow> service" where
  "service_drop_manager s = s\<lparr>sd_manager := None\<rparr>"

text \<open>When the server cannot be started the manager is shut down and destroyed. \<open>start\<close> queues nothing and
  no request arrives before the socket is open (\<open>start_queues_nothing\<close>), so its workers have no job to
  finish and the joins leave the world as it is.\<close>

definition service_start_server ::
  "os_env \<Rightarrow> Config \<Rightarrow> service \<Rightarrow> locks \<Rightarrow> unit res \<times> effect list \<times> service \<times> locks" where
  "service_start_server os config s lks =
     (let s1 = s\<lparr>sd_http := (sd_http s)\<lparr>max_body_bytes := http_max_body_bytes config\<rparr>, sd_dispatch := True\<rparr>;
          server_options = default_ServerOptions\<lparr>so_handlers := jobs_workers config\<rparr>
      in case server_start (http_bind config) (http_port config) server_options True (os_net os) (sd_server s1) of
        (Inl e, p, closed) \<Rightarrow>
          (case release_all ((service_drop_manager (service_stop_manager (s1\<lparr>sd_server := p\<rparr>)))\<lparr>sd_dispatch := False\<rparr>) lks of
             (s2, lks2) \<Rightarrow> (Inl e, map ClosedFd closed, s2, lks2))
      | (Inr _, p, closed) \<Rightarrow> (Inr (), map ClosedFd closed, s1\<lparr>sd_server := p, sd_running := True\<rparr>, lks))"

definition deliver :: "Event \<Rightarrow> service \<Rightarrow> effect list" where
  "deliver e s = map (\<lambda>(sub, ev). Delivered sub ev) (fst (fst (publish_event (\<lambda>_ _. Returned) e (sd_events s))))"

definition service_start_announce :: "os_env \<Rightarrow> Config \<Rightarrow> service \<Rightarrow> effect list \<times> service" where
  "service_start_announce os config s =
     (let interval = watchdog_interval_ms os;
          detail = ''port='' @ nat_dec (ls_port (p_listener (sd_server s))) @ '' workers='' @ nat_dec (jobs_workers config)
      in (snd (notify_service_manager os ''READY=1'') @
          deliver (new_Event ServiceStarted Info (os_clock os) [] [] detail) s,
          if interval > 0 then s\<lparr>sd_watchdog := Some interval\<rparr> else s))"

text \<open>\<open>Service::start\<close> when nothing runs in between.\<close>

definition service_start ::
  "os_env \<Rightarrow> Config \<Rightarrow> service \<Rightarrow> locks \<Rightarrow> world \<Rightarrow> unit res \<times> effect list \<times> service \<times> locks \<times> world" where
  "service_start os config s lks w =
     (case service_start_lock os config s lks w of
        (Inl e, s1, lks1, w1) \<Rightarrow> (Inl e, [], s1, lks1, w1)
      | (Inr _, s1, lks1, w1) \<Rightarrow>
     (case service_start_log config s1 lks1 of
        (Inl e, s2, lks2) \<Rightarrow> (Inl e, [], s2, lks2, w1)
      | (Inr _, s2, lks2) \<Rightarrow>
     (case service_start_manager os config s2 lks2 w1 of
        (Inl e, s3, lks3, w3) \<Rightarrow> (Inl e, [], s3, lks3, w3)
      | (Inr _, s3, lks3, w3) \<Rightarrow>
     (case service_start_server os config s3 lks3 of
        (Inl e, fx, s4, lks4) \<Rightarrow> (Inl e, fx, s4, lks4, w3)
      | (Inr _, fx, s4, lks4) \<Rightarrow>
     (case service_start_announce os config s4 of
        (fx', s5) \<Rightarrow> (Inr (), fx @ fx', s5, lks4, w3))))))"

section \<open>Teardown\<close>

text \<open>The flag, the last event, the message to the service manager, the watchdog thread.\<close>

definition service_stop_begin :: "os_env \<Rightarrow> service \<Rightarrow> effect list \<times> service" where
  "service_stop_begin os s =
     (let s1 = s\<lparr>sd_running := False\<rparr> in
      (deliver (new_Event ServiceStopping Info (os_clock os) [] [] []) s1 @
       snd (notify_service_manager os ''STOPPING=1''),
       s1\<lparr>sd_watchdog := None\<rparr>))"

text \<open>The server, once its handlers are joined.\<close>

definition service_stop_server :: "service \<Rightarrow> effect list \<times> service" where
  "service_stop_server s =
     (case server_shutdown (sd_server s) of
        (p, closed) \<Rightarrow> (map ClosedFd closed, s\<lparr>sd_server := p, sd_dispatch := False\<rparr>))"

text \<open>\<open>Service::stop\<close> when nothing runs in between.\<close>

definition service_stop :: "os_env \<Rightarrow> service \<Rightarrow> locks \<Rightarrow> effect list \<times> service \<times> locks" where
  "service_stop os s lks =
     (if \<not> sd_running s then ([], s, lks)
      else
        let (fx1, s1) = service_stop_begin os s;
            (fx2, s2) = service_stop_server s1;
            s3 = service_drop_manager (service_stop_manager s2);
            (s4, lks4) = release_all s3 lks
        in (fx1 @ fx2, s4, lks4))"

text \<open>The handler of the server: a connection without a manager is closed unanswered.\<close>

definition serve :: "service \<Rightarrow> recv_event list \<Rightarrow> int \<Rightarrow> int \<Rightarrow> world \<Rightarrow> (served option \<times> service) option" where
  "serve s es now ts w =
     (if \<not> sd_dispatch s then Some (None, s)
      else case sd_manager s of
        None \<Rightarrow> Some (None, s)
      | Some m \<Rightarrow>
         (case serve_connection (sd_http s) es now ts m w of
            None \<Rightarrow> None
          | Some r \<Rightarrow> Some (Some r, s\<lparr>sd_manager := Some (sv_manager r)\<rparr>)))"

section \<open>The command line\<close>

text \<open>The arguments after the program name: the configuration path and \<open>--check\<close>; \<open>None\<close> asks for the
  usage message.\<close>

fun parse_args :: "string list \<Rightarrow> string \<times> bool \<Rightarrow> (string \<times> bool) option" where
  "parse_args [] (config_path, check_only) = Some (config_path, check_only)"
| "parse_args (arg # args) (config_path, check_only) =
     (if arg = ''--check'' then parse_args args (config_path, True)
      else if arg = ''--config'' \<and> args \<noteq> [] then parse_args (tl args) (hd args, check_only)
      else None)"

text \<open>What \<open>main\<close> does before it waits for a signal: exit at once with a code and a message, or keep
  running.\<close>

datatype main_result = Exit int stream string | Listening string

definition usage :: "string \<Rightarrow> main_result" where
  "usage argv0 = Exit 2 Stderr (''usage: '' @ argv0 @ '' --config <path> [--check]'' @ [LF] @
     ''  --check   validate the configuration and exit; creates nothing'' @ [LF])"

record process =
  pr_signals :: signals
  pr_service :: service
  pr_locks :: locks
  pr_world :: world

definition main_start ::
  "os_env \<Rightarrow> (string \<Rightarrow> string + string) \<Rightarrow> sigaction_answers \<Rightarrow> string \<Rightarrow> string list \<Rightarrow> process \<Rightarrow>
   main_result \<times> effect list \<times> process" where
  "main_start os read_file sa argv0 args x =
     (case parse_args args ([], False) of
        None \<Rightarrow> (usage argv0, [], x)
      | Some (config_path, check_only) \<Rightarrow>
         (if config_path = [] then (usage argv0, [], x)
          else case load_config_file config_path (read_file config_path) of
            Inl e \<Rightarrow> (Exit 1 Stderr (c_str e @ [LF]), [], x)
          | Inr config \<Rightarrow>
         (case check_config os config of
            Inl e \<Rightarrow> (Exit 1 Stderr (c_str e @ [LF]), [], x)
          | Inr _ \<Rightarrow>
         (if check_only then (Exit 0 Stdout (''configuration is valid'' @ [LF]), [], x)
          else case install_signal_handlers sa (pr_signals x) of
            (Inl e, g) \<Rightarrow> (Exit 1 Stderr (c_str e @ [LF]), [], x\<lparr>pr_signals := g\<rparr>)
          | (Inr _, g) \<Rightarrow>
         (case service_start os config (pr_service x) (pr_locks x) (pr_world x) of
            (Inl e, fx, s, lks, w) \<Rightarrow>
              (Exit 1 Stderr (c_str e @ [LF]), fx, x\<lparr>pr_signals := g, pr_service := s, pr_locks := lks, pr_world := w\<rparr>)
          | (Inr _, fx, s, lks, w) \<Rightarrow>
              (Listening (''listening on '' @ c_str (http_bind config) @ '':'' @
                 nat_dec (ls_port (p_listener (sd_server s))) @ [LF]), fx,
               x\<lparr>pr_signals := g, pr_service := s, pr_locks := lks, pr_world := w\<rparr>))))))"

text \<open>After \<open>wait_for_stop_signal\<close>: the message, the teardown, the exit code.\<close>

definition main_stop :: "os_env \<Rightarrow> process \<Rightarrow> main_result \<times> effect list \<times> process" where
  "main_stop os x =
     (case service_stop os (pr_service x) (pr_locks x) of
        (fx, s, lks) \<Rightarrow> (Exit 0 Stdout (''stopping'' @ [LF]), fx, x\<lparr>pr_service := s, pr_locks := lks\<rparr>))"

end
