(* ===== verification/Engine_Frame.thy ===== *)
theory Engine_Frame
  imports Manager
begin

text \<open>
  Frames: a reflexive and transitive relation between worlds that every operation of the store and
  of the file layer respects is respected by everything the engine, the workers and the commands
  of the manager build from them. The locale \<open>engine_frame\<close> asks this of the writes to one job only and
  gives it for all that is done for this job; the locale \<open>world_frame\<close> asks it of every job and adds
  the operations that are not about one. The theories \<open>Manager_Laws\<close>, \<open>Manager_Frame\<close> and \<open>Queue_Delivery\<close>
  interpret them.
\<close>

locale engine_frame =
  fixes k :: string
    and R :: "world \<Rightarrow> world \<Rightarrow> bool"
  assumes R_refl: "R w w"
    and R_trans: "R u v \<Longrightarrow> R v w \<Longrightarrow> R u w"
    and R_open_root: "open_root p w = (r1, w') \<Longrightarrow> R w w'"
    and R_classify: "classify d n w = (r2, w') \<Longrightarrow> R w w'"
    and R_open_regular: "open_regular d n fi w = (r3, w') \<Longrightarrow> R w w'"
    and R_move_within: "move_within sd sn dd dn st w = (r4, w') \<Longrightarrow> R w w'"
    and R_publish: "publish d n nn w = (r5, w') \<Longrightarrow> R w w'"
    and R_load: "load k c w = (r6, w') \<Longrightarrow> R w w'"
    and R_load_retry_state: "load_retry_state k c w = (r7, w') \<Longrightarrow> R w w'"
    and R_update_state: "update_state k t now msg c w = (r8, w') \<Longrightarrow> R w w'"
    and R_record_attempt: "record_attempt k due msg c w = (r9, w') \<Longrightarrow> R w w'"
    and R_mark: "mark_needs_attention k msg c w = (r10, w') \<Longrightarrow> R w w'"
begin

lemma R_mark_snd: "R u w \<Longrightarrow> R u (snd (mark_needs_attention k reason c w))"
  by (rule R_trans [OF _ R_mark [OF prod.collapse [symmetric]]])

lemma R_record_transition: "record_transition k t now msg ph c w = (r, w') \<Longrightarrow> R w w'"
  by (auto simp: record_transition_def split: prod.splits sum.splits if_splits dest: R_update_state)

lemma R_finish_record_done: "finish_record_done k tick err c w = (r, w') \<Longrightarrow> R w w'"
  unfolding finish_record_done_def
  by (auto split: prod.splits WriteFailureAction.splits simp: Let_def dest!: R_record_transition intro: R_mark_snd)

lemma R_finish_publish: "finish_publish k req d stg tick err c w = (r, w') \<Longrightarrow> R w w'"
  unfolding finish_publish_def
  by (auto split: prod.splits sum.splits if_splits simp: Let_def dest!: R_classify R_publish R_finish_record_done
      intro!: R_mark_snd) (meson R_trans)+

lemma R_finish_after_commit: "finish_after_commit k req d stg tick err c w = (r, w') \<Longrightarrow> R w w'"
  unfolding finish_after_commit_def
  by (auto split: prod.splits sum.splits option.splits if_splits WriteFailureAction.splits
      simp: Let_def dest!: R_load R_record_transition R_finish_publish intro!: R_mark_snd) (meson R_trans)+

lemma R_execute_commit: "execute_commit k req st sd dd tick err c w = (r, w') \<Longrightarrow> R w w'"
  unfolding execute_commit_def
  by (auto split: prod.splits sum.splits dest!: R_move_within R_finish_after_commit intro: R_trans)

lemma R_execute_record: "execute_record k req st j sd dd err c w = (r, w') \<Longrightarrow> R w w'"
  unfolding execute_record_def
  by (auto split: prod.splits if_splits WriteFailureAction.splits simp: Let_def R_refl
      dest!: R_record_transition R_execute_commit intro: R_trans)

lemma R_execute: "execute k req st c w = (r, w') \<Longrightarrow> R w w'"
  unfolding execute_def
  by (auto split: prod.splits sum.splits option.splits if_splits simp: R_refl
      dest!: R_load R_open_root R_classify R_open_regular R_execute_record) (meson R_trans)+

lemma R_fail_permanently: "R w (fail_permanently k reason c w)"
proof -
  obtain r w1 l w2 where *: "record_attempt k 0 reason c w = (r, w1)" "load k c w1 = (l, w2)" by fastforce
  have "R w w2" using R_record_attempt [OF *(1)] R_load [OF *(2)] by (rule R_trans)
  moreover have "R w2 (snd (update_state k Failed (updated_at_ms j + 1) reason c w2))" for j
    by (rule R_update_state [OF prod.collapse [symmetric]])
  ultimately show ?thesis
    by (auto simp: fail_permanently_def * intro: R_trans split: sum.split option.split)
qed

lemma R_handle_failure: "handle_failure cfg k msg now c w = (r, w') \<Longrightarrow> R w w'"
  unfolding handle_failure_def
  by (auto simp: Let_def split: prod.splits sum.splits option.splits if_splits
      dest!: R_load_retry_state R_record_attempt intro: R_trans R_fail_permanently)

lemma R_worker_record:
  assumes "worker_record cfg k req st now c w = (r, w')"
  shows "R w w'"
proof -
  obtain out e w1 where ex: "execute k req st c w = ((out, e), w1)" by (metis prod.collapse)
  obtain due w2 where hf: "handle_failure cfg k e now c w1 = (due, w2)" by fastforce
  have "w' \<in> {w1, w2, fail_permanently k e c w1}"
    using assms by (cases out) (auto simp: worker_record_def ex hf)
  then show ?thesis
    using R_execute [OF ex] R_handle_failure [OF hf] R_fail_permanently [of w1 e c] by (auto intro: R_trans)
qed

lemma R_cancel_durable: "cancel_durable k c w = (r, w') \<Longrightarrow> R w w'"
  unfolding cancel_durable_def
  by (auto split: prod.splits sum.splits option.splits if_splits dest!: R_load R_update_state intro: R_trans)

lemma R_retry_check: "retry_check k c w = (r, w') \<Longrightarrow> R w w'"
  unfolding retry_check_def
  by (auto split: prod.splits sum.splits option.splits if_splits dest!: R_load)

end

locale world_frame =
  fixes R :: "world \<Rightarrow> world \<Rightarrow> bool"
  assumes frame: "engine_frame k R"
    and R_record_intent: "record_intent job old c w = (r11, w') \<Longrightarrow> R w w'"
    and R_next_sequence: "next_sequence c w = (r12, w') \<Longrightarrow> R w w'"
    and R_store_open: "store_open path pa c w = (r13, c', w') \<Longrightarrow> R w w'"

sublocale world_frame \<subseteq> eng: engine_frame k R for k
  by (rule frame)

context world_frame
begin

lemma R_start: "start pa m w = (res, m', w') \<Longrightarrow> R w w'"
  by (auto simp: start_def eng.R_refl split: if_splits prod.splits sum.splits dest: R_store_open)

end

end
