(* ===== verification/Store_Laws.thy ===== *)
theory Store_Laws
  imports Store
begin

text \<open>
  The laws of the job store: the table is a keyed table, each operation either leaves the
  database alone or replaces one row, the schema constraints are an invariant of every
  run, and the durable state of a job moves only along the state machine of
  \<open>cpp/src/job.cpp\<close>.
\<close>

section \<open>The table is keyed\<close>

lemma row_find_Some: "row_find k rows = Some r \<Longrightarrow> r \<in> set rows \<and> r_id r = k"
  by (auto simp: row_find_def find_Some_iff)

lemma row_find_append: "row_find k (xs @ ys) = (case row_find k xs of Some r \<Rightarrow> Some r | None \<Rightarrow> row_find k ys)"
  by (induction xs) (auto simp: row_find_def)

lemma row_find_single: "row_find k [r] = (if r_id r = k then Some r else None)"
  by (simp add: row_find_def)

lemma row_find_update:
  "(\<And>r. r_id (f r) = r_id r) \<Longrightarrow>
    row_find k' (row_update k f rows) = (if k' = k then map_option f (row_find k rows) else row_find k' rows)"
  by (induction rows) (auto simp: row_find_def row_update_def)

lemma row_ids_update: "(\<And>r. r_id (f r) = r_id r) \<Longrightarrow> map r_id (row_update k f rows) = map r_id rows"
  by (auto simp: row_update_def)

lemma row_find_None: "row_find k rows = None \<longleftrightarrow> k \<notin> r_id ` set rows"
  by (auto simp: row_find_def find_None_iff)

lemma row_find_mem: "distinct (map r_id rows) \<Longrightarrow> r \<in> set rows \<Longrightarrow> row_find (r_id r) rows = Some r"
  by (induction rows) (auto simp: row_find_def image_iff)

interpretation jobs: keyed_table r_id "\<lambda>t k. row_find k t" "\<lambda>r t. t @ [r]" row_update
  "\<lambda>t. distinct (map r_id t)"
proof (unfold_locales, goal_cases)
  case (1 t r k)
  then show ?case by (auto simp: row_find_append row_find_single split: option.splits)
next
  case (2 f k t k')
  then show ?case by (simp add: row_find_update)
next
  case (3 t r)
  then show ?case by (auto simp: row_find_None)
next
  case (4 t f k)
  then show ?case by (simp add: row_ids_update)
next
  case (5 t k r)
  then show ?case by (simp add: row_find_Some)
qed

section \<open>Frames\<close>

lemma db_find_ticked: "ticked w w' \<Longrightarrow> db_find w' k = db_find w k"
  by (simp add: db_find_def tickedD)

lemma sql_write_ticked: "sql_write c w = (r, w') \<Longrightarrow> ticked w w'"
  by (auto simp: sql_write_def dest!: sql_call_ticked split: prod.splits option.splits if_splits)

section \<open>The database invariant\<close>

text \<open>What the schema keeps true of the file: the key is unique, every row satisfies the
  CHECK constraints, and no text column holds a NUL.\<close>

definition db_wf :: "db \<Rightarrow> bool" where
  "db_wf d \<longleftrightarrow> distinct (map r_id (db_jobs d)) \<and>
     (\<forall>r \<in> set (db_jobs d). row_check r \<and> nul_free (r_id r) \<and> nul_free (r_error r))"

lemma row_check_decodes: "row_check r \<Longrightarrow> \<exists>s. JobState_from_string (r_state r) = Some s"
  by (auto simp: row_check_def JobState_from_string_def)

lemma db_wf_insert:
  "db_wf d \<Longrightarrow> row_check r \<Longrightarrow> nul_free (r_id r) \<Longrightarrow> nul_free (r_error r) \<Longrightarrow>
    row_find (r_id r) (db_jobs d) = None \<Longrightarrow> db_wf (d\<lparr>db_jobs := db_jobs d @ [r]\<rparr>)"
  by (auto simp: db_wf_def row_find_None)

lemma db_wf_update:
  assumes "db_wf d" and "\<And>r. r_id (f r) = r_id r"
    and "\<And>r. nul_free (r_error r) \<Longrightarrow> nul_free (r_error (f r))"
    and "\<And>r. row_find k (db_jobs d) = Some r \<Longrightarrow> row_check (f r)"
  shows "db_wf (d\<lparr>db_jobs := row_update k f (db_jobs d)\<rparr>)"
proof -
  have "row_check (f r)" if "r \<in> set (db_jobs d)" and "r_id r = k" for r
  proof -
    from assms(1) that have "row_find k (db_jobs d) = Some r"
      by (auto simp: db_wf_def intro: row_find_mem)
    then show ?thesis by (rule assms(4))
  qed
  then have "\<forall>r \<in> set (row_update k f (db_jobs d)). row_check r \<and> nul_free (r_id r) \<and> nul_free (r_error r)"
    using assms(1-3) by (auto simp: db_wf_def row_update_def)
  moreover have "distinct (map r_id (row_update k f (db_jobs d)))"
    using assms(1,2) by (simp add: db_wf_def row_ids_update)
  ultimately show ?thesis by (simp add: db_wf_def)
qed

text \<open>An update function keeps the key and keeps the error text free of NUL.\<close>

definition keeps_key :: "(row \<Rightarrow> row) \<Rightarrow> bool" where
  "keeps_key f \<longleftrightarrow> (\<forall>x. r_id (f x) = r_id x \<and> (nul_free (r_error x) \<longrightarrow> nul_free (r_error (f x))))"

section \<open>The durable view of a job\<close>

text \<open>What \<open>load\<close> would return for the key: the abstraction the state machine laws are
  stated over.\<close>

definition abs_job :: "world \<Rightarrow> string \<Rightarrow> Job option" where
  "abs_job w k = Option.bind (db_find w k)
     (\<lambda>r. map_option (job_of_row r) (JobState_from_string (r_state r)))"

definition durable_state :: "world \<Rightarrow> string \<Rightarrow> JobState option" where
  "durable_state w k = map_option job_state (abs_job w k)"

lemma abs_job_ticked: "ticked w w' \<Longrightarrow> abs_job w' k = abs_job w k"
  by (simp add: abs_job_def db_find_ticked)

lemma durable_state_ticked: "ticked w w' \<Longrightarrow> durable_state w' k = durable_state w k"
  by (simp add: durable_state_def abs_job_ticked)

lemma abs_job_db: "w_db w' = w_db w \<Longrightarrow> abs_job w' k = abs_job w k"
  by (simp add: abs_job_def db_find_def)

lemma durable_state_Some:
  "durable_state w k = Some s \<longleftrightarrow> (\<exists>r. db_find w k = Some r \<and> r_state r = JobState_to_string s)"
proof (cases "db_find w k")
  case (Some r)
  then show ?thesis
    by (cases "JobState_from_string (r_state r)")
       (auto simp: durable_state_def abs_job_def job_of_row_def job_tokens.dec_Some_iff
         job_tokens.enc_inject job_tokens.dec_None_iff)
qed (simp add: durable_state_def abs_job_def)

lemma db_wf_find_check: "db_wf (w_db w) \<Longrightarrow> db_find w k = Some r \<Longrightarrow> row_check r"
  by (auto simp: db_wf_def db_find_def dest: row_find_Some)

lemma abs_job_wf_None: "db_wf (w_db w) \<Longrightarrow> abs_job w k = None \<longleftrightarrow> db_find w k = None"
  by (cases "db_find w k") (auto simp: abs_job_def dest: db_wf_find_check row_check_decodes)

section \<open>What each operation does\<close>

lemma load_spec:
  assumes "load i c w = (res, w')"
  shows load_ticked: "ticked w w'"
    and load_error: "res = Inl e \<Longrightarrow> e \<noteq> []"
    and load_absent: "res = Inr None \<Longrightarrow> db_find w (c_str i) = None"
    and load_found: "res = Inr (Some j) \<Longrightarrow> abs_job w (c_str i) = Some j"
proof -
  note defs = load_def abs_job_def
  from assms show t: "ticked w w'"
    by (auto simp: load_def split: if_splits prod.splits option.splits
        dest!: sql_call_ticked intro: ticked_trans)
  from assms show "res = Inl e \<Longrightarrow> e \<noteq> []"
    by (auto simp: load_def split: if_splits prod.splits option.splits)
  from assms show "res = Inr None \<Longrightarrow> db_find w (c_str i) = None"
    by (auto simp: load_def split: if_splits prod.splits option.splits
        dest!: sql_call_ticked simp: db_find_ticked)
  from assms show "res = Inr (Some j) \<Longrightarrow> abs_job w (c_str i) = Some j"
    by (auto simp: load_def abs_job_def split: if_splits prod.splits option.splits
        dest!: sql_call_ticked simp: db_find_ticked)
qed

lemma load_fault_free:
  assumes "fault_free w" and "c_open c" and "db_wf (w_db w)"
  shows "load i c w = (Inr (abs_job w (c_str i)), w\<lparr>w_tick := w_tick w + 2\<rparr>)"
proof -
  have "w_dbfault w (w_tick w) = None" "w_dbfault w (Suc (w_tick w)) = None"
    using assms(1) by (auto simp: fault_free_def)
  moreover have "\<exists>s. JobState_from_string (r_state r) = Some s"
    if "db_find w (c_str i) = Some r" for r
    using db_wf_find_check [OF assms(3) that] by (rule row_check_decodes)
  ultimately show ?thesis using assms(2)
    by (cases "db_find w (c_str i)") (auto simp: load_def sql_call_def abs_job_def db_find_def)
qed

text \<open>The row a transition writes.\<close>

definition transition_row :: "JobState \<Rightarrow> int \<Rightarrow> string \<Rightarrow> row \<Rightarrow> row" where
  "transition_row t now msg r = r\<lparr>r_state := JobState_to_string t, r_updated_at_ms := now,
     r_finished_at_ms := (if is_terminal t then now else r_finished_at_ms r),
     r_error := c_str (if t = Failed then msg else r_error r)\<rparr>"

lemma sql_update_job_spec:
  assumes "sql_update_job k f c w = (res, w')"
  shows "(\<exists>m. res = Inl m \<and> ticked w w') \<or>
    (res = Inr 0 \<and> db_find w k = None \<and> ticked w w') \<or>
    (\<exists>r. res = Inr 1 \<and> db_find w k = Some r \<and> row_check (f r) \<and>
       written w ((w_db w)\<lparr>db_jobs := row_update k f (db_jobs (w_db w))\<rparr>) w')"
proof -
  obtain r1 w1 where sw: "sql_write c w = (r1, w1)" by fastforce
  then have t: "ticked w w1" by (rule sql_write_ticked)
  note same = tickedD [OF t] db_find_def
  show ?thesis
  proof (cases r1)
    case (Some m)
    with assms sw t show ?thesis by (auto simp: sql_update_job_def)
  next
    case None
    show ?thesis
    proof (cases "row_find k (db_jobs (w_db w1))")
      case None2: None
      with assms sw t None show ?thesis by (auto simp: sql_update_job_def db_find_def tickedD)
    next
      case (Some r)
      have w1: "written w ((w_db w)\<lparr>db_jobs := rows\<rparr>) (w1\<lparr>w_db := (w_db w1)\<lparr>db_jobs := rows\<rparr>\<rparr>)" for rows
        using t by (cases w; cases w1) (auto simp: ticked_def written_def)
      with assms sw t None Some show ?thesis
        by (auto simp: sql_update_job_def db_find_def tickedD split: if_splits)
    qed
  qed
qed

text \<open>One row replaced, nothing else: the shape of every successful write to a job.\<close>

definition row_replaced :: "string \<Rightarrow> row \<Rightarrow> world \<Rightarrow> world \<Rightarrow> bool" where
  "row_replaced k r' w w' \<longleftrightarrow> (\<forall>k'. db_find w' k' = (if k' = k then Some r' else db_find w k')) \<and>
     w_fs w' = w_fs w \<and> same_env w w' \<and> (db_wf (w_db w) \<longrightarrow> db_wf (w_db w')) \<and>
     db_seq (w_db w') = db_seq (w_db w) \<and> w_dbfile w' = w_dbfile w"

lemma row_replacedI:
  assumes "written w ((w_db w)\<lparr>db_jobs := row_update k f (db_jobs (w_db w))\<rparr>) w'"
    and "db_find w k = Some r" and "row_check (f r)" and "keeps_key f"
  shows "row_replaced k (f r) w w'"
proof -
  note W = writtenD [OF assms(1)]
  have "db_find w' k' = (if k' = k then Some (f r) else db_find w k')" for k'
    using assms(2,4) by (simp add: db_find_def W row_find_update keeps_key_def)
  moreover have "db_wf (w_db w) \<longrightarrow> db_wf (w_db w')"
    using assms(2-4) by (auto simp: W db_find_def keeps_key_def intro!: db_wf_update)
  ultimately show ?thesis by (simp add: row_replaced_def W)
qed

text \<open>A prepared UPDATE of one job, as every writer of the store issues it.\<close>

lemma sql_update_job_cases:
  assumes "sql_update_job k f c w1 = (ur, w2)" and t: "ticked w w1" and idf: "keeps_key f"
  obtains (failed) m where "ur = Inl m" "ticked w w2"
  | (absent) "ur = Inr 0" "db_find w k = None" "ticked w w2"
  | (changed) r where "ur = Inr 1" "db_find w k = Some r" "row_replaced k (f r) w w2"
proof -
  have same: "db_find w1 k = db_find w k" "w_db w1 = w_db w"
    using t by (simp_all add: db_find_ticked tickedD)
  from sql_update_job_spec [OF assms(1)] show thesis
  proof (elim disjE exE conjE)
    fix m assume m: "ur = Inl m" "ticked w1 w2"
    from t m(2) have "ticked w w2" by (rule ticked_trans)
    with m(1) show thesis by (rule failed)
  next
    assume n: "ur = Inr 0" "db_find w1 k = None" "ticked w1 w2"
    from t n(3) have "ticked w w2" by (rule ticked_trans)
    with n(1,2) same show thesis by (intro absent) simp_all
  next
    fix r assume r: "ur = Inr 1" "db_find w1 k = Some r" "row_check (f r)"
      and wr: "written w1 ((w_db w1)\<lparr>db_jobs := row_update k f (db_jobs (w_db w1))\<rparr>) w2"
    from ticked_written [OF t wr] r idf same show thesis
      by (intro changed [of r] row_replacedI) simp_all
  qed
qed

lemma update_state_cases:
  assumes "update_state i t now msg c w = (res, w')"
  obtains (refused) e where "res = Inl e" "e \<noteq> []" "ticked w w'"
  | (stored) r s where "res = Inr ()" "db_find w (c_str i) = Some r" "r_state r = JobState_to_string s"
      "transition_ok s t msg" "row_replaced (c_str i) (transition_row t now msg r) w w'"
proof -
  obtain lr w1 where l: "load i c w = (lr, w1)" by fastforce
  note lt = load_ticked [OF l]
  consider "\<not> c_open c" | "c_open c" "\<exists>e. lr = Inl e" | "c_open c" "lr = Inr None"
    | j where "c_open c" "lr = Inr (Some j)" "\<not> transition_ok (job_state j) t msg"
    | j where "c_open c" "lr = Inr (Some j)" "transition_ok (job_state j) t msg"
    by (metis obj_sumE option.exhaust)
  then show thesis
  proof cases
    case 1
    with assms show thesis by (auto simp: update_state_def update_check_def update_write_def intro: refused)
  next
    case 2
    with assms l lt load_error [OF l] show thesis by (auto simp: update_state_def update_check_def update_write_def intro: refused)
  next
    case 3
    with assms l lt show thesis by (auto simp: update_state_def update_check_def update_write_def intro: refused)
  next
    case (4 j)
    with assms l lt show thesis by (auto simp: update_state_def update_check_def update_write_def transition_refused intro: refused)
  next
    case (5 j)
    from load_found [OF l 5(2)] obtain r s where r: "db_find w (c_str i) = Some r"
      and s: "r_state r = JobState_to_string s" and j: "j = job_of_row r s"
      by (auto simp: abs_job_def bind_eq_Some_conv job_tokens.dec_Some_iff)
    define j' where "j' = snd (Job_transition t now msg j)"
    define f where "f = (\<lambda>r::row. r\<lparr>r_state := JobState_to_string (job_state j'),
      r_updated_at_ms := updated_at_ms j', r_finished_at_ms := finished_at_ms j',
      r_error := c_str (job_error j')\<rparr>)"
    have tr: "Job_transition t now msg j = (True, j')" and fr: "f r = transition_row t now msg r"
      using 5 j by (simp_all add: f_def j'_def transition_accepted transition_row_def job_of_row_def)
    obtain pr w2 where p: "sql_call w1 = (pr, w2)" by fastforce
    have t2: "ticked w w2" using lt sql_call_ticked [OF p] by (rule ticked_trans)
    obtain ur w3 where u: "sql_update_job (c_str i) f c w2 = (ur, w3)" by fastforce
    have res: "(res, w') = (case pr of Some m \<Rightarrow> (Inl (fail_msg ''preparing update_state'' m), w2)
        | None \<Rightarrow> (case ur of Inl m \<Rightarrow> (Inl (fail_msg (''updating job '' @ quoted i) m), w3)
                  | Inr _ \<Rightarrow> (Inr (), w3)))"
      using assms 5 l tr p u unfolding f_def by (simp add: update_state_def update_check_def update_write_def split: option.splits)
    show thesis
    proof (cases pr)
      case (Some m)
      with res t2 show thesis by (auto intro: refused)
    next
      case None
      have "keeps_key f" by (simp add: f_def keeps_key_def)
      with u t2 show thesis
      proof (cases rule: sql_update_job_cases)
        case (failed m)
        with res None show thesis by (auto intro: refused)
      next
        case absent
        with r show thesis by simp
      next
        case (changed r')
        with r have "r' = r" by simp
        with changed res None r s fr 5 j show thesis
          by (intro stored [of r s]) (simp_all add: job_of_row_def)
      qed
    qed
  qed
qed

lemma record_transition_cases:
  assumes "record_transition i t now msg ph c w = (res, w')"
  obtains (refused) e where "res = (if ph = BeforeCommitPoint then AbortJob else HaltProcess, Some e)"
      "e \<noteq> []" "ticked w w'"
  | (stored) r s where "res = (NoAction, None)" "db_find w (c_str i) = Some r"
      "r_state r = JobState_to_string s" "transition_ok s t msg"
      "row_replaced (c_str i) (transition_row t now msg r) w w'"
proof -
  obtain ur w1 where u: "update_state i t now msg c w = (ur, w1)" by fastforce
  from u show thesis
  proof (cases rule: update_state_cases)
    case (refused e)
    define nt where "nt = (if ph = BeforeCommitPoint then before_commit_note else after_commit_note)"
    from refused assms u have "w' = w1"
      "res = (if ph = BeforeCommitPoint then AbortJob else HaltProcess, Some (e @ nt))"
      by (auto simp: record_transition_def nt_def split: if_splits)
    with refused show ?thesis by (intro that(1) [of "e @ nt"]) auto
  next
    case (stored r s)
    with assms u show ?thesis by (intro that(2) [of r s]) (simp_all add: record_transition_def)
  qed
qed

lemma mark_needs_attention_cases:
  assumes "mark_needs_attention i reason c w = (res, w')"
  obtains (refused) e where "res = Inl e" "ticked w w'"
  | (stored) r where "res = Inr ()" "db_find w (c_str i) = Some r"
      "row_replaced (c_str i) (r\<lparr>r_needs_attention := 1, r_attention_reason := c_str reason\<rparr>) w w'"
proof (cases "c_open c \<and> reason \<noteq> []")
  case False
  with assms show thesis by (auto simp: mark_needs_attention_def split: if_splits intro: refused)
next
  case True
  define f where "f = (\<lambda>r::row. r\<lparr>r_needs_attention := 1, r_attention_reason := c_str reason\<rparr>)"
  obtain pr w1 where p: "sql_call w = (pr, w1)" by fastforce
  obtain ur w2 where u: "sql_update_job (c_str i) f c w1 = (ur, w2)" by fastforce
  have t1: "ticked w w1" using p by (rule sql_call_ticked)
  have res: "(res, w') = (case pr of Some m \<Rightarrow> (Inl (fail_msg ''preparing mark_needs_attention'' m), w1)
      | None \<Rightarrow> (case ur of Inl m \<Rightarrow> (Inl (fail_msg (''flagging job '' @ quoted i) m), w2)
           | Inr n \<Rightarrow> (if n = 0 then (Inl (no_such_job_msg i), w2) else (Inr (), w2))))"
    using assms True p u unfolding f_def by (simp add: mark_needs_attention_def split: option.splits)
  show thesis
  proof (cases pr)
    case (Some m)
    with res t1 show thesis by (auto intro: refused)
  next
    case None
    have "keeps_key f" by (simp add: f_def keeps_key_def)
    with u t1 show thesis
    proof (cases rule: sql_update_job_cases)
      case (changed r)
      with res None show thesis by (intro stored [of r]) (simp_all add: f_def)
    qed (use res None in \<open>auto intro: refused\<close>)
  qed
qed

lemma record_attempt_cases:
  assumes "record_attempt i due reason c w = (res, w')"
  obtains (refused) e where "res = Inl e" "e \<noteq> []" "ticked w w'"
  | (stored) r where "res = Inr ()" "db_find w (c_str i) = Some r"
      "row_replaced (c_str i) (r\<lparr>r_attempts := r_attempts r + 1, r_next_retry_ms := due,
         r_last_error := c_str reason\<rparr>) w w'"
proof (cases "c_open c")
  case False
  with assms show thesis by (auto simp: record_attempt_def intro: refused)
next
  case True
  define f where "f = (\<lambda>r::row. r\<lparr>r_attempts := r_attempts r + 1, r_next_retry_ms := due,
    r_last_error := c_str reason\<rparr>)"
  obtain pr w1 where p: "sql_call w = (pr, w1)" by fastforce
  obtain ur w2 where u: "sql_update_job (c_str i) f c w1 = (ur, w2)" by fastforce
  have t1: "ticked w w1" using p by (rule sql_call_ticked)
  have res: "(res, w') = (case pr of Some m \<Rightarrow> (Inl (fail_msg ''preparing record_attempt'' m), w1)
      | None \<Rightarrow> (case ur of Inl m \<Rightarrow> (Inl (fail_msg (''recording attempt for job '' @ quoted i) m), w2)
           | Inr n \<Rightarrow> (if n = 0 then (Inl (no_such_job_msg i), w2) else (Inr (), w2))))"
    using assms True p u unfolding f_def by (simp add: record_attempt_def split: option.splits)
  show thesis
  proof (cases pr)
    case (Some m)
    with res t1 show thesis by (auto intro: refused)
  next
    case None
    have "keeps_key f" by (simp add: f_def keeps_key_def)
    with u t1 show thesis
    proof (cases rule: sql_update_job_cases)
      case (changed r)
      with res None show thesis by (intro stored [of r]) (simp_all add: f_def)
    qed (use res None in \<open>auto intro: refused\<close>)
  qed
qed

lemma record_intent_cases:
  assumes "record_intent job retry_of c w = (res, w')"
  obtains (refused) e where "res = Inl e" "e \<noteq> []" "ticked w w'"
  | (stored) "res = Inr ()" "db_find w (c_str (job_id job)) = None" "row_check (row_of_job job retry_of)"
      "written w ((w_db w)\<lparr>db_jobs := db_jobs (w_db w) @ [row_of_job job retry_of]\<rparr>) w'"
proof (cases "c_open c")
  case False
  with assms show thesis by (auto simp: record_intent_def intro: refused)
next
  case True
  obtain pr w1 where p: "sql_call w = (pr, w1)" by fastforce
  obtain sr w2 where u: "sql_write c w1 = (sr, w2)" by fastforce
  have t1: "ticked w w1" using p by (rule sql_call_ticked)
  have t2: "ticked w w2" using t1 sql_write_ticked [OF u] by (rule ticked_trans)
  define r where "r = row_of_job job retry_of"
  have rid: "r_id r = c_str (job_id job)" by (simp add: r_def row_of_job_def)
  consider m where "pr = Some m" | m where "pr = None" "sr = Some m"
    | "pr = None" "sr = None" "db_find w (r_id r) \<noteq> None \<or> \<not> row_check r"
    | "pr = None" "sr = None" "db_find w (r_id r) = None" "row_check r"
    by (cases pr; cases sr) auto
  then show thesis
  proof cases
    case 1
    with assms True p t1 show thesis by (intro refused) (auto simp: record_intent_def)
  next
    case 2
    with assms True p u t2 show thesis
      by (auto simp: record_intent_def sql_insert_job_def intro: refused)
  next
    case 3
    with assms True p u t2 show thesis
      by (auto simp: record_intent_def sql_insert_job_def r_def db_find_def tickedD
          split: if_splits intro: refused)
  next
    case 4
    have wr: "written w ((w_db w)\<lparr>db_jobs := rows\<rparr>) (w2\<lparr>w_db := (w_db w2)\<lparr>db_jobs := rows\<rparr>\<rparr>)" for rows
      using t2 by (cases w; cases w2) (auto simp: ticked_def written_def)
    from 4 assms True p u t2 have "res = Inr ()"
      and "w' = w2\<lparr>w_db := (w_db w2)\<lparr>db_jobs := db_jobs (w_db w) @ [r]\<rparr>\<rparr>"
      by (auto simp: record_intent_def sql_insert_job_def r_def db_find_def tickedD split: if_splits)
    with wr 4 rid show thesis by (intro stored) (simp_all add: r_def)
  qed
qed

section \<open>The state machine is implemented\<close>

lemma job_of_transition_row:
  assumes "transition_ok s t msg" and "nul_free msg" and "nul_free (r_error r)"
  shows "job_of_row (transition_row t now msg r) t = snd (Job_transition t now msg (job_of_row r s))"
  using assms by (auto simp: transition_row_def job_of_row_def transition_accepted)

lemma abs_job_replaced:
  assumes "row_replaced k r' w w'" and "JobState_from_string (r_state r') = Some s"
  shows "abs_job w' k' = (if k' = k then Some (job_of_row r' s) else abs_job w k')"
  using assms by (simp add: abs_job_def row_replaced_def)

lemma from_string_transition_row [simp]:
  "JobState_from_string (r_state (transition_row t now msg r)) = Some t"
  by (simp add: transition_row_def job_tokens.dec_enc)

lemma row_check_transition:
  assumes "row_check r" and "r_state r = JobState_to_string s" and "transition_ok s t msg" and "nul_free msg"
    and "nul_free (r_error r)"
  shows "row_check (transition_row t now msg r)"
proof -
  have "r_error r = []"
    using assms(1-3) by (cases s) (auto simp: row_check_def transition_ok_def)
  then show ?thesis using assms
    by (cases t) (auto simp: row_check_def transition_row_def transition_ok_def)
qed

lemma update_state_fault_free:
  assumes "fault_free w" and "c_open c" and "\<not> c_query_only c" and wf: "db_wf (w_db w)"
    and "nul_free i" and nm: "nul_free msg" and j: "abs_job w i = Some j"
    and ok: "transition_ok (job_state j) t msg"
  shows "fst (update_state i t now msg c w) = Inr ()"
proof -
  obtain r s where r: "db_find w i = Some r" and s: "r_state r = JobState_to_string s"
    and jr: "j = job_of_row r s"
    using j by (auto simp: abs_job_def bind_eq_Some_conv job_tokens.dec_Some_iff)
  have nr: "nul_free (r_error r)" and ck: "row_check r"
    using wf r by (auto simp: db_wf_def db_find_def dest: row_find_Some)
  have f: "w_dbfault w n = None" if "n \<ge> w_tick w" for n
    using assms(1) that by (simp add: fault_free_def)
  define j' where "j' = snd (Job_transition t now msg j)"
  have tr: "Job_transition t now msg j = (True, j')" using ok by (simp add: j'_def transition_accepted)
  have "r\<lparr>r_state := JobState_to_string (job_state j'), r_updated_at_ms := updated_at_ms j',
      r_finished_at_ms := finished_at_ms j', r_error := c_str (job_error j')\<rparr> = transition_row t now msg r"
    using ok jr by (simp add: j'_def transition_accepted transition_row_def job_of_row_def)
  moreover have "row_check (transition_row t now msg r)"
    using ck s ok jr nm nr by (intro row_check_transition) (simp_all add: job_of_row_def)
  ultimately show ?thesis
    using assms(2,3,5) r tr f j load_fault_free [OF assms(1,2) wf, of i]
    by (simp add: update_state_def update_check_def update_write_def sql_call_def sql_update_job_def sql_write_def db_find_def)
qed

section \<open>Opening and sequences\<close>

lemma exec_sql_ticked: "exec_sql what w = (r, w') \<Longrightarrow> ticked w w'"
  by (auto simp: exec_sql_def dest!: sql_call_ticked split: prod.splits option.splits)

lemma query_value_ticked: "query_value sql a w = (r, w') \<Longrightarrow> ticked w w'"
  by (auto simp: query_value_def dest!: sql_call_ticked split: prod.splits option.splits
      intro: ticked_trans)

lemma query_value_Inr: "query_value sql a w = (Inr v, w') \<Longrightarrow> a = Some v"
  by (auto simp: query_value_def split: prod.splits option.splits)

lemma rollback_ticked: "ticked w (rollback_quietly w)"
  by (cases "exec_sql ''rolling back'' w") (auto simp: rollback_quietly_def dest: exec_sql_ticked)

lemma check_integrity_ticked: "check_integrity path pa ex w = (r, w') \<Longrightarrow> ticked w w'"
  by (auto simp: check_integrity_def query_text_def dest!: query_value_ticked
      split: prod.splits sum.splits if_splits)

lemma apply_settings_ticked: "apply_settings pa w = (r, w') \<Longrightarrow> ticked w w'"
  unfolding apply_settings_def query_text_def query_int_def
  by (auto dest!: exec_sql_ticked query_value_ticked split: prod.splits sum.splits if_splits
      elim!: tickedE)

lemma create_schema_cases:
  assumes "create_schema w = (r, w')"
  shows "(\<exists>e. r = Inl e \<and> ticked w w') \<or> (r = Inr () \<and> written w (with_schema (w_db w)) w')"
proof -
  have roll: "w_tick w \<le> n \<Longrightarrow> ticked w (rollback_quietly (w\<lparr>w_tick := n\<rparr>))" for n
    using rollback_ticked [of "w\<lparr>w_tick := n\<rparr>"] by (auto intro: ticked_trans [rotated])
  from assms show ?thesis unfolding create_schema_def
    by (auto dest!: exec_sql_ticked split: prod.splits sum.splits elim!: tickedE
        simp: written_upd roll)
qed

lemma check_schema_cases:
  assumes "check_schema w = (r, w')"
  shows "ticked w w' \<or> (r = Inr () \<and> column_int (db_user_version (w_db w)) = 0 \<and>
    written w (with_schema (w_db w)) w')"
proof -
  obtain q w1 where q: "query_int ''PRAGMA user_version;'' (Some (db_user_version (w_db w))) w = (q, w1)"
    by fastforce
  then have t: "ticked w w1" by (auto simp: query_int_def dest: query_value_ticked)
  show ?thesis
  proof (cases q)
    case (Inl e)
    with assms q t show ?thesis by (simp add: check_schema_def)
  next
    case (Inr v)
    then have v: "v = column_int (db_user_version (w_db w))"
      using q by (auto simp: query_int_def dest: query_value_Inr)
    show ?thesis
    proof (cases "v = 0")
      case False
      with assms q t Inr show ?thesis by (auto simp: check_schema_def split: if_splits)
    next
      case True
      with assms q Inr have "create_schema w1 = (r, w')" by (simp add: check_schema_def)
      from create_schema_cases [OF this] True v t show ?thesis
        by (auto simp: tickedD intro: ticked_trans ticked_written)
    qed
  qed
qed

lemma with_schema_jobs [simp]: "db_jobs (with_schema d) = db_jobs d"
  by (simp add: with_schema_def)

lemma next_sequence_cases:
  assumes "next_sequence c w = (r, w')"
  shows "(\<exists>e. r = Inl e \<and> ticked w w') \<or>
    (\<exists>v. db_seq (w_db w) = Some v \<and> r = Inr (to_u64 (column_int (v + 1))) \<and>
       written w ((w_db w)\<lparr>db_seq := Some (v + 1)\<rparr>) w')"
proof (cases "c_open c")
  case False
  with assms show ?thesis by (auto simp: next_sequence_def)
next
  case True
  obtain r1 w1 where a: "exec_sql ''beginning sequence bump'' w = (r1, w1)" by fastforce
  obtain r2 w2 where b: "sql_write c w1 = (r2, w2)" by fastforce
  define bumped where "bumped = map_option (\<lambda>v. v + 1) (db_seq (w_db w2))"
  obtain r3 w3 where q: "query_int ''SELECT next FROM job_sequence WHERE id = 1;'' bumped w2 = (r3, w3)"
    by fastforce
  obtain r4 w4 where d: "exec_sql ''committing sequence bump'' w3 = (r4, w4)" by fastforce
  have t1: "ticked w w1" using a by (rule exec_sql_ticked)
  have t2: "ticked w w2" using t1 sql_write_ticked [OF b] by (rule ticked_trans)
  have t3: "ticked w w3" using t2 q by (auto simp: query_int_def dest: query_value_ticked ticked_trans)
  have t4: "ticked w w4" using t3 exec_sql_ticked [OF d] by (rule ticked_trans)
  have up: "written w ((w_db w)\<lparr>db_seq := x\<rparr>) (w4\<lparr>w_db := (w_db w4)\<lparr>db_seq := x\<rparr>\<rparr>)" for x
    using t4 by (cases w; cases w4) (auto simp: ticked_def written_def)
  have v: "\<exists>u. db_seq (w_db w) = Some u \<and> v = column_int (u + 1) \<and> bumped = Some (u + 1)" if "r3 = Inr v" for v
    using q that t2 by (auto simp: query_int_def bumped_def tickedD dest!: query_value_Inr)
  have res: "(r, w') = (case r1 of Inl e \<Rightarrow> (Inl e, w1) | Inr _ \<Rightarrow>
      (case r2 of Some m \<Rightarrow> (Inl (fail_msg ''bumping sequence'' m), rollback_quietly w2) | None \<Rightarrow>
      (case r3 of Inl e \<Rightarrow> (Inl e, rollback_quietly w3) | Inr v \<Rightarrow>
      (case r4 of Inl e \<Rightarrow> (Inl e, rollback_quietly w4) | Inr _ \<Rightarrow>
        (Inr (to_u64 v), w4\<lparr>w_db := (w_db w4)\<lparr>db_seq := bumped\<rparr>\<rparr>)))))"
    using assms True a b q d by (simp add: next_sequence_def bumped_def Let_def
        split: sum.splits option.splits)
  show ?thesis
  proof (cases "\<exists>x v y. r1 = Inr x \<and> r2 = None \<and> r3 = Inr v \<and> r4 = Inr y")
    case True
    with res up v show ?thesis by fastforce
  next
    case False
    with res t1 t2 t3 t4 show ?thesis
      by (auto split: sum.splits option.splits intro: ticked_trans rollback_ticked)
  qed
qed

lemma store_open_cases:
  assumes "store_open path pa c w = (r, c', w')"
  shows "same_env w w' \<and>
    (w_dbfile w \<longrightarrow> w_dbfile w' \<and> (w_db w' = w_db w \<or>
       column_int (db_user_version (w_db w)) = 0 \<and> w_db w' = with_schema (w_db w)))"
proof -
  obtain k w1 where k: "kcall w = (k, w1)" by fastforce
  obtain m w2 where m: "sql_call w1 = (m, w2)" by fastforce
  define w3 where "w3 = (if w_dbfile w2 then w2 else w2\<lparr>w_dbfile := True, w_db := empty_db\<rparr>)"
  obtain r4 w4 where i: "check_integrity path pa (k = None \<and> w_dbfile w1) w3 = (r4, w4)" by fastforce
  obtain r5 w5 where s: "apply_settings pa w4 = (r5, w5)" by fastforce
  obtain r6 w6 where h: "check_schema w5 = (r6, w6)" by fastforce
  have e1: "same_env w w1" "w_db w1 = w_db w" "w_dbfile w1 = w_dbfile w"
    using k by (auto simp: kcall_def same_env_def)
  have t2: "ticked w1 w2" using m by (rule sql_call_ticked)
  have e3: "same_env w2 w3" by (simp add: w3_def same_env_def)
  have t5: "ticked w3 w4" "ticked w4 w5"
    using check_integrity_ticked [OF i] apply_settings_ticked [OF s] by simp_all
  have e6: "same_env w5 w6" using check_schema_cases [OF h] by (auto dest: tickedD writtenD)
  have envs: "same_env w w2" "same_env w w4" "same_env w w5" "same_env w w6"
    using e1(1) t2 e3 t5 e6 by (meson same_env_trans tickedD(4))+
  have "w' \<in> {w2, w4, w5, w6}"
    using assms k m i s h by (auto simp: store_open_def w3_def Let_def split: option.splits sum.splits)
  moreover have "w_dbfile w \<Longrightarrow> w_db w5 = w_db w \<and> w_dbfile w5 \<and> w_db w4 = w_db w \<and> w_dbfile w4 \<and>
      w_db w2 = w_db w \<and> w_dbfile w2"
    using e1 t2 t5 by (auto simp: w3_def tickedD)
  moreover have "w_dbfile w5 \<Longrightarrow> w_dbfile w6 \<and> (w_db w6 = w_db w5 \<or>
      column_int (db_user_version (w_db w5)) = 0 \<and> w_db w6 = with_schema (w_db w5))"
    using check_schema_cases [OF h] by (auto dest: tickedD writtenD)
  ultimately show ?thesis using envs by auto
qed

section \<open>All runs of the store\<close>

text \<open>One operation of \<open>JobStore\<close>, with any arguments and any faults; a restart is a close
  followed by an open.\<close>

inductive store_step :: "conn \<times> world \<Rightarrow> conn \<times> world \<Rightarrow> bool" where
  intent: "record_intent job retry_of c w = (res, w') \<Longrightarrow> store_step (c, w) (c, w')"
| state: "update_state i t now msg c w = (res, w') \<Longrightarrow> store_step (c, w) (c, w')"
| transition: "record_transition i t now msg ph c w = (act, w') \<Longrightarrow> store_step (c, w) (c, w')"
| attention: "mark_needs_attention i reason c w = (res, w') \<Longrightarrow> store_step (c, w) (c, w')"
| attempt: "record_attempt i due reason c w = (res, w') \<Longrightarrow> store_step (c, w) (c, w')"
| sequence: "next_sequence c w = (sres, w') \<Longrightarrow> store_step (c, w) (c, w')"
| inject: "inject_write_fault f pages c w = (res, c', w') \<Longrightarrow> store_step (c, w) (c', w')"
| open_store: "store_open path pa c w = (ores, c', w') \<Longrightarrow> store_step (c, w) (c', w')"
| close_store: "store_step (c, w) (store_close c, w)"

text \<open>How the record of one job may differ later: the identity is fixed, the state has
  moved along legal edges only, and a finished record is frozen.\<close>

definition job_evolves :: "Job \<Rightarrow> Job \<Rightarrow> bool" where
  "job_evolves j j' \<longleftrightarrow> job_id j' = job_id j \<and> source_path j' = source_path j \<and>
     dest_path j' = dest_path j \<and> created_at_ms j' = created_at_ms j \<and>
     is_legal_transition\<^sup>*\<^sup>* (job_state j) (job_state j') \<and> (is_terminal (job_state j) \<longrightarrow> j' = j)"

definition seq_le :: "int option \<Rightarrow> int option \<Rightarrow> bool" where
  "seq_le a b \<longleftrightarrow> (case a of None \<Rightarrow> True | Some u \<Rightarrow> (case b of None \<Rightarrow> False | Some v \<Rightarrow> u \<le> v))"

definition records_kept :: "world \<Rightarrow> world \<Rightarrow> bool" where
  "records_kept w w' \<longleftrightarrow> (\<forall>k j. abs_job w k = Some j \<longrightarrow> (\<exists>j'. abs_job w' k = Some j' \<and> job_evolves j j')) \<and>
     seq_le (db_seq (w_db w)) (db_seq (w_db w'))"

lemma job_evolves_refl [simp]: "job_evolves j j"
  by (simp add: job_evolves_def)

lemma job_evolves_trans: "job_evolves a b \<Longrightarrow> job_evolves b c \<Longrightarrow> job_evolves a c"
  by (auto simp: job_evolves_def)

lemma seq_le_refl [simp]: "seq_le a a"
  by (simp add: seq_le_def split: option.splits)

lemma seq_le_trans: "seq_le a b \<Longrightarrow> seq_le b c \<Longrightarrow> seq_le a c"
  by (auto simp: seq_le_def split: option.splits)

lemma records_kept_refl [simp]: "records_kept w w"
  by (simp add: records_kept_def)

lemma records_kept_trans: "records_kept u v \<Longrightarrow> records_kept v w \<Longrightarrow> records_kept u w"
  unfolding records_kept_def by (meson job_evolves_trans seq_le_trans)

lemma records_kept_ticked: "ticked w w' \<Longrightarrow> records_kept w w'"
  by (simp add: records_kept_def abs_job_ticked tickedD)

lemma records_kept_jobs:
  "db_jobs (w_db w') = db_jobs (w_db w) \<Longrightarrow> seq_le (db_seq (w_db w)) (db_seq (w_db w')) \<Longrightarrow> records_kept w w'"
  by (simp add: records_kept_def abs_job_def db_find_def)

lemma transition_evolves:
  assumes "transition_ok s t msg"
  shows "job_evolves (job_of_row r s) (job_of_row (transition_row t now msg r) t)"
  using assms by (auto simp: job_evolves_def job_of_row_def transition_row_def transition_ok_def
      terminal_stuck)

lemma records_kept_transition:
  assumes "row_replaced k (transition_row t now msg r) w w'" and "db_find w k = Some r"
    and "r_state r = JobState_to_string s" and "transition_ok s t msg"
  shows "records_kept w w'"
  using assms transition_evolves [OF assms(4)]
  by (auto simp: records_kept_def abs_job_replaced [OF assms(1)] row_replaced_def abs_job_def
      job_tokens.dec_enc)

lemma records_kept_same_job:
  assumes "row_replaced k r' w w'" and "db_find w k = Some r" and "r_state r' = r_state r"
    and "\<And>s. job_of_row r' s = job_of_row r s"
  shows "records_kept w w'"
  using assms by (auto simp: records_kept_def row_replaced_def abs_job_def)

text \<open>One step: the file stays well formed and nothing recorded is lost.\<close>

definition store_safe :: "world \<Rightarrow> world \<Rightarrow> bool" where
  "store_safe w w' \<longleftrightarrow> (db_wf (w_db w) \<longrightarrow> w_dbfile w \<longrightarrow>
     db_wf (w_db w') \<and> w_dbfile w' \<and> records_kept w w')"

lemma store_safe_ticked: "ticked w w' \<Longrightarrow> store_safe w w'"
  by (simp add: store_safe_def tickedD records_kept_ticked)

lemma store_safe_replaced: "row_replaced k r w w' \<Longrightarrow> records_kept w w' \<Longrightarrow> store_safe w w'"
  by (simp add: store_safe_def row_replaced_def)

lemma record_intent_safe:
  assumes "record_intent job retry_of c w = (res, w')"
  shows "store_safe w w'"
  using assms
proof (cases rule: record_intent_cases)
  case stored
  note W = writtenD [OF stored(4)]
  have new: "r_id (row_of_job job retry_of) = c_str (job_id job)"
    "nul_free (r_error (row_of_job job retry_of))" by (simp_all add: row_of_job_def)
  have "records_kept w w'"
    using stored(2) by (auto simp: records_kept_def abs_job_def db_find_def W row_find_append
        bind_eq_Some_conv split: option.splits)
  moreover have "db_wf (w_db w) \<Longrightarrow> db_wf (w_db w')"
    using stored(2,3) new by (auto simp: W db_find_def intro!: db_wf_insert)
  ultimately show ?thesis by (simp add: store_safe_def W)
qed (rule store_safe_ticked)

lemma update_state_safe:
  assumes "update_state i t now msg c w = (res, w')"
  shows "store_safe w w'"
  using assms by (cases rule: update_state_cases)
    (blast intro: store_safe_ticked store_safe_replaced records_kept_transition)+

lemma record_transition_safe:
  assumes "record_transition i t now msg ph c w = (res, w')"
  shows "store_safe w w'"
  using assms by (cases rule: record_transition_cases)
    (blast intro: store_safe_ticked store_safe_replaced records_kept_transition)+

lemma mark_needs_attention_safe:
  assumes "mark_needs_attention i reason c w = (res, w')"
  shows "store_safe w w'"
  using assms
proof (cases rule: mark_needs_attention_cases)
  case (stored r)
  from stored(3,2) have "records_kept w w'"
    by (rule records_kept_same_job) (simp_all add: job_of_row_def)
  with stored(3) show ?thesis by (rule store_safe_replaced)
qed (rule store_safe_ticked)

lemma record_attempt_safe:
  assumes "record_attempt i due reason c w = (res, w')"
  shows "store_safe w w'"
  using assms
proof (cases rule: record_attempt_cases)
  case (stored r)
  from stored(3,2) have "records_kept w w'"
    by (rule records_kept_same_job) (simp_all add: job_of_row_def)
  with stored(3) show ?thesis by (rule store_safe_replaced)
qed (rule store_safe_ticked)

lemma next_sequence_safe:
  assumes "next_sequence c w = (res, w')"
  shows "store_safe w w'"
  using next_sequence_cases [OF assms]
proof (elim disjE exE conjE)
  fix v assume "db_seq (w_db w) = Some v" and wr: "written w ((w_db w)\<lparr>db_seq := Some (v + 1)\<rparr>) w'"
  then show ?thesis
    by (auto simp: store_safe_def writtenD [OF wr] seq_le_def db_wf_def intro!: records_kept_jobs)
qed (rule store_safe_ticked)

lemma inject_write_fault_ticked: "inject_write_fault f pages c w = (res, c', w') \<Longrightarrow> ticked w w'"
  unfolding inject_write_fault_def query_int_def
  by (cases f) (auto dest!: exec_sql_ticked query_value_ticked split: prod.splits sum.splits if_splits
      elim!: tickedE)

lemma store_open_safe_step:
  assumes "store_open path pa c w = (res, c', w')"
  shows "store_safe w w'"
proof -
  have "records_kept w w'" and "db_wf (w_db w) \<Longrightarrow> db_wf (w_db w')" and "w_dbfile w'" if f: "w_dbfile w"
    using store_open_cases [OF assms] f
    by (auto simp: with_schema_def seq_le_def db_wf_def intro!: records_kept_jobs split: option.splits)
  then show ?thesis by (simp add: store_safe_def)
qed

lemma store_step_safe:
  assumes "store_step s t"
  shows "store_safe (snd s) (snd t)"
  using assms by cases (simp_all add: record_intent_safe update_state_safe record_transition_safe
      mark_needs_attention_safe record_attempt_safe next_sequence_safe store_open_safe_step
      store_safe_ticked inject_write_fault_ticked)

definition store_inv :: "world \<Rightarrow> conn \<times> world \<Rightarrow> bool" where
  "store_inv w0 s \<longleftrightarrow> db_wf (w_db (snd s)) \<and> w_dbfile (snd s) \<and> records_kept w0 (snd s)"

interpretation store_sys: step_system store_step "store_inv w0" for w0
proof
  fix s t assume "store_inv w0 s" and "store_step s t"
  then show "store_inv w0 t"
    using store_step_safe [of s t] by (auto simp: store_inv_def store_safe_def intro: records_kept_trans)
qed

lemma store_runs:
  assumes "store_step\<^sup>*\<^sup>* (c, w) (c', w')" and "db_wf (w_db w)" and "w_dbfile w"
  shows "db_wf (w_db w') \<and> records_kept w w'"
  using store_sys.inv_reach [OF assms(1), of w] assms(2,3) by (simp add: store_inv_def)

section \<open>Reading loops\<close>

lemma step_rows_ok:
  assumes "step_rows what g rows w = (Inr xs, w')"
  shows "ticked w w' \<and> map g rows = map Inr xs"
  using assms
proof (induction rows arbitrary: w xs)
  case Nil
  then show ?case by (auto dest: sql_call_ticked split: prod.splits option.splits)
next
  case (Cons r rows)
  then obtain w1 y ys where "sql_call w = (None, w1)" and "g r = Inr y"
    and "step_rows what g rows w1 = (Inr ys, w')" and "xs = y # ys"
    by (auto split: prod.splits option.splits sum.splits)
  with Cons.IH [of w1 ys] show ?case by (auto dest: sql_call_ticked intro: ticked_trans)
qed

lemma map_Inr_eq: "map (\<lambda>r. Inr (h r)) xs = map Inr ys \<longleftrightarrow> ys = map h xs"
  by (induction xs arbitrary: ys) (auto simp: Cons_eq_map_conv)

lemma step_rows_total:
  assumes "\<forall>n \<ge> w_tick w. w_dbfault w n = None" and "\<forall>r \<in> set rows. g r = Inr (h r)"
  shows "fst (step_rows what g rows w) = Inr (map h rows)"
  using assms
proof (induction rows arbitrary: w)
  case Nil
  then show ?case by (simp add: sql_call_def)
next
  case (Cons r rows)
  then have "fst (step_rows what g rows (w\<lparr>w_tick := Suc (w_tick w)\<rparr>)) = Inr (map h rows)" by simp
  with Cons.prems show ?case
    by (cases "step_rows what g rows (w\<lparr>w_tick := Suc (w_tick w)\<rparr>)") (simp add: sql_call_def)
qed

lemma step_groups_ok:
  assumes "step_groups gs out w = (Inr out', w')" and "distinct (map fst gs)"
  shows "\<forall>s. out' s = (case map_of gs (JobState_to_string s) of Some n \<Rightarrow> to_u64 n | None \<Rightarrow> out s)"
  using assms
proof (induction gs out w rule: step_groups.induct)
  case (1 out w)
  then show ?case by (auto split: prod.splits option.splits)
next
  case (2 token n gs out w)
  then obtain w1 s where w1: "sql_call w = (None, w1)" and s: "JobState_from_string token = Some s"
    and rest: "step_groups gs (out(s := to_u64 n)) w1 = (Inr out', w')"
    by (auto split: prod.splits option.splits)
  have tok: "token = JobState_to_string s" using s by (simp add: job_tokens.dec_Some_iff)
  have "map_of gs token = None" using "2.prems"(2) by (simp add: map_of_eq_None_iff)
  with "2.IH" [OF w1 [symmetric] refl s rest] "2.prems"(2) tok show ?case
    by (auto simp: job_tokens.enc_inject split: option.splits)
qed

lemma state_groups_lookup:
  "map_of (state_groups rows) t =
     (if t \<in> r_state ` set rows then Some (int (length (filter (\<lambda>r. r_state r = t) rows))) else None)"
  by (simp add: state_groups_def map_of_map_restrict restrict_map_def)

lemma state_groups_distinct: "distinct (map fst (state_groups rows))"
  by (simp add: state_groups_def comp_def)

section \<open>Properties\<close>

text \<open>C7. Safety of the store over every run: from a well-formed database file, after any
  sequence of operations with any arguments, any failing SQLite calls and any restarts,
  the schema constraints still hold, every job recorded before is still recorded under
  the same identity and paths, its state has moved along legal transitions only, a
  finished job is unchanged, and the sequence counter has not decreased.\<close>

theorem store_run_safety:
  assumes "store_step\<^sup>*\<^sup>* (c, w) (c', w')" and "db_wf (w_db w)" and "w_dbfile w"
  shows "db_wf (w_db w') \<and> seq_le (db_seq (w_db w)) (db_seq (w_db w')) \<and>
    (\<forall>k j. abs_job w k = Some j \<longrightarrow> (\<exists>j'. abs_job w' k = Some j' \<and>
        job_id j' = job_id j \<and> source_path j' = source_path j \<and> dest_path j' = dest_path j \<and>
        is_legal_transition\<^sup>*\<^sup>* (job_state j) (job_state j') \<and>
        (is_terminal (job_state j) \<longrightarrow> j' = j)))"
  using store_runs [OF assms] by (auto simp: records_kept_def job_evolves_def)

text \<open>A small concrete world: the database file holds one queued job.\<close>

definition demo_fs :: fsys where
  "demo_fs = \<lparr>fs_roots = (\<lambda>_. None), fs_dents = (\<lambda>_. []), fs_stat = (\<lambda>_. \<lparr>st_mode = 0, st_uid = 0\<rparr>)\<rparr>"

definition demo_job :: Job where
  "demo_job = new_Job ''j1'' ''/in/a'' ''/out/a'' 10"

definition demo_world :: world where
  "demo_world = \<lparr>w_fs = demo_fs,
     w_db = \<lparr>db_jobs = [row_of_job demo_job []], db_seq = Some 4, db_user_version = 1\<rparr>,
     w_dbfile = True, w_tick = 0, w_fault = (\<lambda>_. None), w_dbfault = (\<lambda>_. None),
     w_env = (\<lambda>_ fs. fs), w_strerror = (\<lambda>_. ''error'')\<rparr>"

lemma demo_world_facts:
  "db_wf (w_db demo_world)" "w_dbfile demo_world" "fault_free demo_world"
  "db_seq (w_db demo_world) = Some 4" "abs_job demo_world ''j1'' = Some demo_job"
  by (simp_all add: demo_world_def demo_job_def db_wf_def row_of_job_def new_Job_def row_check_def
      fault_free_def abs_job_def db_find_def row_find_def JobState_from_string_def job_of_row_def)

theorem store_run_safety_witness:
  "db_wf (w_db (snd (update_state ''j1'' Renaming 11 [] open_conn demo_world))) \<and>
   durable_state (snd (update_state ''j1'' Renaming 11 [] open_conn demo_world)) ''j1'' = Some Renaming"
proof
  let ?w' = "snd (update_state ''j1'' Renaming 11 [] open_conn demo_world)"
  have "store_step (open_conn, demo_world) (open_conn, ?w')"
    by (rule store_step.state [where res = "fst (update_state ''j1'' Renaming 11 [] open_conn demo_world)"]) simp
  then have "store_step\<^sup>*\<^sup>* (open_conn, demo_world) (open_conn, ?w')" by blast
  from store_run_safety [OF this demo_world_facts(1,2)]
  show "db_wf (w_db ?w')" by simp
  show "durable_state ?w' ''j1'' = Some Renaming"
    by (simp add: update_state_def update_check_def update_write_def load_def demo_world_def demo_job_def open_conn_def closed_conn_def
        sql_call_def sql_update_job_def sql_write_def db_find_def row_find_def row_of_job_def new_Job_def
        JobState_from_string_def job_of_row_def Job_transition_def is_terminal_def row_check_def
        row_update_def abs_job_def durable_state_def)
qed

lemma record_intent_abs:
  assumes "record_intent job retry_of c w = (Inr u, w')"
    and "nul_free (job_id job)" "nul_free (source_path job)" "nul_free (dest_path job)" "nul_free (job_error job)"
  shows "abs_job w (job_id job) = None" "abs_job w' = (abs_job w)(job_id job \<mapsto> job)"
    "db_find w' (job_id job) \<noteq> None"
proof -
  from assms(1) have stored: "db_find w (c_str (job_id job)) = None"
    "written w ((w_db w)\<lparr>db_jobs := db_jobs (w_db w) @ [row_of_job job retry_of]\<rparr>) w'"
    by (auto elim: record_intent_cases)
  note W = writtenD [OF stored(2)]
  let ?r = "row_of_job job retry_of"
  have j: "job_of_row ?r (job_state job) = job" and rid: "r_id ?r = job_id job"
    and st: "JobState_from_string (r_state ?r) = Some (job_state job)"
    using assms(2-) by (simp_all add: job_of_row_def row_of_job_def job_tokens.dec_enc)
  have none: "row_find (job_id job) (db_jobs (w_db w)) = None"
    using stored(1) assms(2) by (simp add: db_find_def)
  have find: "db_find w' k = (if k = job_id job then Some ?r else db_find w k)" for k
    using none rid by (auto simp: db_find_def W row_find_append row_find_single split: option.splits)
  show "abs_job w' = (abs_job w)(job_id job \<mapsto> job)"
    by (rule ext) (simp add: abs_job_def find st j)
  show "abs_job w (job_id job) = None" using none by (simp add: abs_job_def db_find_def)
  show "db_find w' (job_id job) \<noteq> None" by (simp add: find)
qed

text \<open>C24. Intent before action (L2-JOB-013), for a job whose texts hold no NUL: when \<open>record_intent\<close>
  reports success the job is durable and \<open>load\<close> returns exactly it; recording the same id again is refused and
  changes nothing. When it reports failure, nothing was written.\<close>

theorem record_intent_durable:
  assumes "record_intent job retry_of c w = (res, w')"
    and "nul_free (job_id job)" "nul_free (source_path job)" "nul_free (dest_path job)" "nul_free (job_error job)"
  shows "(\<exists>e. res = Inl e \<and> w_db w' = w_db w) \<or>
    (res = Inr () \<and> abs_job w (job_id job) = None \<and> abs_job w' = (abs_job w)(job_id job \<mapsto> job) \<and>
     (\<forall>job2 r2 c2 res2 w2. job_id job2 = job_id job \<longrightarrow> record_intent job2 r2 c2 w' = (res2, w2) \<longrightarrow>
        (\<exists>e. res2 = Inl e) \<and> w_db w2 = w_db w') \<and>
     (\<forall>c2. fault_free w' \<longrightarrow> db_wf (w_db w') \<longrightarrow> c_open c2 \<longrightarrow>
        fst (load (job_id job) c2 w') = Inr (Some job)))"
  using assms(1)
proof (cases rule: record_intent_cases)
  case (refused e)
  then show ?thesis by (simp add: tickedD)
next
  case stored
  note ab = record_intent_abs [OF assms(1) [unfolded stored(1)] assms(2-)]
  have "(\<exists>e. res2 = Inl e) \<and> w_db w2 = w_db w'"
    if "job_id job2 = job_id job" and "record_intent job2 r2 c2 w' = (res2, w2)" for job2 r2 c2 res2 w2
    using that(2) by (cases rule: record_intent_cases) (use that(1) ab(3) assms(2) in \<open>auto simp: tickedD\<close>)
  moreover have "fst (load (job_id job) c2 w') = Inr (Some job)"
    if "fault_free w'" "db_wf (w_db w')" "c_open c2" for c2
    using load_fault_free [OF that(1,3,2), of "job_id job"] ab(2) assms(2) by simp
  ultimately show ?thesis using stored(1) ab by blast
qed

theorem record_intent_durable_witness:
  "fst (record_intent (new_Job ''j2'' ''/in/b'' ''/out/b'' 20) [] open_conn demo_world) = Inr () \<and>
   abs_job (snd (record_intent (new_Job ''j2'' ''/in/b'' ''/out/b'' 20) [] open_conn demo_world)) ''j2'' =
     Some (new_Job ''j2'' ''/in/b'' ''/out/b'' 20)"
proof -
  let ?j = "new_Job ''j2'' ''/in/b'' ''/out/b'' 20"
  let ?p = "record_intent ?j [] open_conn demo_world"
  have ok: "fst ?p = Inr ()"
    by (simp add: record_intent_def demo_world_def demo_job_def open_conn_def closed_conn_def sql_call_def
        sql_insert_job_def sql_write_def row_find_def row_of_job_def new_Job_def row_check_def)
  have "nul_free ''j2''" "nul_free ''/in/b''" "nul_free ''/out/b''" by (simp_all add: nul_free_def)
  then have "abs_job (snd ?p) = (abs_job demo_world)(job_id ?j \<mapsto> ?j)"
    using record_intent_durable [of ?j "[]" open_conn demo_world "fst ?p" "snd ?p"] ok
    by (auto simp: new_Job_def)
  with ok show ?thesis by (simp add: new_Job_def)
qed

text \<open>C23. Refinement of the state machine (L2-JOB-005), on a well-formed table, for an id and a message
  without NUL and with no other connection writing between the two statements of \<open>update_state\<close>: seen
  through \<open>load\<close>, \<open>update_state\<close> is \<open>Job::transition\<close> on the durable record. A failure of any kind (closed store, failing
  statement, unknown job, illegal edge) leaves every record as it was; without failing
  calls a legal request always succeeds.\<close>

theorem update_state_refines_transition:
  assumes "update_state i t now msg c w = (res, w')" and "nul_free i" "nul_free msg" "db_wf (w_db w)"
  shows "(case res of
      Inl e \<Rightarrow> e \<noteq> [] \<and> abs_job w' = abs_job w
    | Inr _ \<Rightarrow> (\<exists>j. abs_job w i = Some j \<and> fst (Job_transition t now msg j) \<and>
         abs_job w' = (abs_job w)(i \<mapsto> snd (Job_transition t now msg j)))) \<and>
    (fault_free w \<longrightarrow> c_open c \<longrightarrow> \<not> c_query_only c \<longrightarrow>
       (\<forall>j. abs_job w i = Some j \<longrightarrow> fst (Job_transition t now msg j) \<longrightarrow> res = Inr ()))"
proof
  show "case res of
      Inl e \<Rightarrow> e \<noteq> [] \<and> abs_job w' = abs_job w
    | Inr _ \<Rightarrow> (\<exists>j. abs_job w i = Some j \<and> fst (Job_transition t now msg j) \<and>
         abs_job w' = (abs_job w)(i \<mapsto> snd (Job_transition t now msg j)))"
    using assms(1)
  proof (cases rule: update_state_cases)
    case (refused e)
    then show ?thesis by (auto simp: abs_job_ticked)
  next
    case (stored r s)
    have nr: "nul_free (r_error r)"
      using assms(4) stored(2) by (auto simp: db_wf_def db_find_def dest: row_find_Some)
    have "abs_job w i = Some (job_of_row r s)"
      using stored assms(2) by (simp add: abs_job_def job_tokens.dec_enc)
    moreover have "abs_job w' k = ((abs_job w)(i \<mapsto> job_of_row (transition_row t now msg r) t)) k" for k
      using abs_job_replaced [OF stored(5) from_string_transition_row] assms(2) by simp
    moreover note job_of_transition_row [OF stored(4) assms(3) nr, of now]
    ultimately show ?thesis using stored(1,4) by (auto simp: job_of_row_def)
  qed
  show "fault_free w \<longrightarrow> c_open c \<longrightarrow> \<not> c_query_only c \<longrightarrow>
       (\<forall>j. abs_job w i = Some j \<longrightarrow> fst (Job_transition t now msg j) \<longrightarrow> res = Inr ())"
    using update_state_fault_free [of w c i msg _ t now] assms by (auto simp: assms(1))
qed

theorem update_state_refines_transition_witness:
  "abs_job (snd (update_state ''j1'' Renaming 11 [] open_conn demo_world)) ''j1'' =
     Some (snd (Job_transition Renaming 11 [] demo_job))"
proof -
  let ?p = "update_state ''j1'' Renaming 11 [] open_conn demo_world"
  have tr: "fst (Job_transition Renaming 11 [] demo_job)"
    by (simp add: transition_ok_def demo_job_def new_Job_def)
  have R: "(case fst ?p of
      Inl e \<Rightarrow> e \<noteq> [] \<and> abs_job (snd ?p) = abs_job demo_world
    | Inr _ \<Rightarrow> (\<exists>j. abs_job demo_world ''j1'' = Some j \<and> fst (Job_transition Renaming 11 [] j) \<and>
         abs_job (snd ?p) = (abs_job demo_world)(''j1'' \<mapsto> snd (Job_transition Renaming 11 [] j)))) \<and>
    (fault_free demo_world \<longrightarrow> c_open open_conn \<longrightarrow> \<not> c_query_only open_conn \<longrightarrow>
       (\<forall>j. abs_job demo_world ''j1'' = Some j \<longrightarrow> fst (Job_transition Renaming 11 [] j) \<longrightarrow> fst ?p = Inr ()))"
    by (rule update_state_refines_transition) (simp_all add: demo_world_facts)
  then have "fst ?p = Inr ()" using tr demo_world_facts by (simp add: open_conn_def closed_conn_def)
  with R demo_world_facts(5) show ?thesis by simp
qed

lemma record_transition_ok:
  assumes "fault_free w" "c_open c" "\<not> c_query_only c" "db_wf (w_db w)" "nul_free i" "nul_free msg"
    and "abs_job w i = Some j" "fst (Job_transition t now msg j)"
  shows "fst (fst (record_transition i t now msg phase c w)) = NoAction"
  using update_state_fault_free [OF assms(1-7), of t now] assms(8)
  by (cases "update_state i t now msg c w") (auto simp: record_transition_def)

text \<open>C22. The commit point decides what a failed write means (L2-JOB-014): \<open>record_transition\<close> answers
  NoAction only when the state machine allowed the step from the durable state and the new state is
  durable; every other answer is AbortJob before the commit point and HaltProcess after it, with a
  diagnostic and the database unchanged. Without failing calls, on a well-formed table, NoAction is
  answered exactly when the durable job allows the step; in particular a job that is already in the
  state asked for is refused.\<close>

theorem record_transition_classified:
  assumes "record_transition i t now msg phase c w = ((action, err), w')" and "nul_free i"
  shows "(action = NoAction \<longleftrightarrow> err = None) \<and>
    (action = NoAction \<longrightarrow> durable_state w' i = Some t \<and>
       (\<exists>j. abs_job w i = Some j \<and> fst (Job_transition t now msg j))) \<and>
    (action \<noteq> NoAction \<longrightarrow> w_db w' = w_db w \<and> (\<exists>e. err = Some e \<and> e \<noteq> []) \<and>
       action = (case phase of BeforeCommitPoint \<Rightarrow> AbortJob | AfterCommitPoint \<Rightarrow> HaltProcess)) \<and>
    w_fs w' = w_fs w \<and>
    (fault_free w \<longrightarrow> c_open c \<longrightarrow> \<not> c_query_only c \<longrightarrow> db_wf (w_db w) \<longrightarrow> nul_free msg \<longrightarrow>
       (action = NoAction \<longleftrightarrow> (\<exists>j. abs_job w i = Some j \<and> fst (Job_transition t now msg j))))"
  using assms(1)
proof (cases rule: record_transition_cases)
  case (refused e)
  have "action = NoAction"
    if "fault_free w" "c_open c" "\<not> c_query_only c" "db_wf (w_db w)" "nul_free msg"
      and "abs_job w i = Some j" "fst (Job_transition t now msg j)" for j
    using record_transition_ok [OF that(1-4) assms(2) that(5-7), of phase] assms(1) by simp
  with refused show ?thesis by (cases phase) (auto simp: tickedD)
next
  case (stored r s)
  have "abs_job w' i = Some (job_of_row (transition_row t now msg r) t)"
    using abs_job_replaced [OF stored(5) from_string_transition_row] assms(2) by simp
  moreover have "abs_job w i = Some (job_of_row r s)"
    using stored assms(2) by (simp add: abs_job_def job_tokens.dec_enc)
  moreover have "fst (Job_transition t now msg (job_of_row r s))"
    using stored(4) by (simp add: job_of_row_def transition_accepted)
  ultimately show ?thesis using stored by (auto simp: job_of_row_def row_replaced_def durable_state_def)
qed

theorem record_transition_classified_witness:
  "fst (fst (record_transition ''j1'' Transferring 12 [] AfterCommitPoint open_conn demo_world)) = HaltProcess \<and>
   w_db (snd (record_transition ''j1'' Transferring 12 [] AfterCommitPoint open_conn demo_world)) =
     w_db demo_world"
proof -
  let ?p = "record_transition ''j1'' Transferring 12 [] AfterCommitPoint open_conn demo_world"
  have halt: "fst (fst ?p) = HaltProcess"
    by (simp add: record_transition_def update_state_def update_check_def update_write_def load_def demo_world_def demo_job_def open_conn_def
        closed_conn_def sql_call_def db_find_def row_find_def row_of_job_def new_Job_def
        JobState_from_string_def job_of_row_def Job_transition_def)
  obtain act err w' where p: "?p = ((act, err), w')" by (metis prod.collapse)
  with halt have "act = HaltProcess" by simp
  with record_transition_classified [OF p] p show ?thesis by simp
qed

lemma to_u64_small: "0 \<le> v \<Longrightarrow> v < 2 ^ 31 \<Longrightarrow> unat (to_u64 v) = nat v"
  by (simp add: to_u64_def unat_eq_nat_uint uint_word_of_int)

text \<open>Sequence numbers are never handed out twice: of two successful \<open>next_sequence\<close>
  calls with any store operations, failures and restarts in between, the later returns
  the larger number, as long as the counter stays below 2^31.\<close>

theorem next_sequence_increases:
  assumes "next_sequence c w = (Inr a, w1)" and "store_step\<^sup>*\<^sup>* (c1, w1) (c2, w2)"
    and "next_sequence c2 w2 = (Inr b, w3)"
    and "db_wf (w_db w)" "w_dbfile w" "db_seq (w_db w) = Some v" "0 \<le> v"
    and "db_seq (w_db w3) = Some u" "u < 2 ^ 31"
  shows "unat a < unat b \<and> unat b = nat u"
proof -
  from next_sequence_cases [OF assms(1)] assms(6)
  have a: "a = to_u64 (column_int (v + 1))" and wr: "written w ((w_db w)\<lparr>db_seq := Some (v + 1)\<rparr>) w1"
    by auto
  have "db_wf (w_db w1)" "w_dbfile w1"
    using assms(4,5) by (simp_all add: writtenD [OF wr] db_wf_def)
  with store_runs [OF assms(2)] have "seq_le (Some (v + 1)) (db_seq (w_db w2))"
    by (auto simp: records_kept_def writtenD [OF wr])
  then obtain v2 where v2: "db_seq (w_db w2) = Some v2" "v + 1 \<le> v2"
    by (auto simp: seq_le_def split: option.splits)
  from next_sequence_cases [OF assms(3)] v2
  have b: "b = to_u64 (column_int (v2 + 1))" and wr3: "written w2 ((w_db w2)\<lparr>db_seq := Some (v2 + 1)\<rparr>) w3"
    by auto
  have u: "u = v2 + 1" using assms(8) by (simp add: writtenD [OF wr3])
  have "unat a = nat (v + 1)" and "unat b = nat (v2 + 1)"
    using a b u assms(7,9) v2(2) by (simp_all add: column_int_small to_u64_small)
  with u v2(2) assms(7) show ?thesis by simp
qed

theorem next_sequence_increases_witness:
  "fst (next_sequence open_conn demo_world) = Inr 5 \<and>
   fst (next_sequence open_conn (snd (next_sequence open_conn demo_world))) = Inr 6 \<and>
   unat (5 :: 64 word) < unat (6 :: 64 word)"
proof -
  let ?w1 = "snd (next_sequence open_conn demo_world)"
  let ?w2 = "snd (next_sequence open_conn ?w1)"
  have c: "column_int 5 = 5" "column_int 6 = 6" by (simp_all add: column_int_small)
  have n: "next_sequence open_conn demo_world = (Inr 5, ?w1)"
    by (simp add: next_sequence_def demo_world_def open_conn_def closed_conn_def exec_sql_def sql_call_def
        sql_write_def query_int_def query_value_def to_u64_def c)
  have n2: "next_sequence open_conn ?w1 = (Inr 6, ?w2)" "db_seq (w_db ?w2) = Some 6"
    by (simp_all add: next_sequence_def demo_world_def open_conn_def closed_conn_def exec_sql_def sql_call_def
        sql_write_def query_int_def query_value_def to_u64_def c)
  have "unat (5 :: 64 word) < unat (6 :: 64 word) \<and> unat (6 :: 64 word) = nat 6"
    by (rule next_sequence_increases [OF n rtranclp.rtrancl_refl n2(1) demo_world_facts(1,2,4) _ n2(2)]) simp_all
  moreover have "fst (next_sequence open_conn demo_world) = Inr 5" "fst (next_sequence open_conn ?w1) = Inr 6"
    by (subst n, simp) (subst n2(1), simp)
  ultimately show ?thesis by simp
qed

text \<open>The retry queue: a successful \<open>due_jobs\<close> returns each queued job whose retry time
  has come exactly once, and no other job, earliest retry time first (ties by creation
  time, then id); without failing calls it always succeeds.\<close>

theorem due_jobs_exact:
  assumes "due_jobs now c w = (res, w')" and "db_wf (w_db w)"
  shows "(\<forall>ids. res = Inr ids \<longrightarrow> distinct ids \<and>
      (\<forall>k. k \<in> set ids \<longleftrightarrow> (\<exists>r. db_find w k = Some r \<and> r_state r = ''QUEUED'' \<and> r_next_retry_ms r \<le> now)) \<and>
      sorted (map (\<lambda>k. case db_find w k of Some r \<Rightarrow> (r_next_retry_ms r, r_created_at_ms r, r_id r)) ids))
    \<and> (fault_free w \<longrightarrow> c_open c \<longrightarrow> (\<exists>ids. res = Inr ids))"
proof (intro conjI allI impI)
  let ?due = "filter (\<lambda>r. r_state r = ''QUEUED'' \<and> r_next_retry_ms r \<le> now) (db_jobs (w_db w))"
  let ?key = "\<lambda>r. (r_next_retry_ms r, r_created_at_ms r, r_id r)"
  have dj: "distinct (map r_id (db_jobs (w_db w)))" using assms(2) by (simp add: db_wf_def)
  fix ids assume "res = Inr ids"
  then have ids: "ids = map r_id (sort_key ?key ?due)"
    using assms(1) by (auto simp: due_jobs_def dest!: step_rows_ok sql_call_ticked
        split: if_splits prod.splits option.splits simp: tickedD map_Inr_eq)
  have dd: "distinct (map r_id ?due)" using dj by (rule distinct_map_filter)
  then show "distinct ids" by (simp add: ids distinct_map)
  have find: "db_find w (r_id r) = Some r" if "r \<in> set (db_jobs (w_db w))" for r
    using that dj by (simp add: db_find_def row_find_mem)
  show "k \<in> set ids \<longleftrightarrow> (\<exists>r. db_find w k = Some r \<and> r_state r = ''QUEUED'' \<and> r_next_retry_ms r \<le> now)" for k
    using find by (auto simp: ids db_find_def dest!: row_find_Some)
  have "map (\<lambda>k. case db_find w k of Some r \<Rightarrow> ?key r) ids = map ?key (sort_key ?key ?due)"
    using find by (simp add: ids)
  then show "sorted (map (\<lambda>k. case db_find w k of Some r \<Rightarrow> ?key r) ids)"
    using sorted_sort_key [of ?key ?due] by simp
next
  assume ff: "fault_free w" and "c_open c"
  have "\<forall>n \<ge> w_tick (w\<lparr>w_tick := Suc (w_tick w)\<rparr>). w_dbfault (w\<lparr>w_tick := Suc (w_tick w)\<rparr>) n = None"
    using ff by (simp add: fault_free_def)
  from step_rows_total [OF this, of _ "\<lambda>r. Inr (r_id r)" r_id]
  have "\<exists>ids. fst (due_jobs now c w) = Inr ids"
    using \<open>c_open c\<close> by (simp add: due_jobs_def sql_call_fault_free [OF ff])
  with assms(1) show "\<exists>ids. res = Inr ids" by simp
qed

theorem due_jobs_exact_witness:
  "fst (due_jobs 15 open_conn demo_world) = Inr [''j1'']"
proof -
  let ?p = "due_jobs 15 open_conn demo_world"
  obtain ids where "fst ?p = Inr ids" and "distinct ids"
    and "\<And>k. k \<in> set ids \<longleftrightarrow> (\<exists>r. db_find demo_world k = Some r \<and> r_state r = ''QUEUED'' \<and> r_next_retry_ms r \<le> 15)"
    using due_jobs_exact [of 15 open_conn demo_world "fst ?p" "snd ?p"] demo_world_facts
    by (auto simp: open_conn_def)
  moreover have "set [''j1''] = {k. \<exists>r. db_find demo_world k = Some r \<and> r_state r = ''QUEUED'' \<and> r_next_retry_ms r \<le> 15}"
    by (auto simp: demo_world_def db_find_def row_find_def row_of_job_def demo_job_def new_Job_def split: if_splits)
  ultimately have "distinct ids" "set ids = {''j1''}" by auto
  then have "ids = [''j1'']" by (cases ids; cases "tl ids") auto
  with \<open>fst ?p = Inr ids\<close> show ?thesis by simp
qed

lemma query_value_fault_free:
  "fault_free w \<Longrightarrow> query_value sql (Some v) w = (Inr v, w\<lparr>w_tick := w_tick w + 2\<rparr>)"
  by (simp add: query_value_def sql_call_def fault_free_def)

lemma exec_sql_fault_free: "fault_free w \<Longrightarrow> exec_sql what w = (Inr (), w\<lparr>w_tick := Suc (w_tick w)\<rparr>)"
  by (simp add: exec_sql_def sql_call_fault_free)

lemma apply_settings_Inr:
  assumes "apply_settings pa w = (Inr u, w')"
  shows "c_str (pa_journal_mode pa) = ''wal'' \<and> column_int (pa_synchronous pa) = 2 \<and>
    column_int (pa_foreign_keys pa) = 1"
  using assms unfolding apply_settings_def query_text_def query_int_def
  by (auto split: prod.splits sum.splits if_splits dest!: query_value_Inr)

lemma check_integrity_Inr:
  "check_integrity path pa True w = (Inr u, w') \<Longrightarrow> c_str (pa_integrity pa) = ''ok''"
  unfolding check_integrity_def query_text_def
  by (auto split: prod.splits sum.splits if_splits dest!: query_value_Inr)

lemma check_schema_Inr:
  "check_schema w = (Inr u, w') \<Longrightarrow> column_int (db_user_version (w_db w)) \<in> {0, kSchemaVersion}"
  unfolding check_schema_def query_int_def
  by (auto split: prod.splits sum.splits if_splits dest!: query_value_Inr)

lemma store_open_Inr:
  assumes "store_open path pa c w = (Inr res, c', w')" and "w_dbfile w"
  shows "c' = open_conn \<and> c_str (pa_journal_mode pa) = ''wal'' \<and> column_int (pa_synchronous pa) = 2 \<and>
    column_int (pa_foreign_keys pa) = 1 \<and> column_int (db_user_version (w_db w)) \<in> {0, kSchemaVersion} \<and>
    res = (if fst (kcall w) = None then OpenedExisting else CreatedFresh) \<and>
    (fst (kcall w) = None \<longrightarrow> c_str (pa_integrity pa) = ''ok'')"
proof -
  obtain k w1 where k: "kcall w = (k, w1)" by fastforce
  obtain m w2 where m: "sql_call w1 = (m, w2)" by fastforce
  have t2: "ticked w1 w2" using m by (rule sql_call_ticked)
  have e: "w_db w2 = w_db w" "w_dbfile w2" "w_dbfile w1"
    using k t2 assms(2) by (auto simp: kcall_def tickedD)
  obtain r4 w4 where i: "check_integrity path pa (k = None) w2 = (r4, w4)" by fastforce
  obtain r5 w5 where s: "apply_settings pa w4 = (r5, w5)" by fastforce
  obtain r6 w6 where h: "check_schema w5 = (r6, w6)" by fastforce
  have d5: "w_db w5 = w_db w"
    using tickedD(1) [OF check_integrity_ticked [OF i]] tickedD(1) [OF apply_settings_ticked [OF s]] e by simp
  obtain u4 u5 u6 where "r4 = Inr u4" "r5 = Inr u5" "r6 = Inr u6" and c': "c' = open_conn"
    and res: "res = (if k = None then OpenedExisting else CreatedFresh)"
    using assms(1) k m i s h e by (auto simp: store_open_def Let_def split: option.splits sum.splits)
  with apply_settings_Inr [of pa w4 u5 w5] check_schema_Inr [of w5 u6 w6] check_integrity_Inr [of path pa w2 u4 w4]
    i s h d5 k show ?thesis by (auto split: if_splits)
qed

lemma store_open_settled:
  assumes "fault_free (snd (kcall w))" "c_str (pa_journal_mode pa) = ''wal''" "column_int (pa_synchronous pa) = 2"
    "column_int (pa_foreign_keys pa) = 1" "column_int (db_user_version (w_db w)) = 1" "w_dbfile w"
  shows "((\<exists>r. fst (store_open path pa c w) = Inr r) \<longleftrightarrow> fst (kcall w) \<noteq> None \<or> c_str (pa_integrity pa) = ''ok'') \<and>
    w_db (snd (snd (store_open path pa c w))) = w_db w"
proof -
  obtain k w1 where k: "kcall w = (k, w1)" by fastforce
  then have "fault_free w1" "w_dbfile w1" "w_db w1 = w_db w"
    using assms by (auto simp: kcall_def)
  with assms k show ?thesis
    by (cases k) (simp_all add: store_open_def sql_call_fault_free check_integrity_def
        query_text_def query_int_def query_value_fault_free apply_settings_def
        exec_sql_fault_free check_schema_def kSchemaVersion_def)
qed

text \<open>C25. Opening an existing store (L2-JOB-002, L2-JOB-004, L2-JOB-012): whatever calls fail, the job
  records survive untouched, and on failure there is no usable connection. An opened store has WAL,
  synchronous=FULL and foreign keys in force and a schema version this build knows; if \<open>stat\<close> found the
  file it is reported as OpenedExisting and the integrity check said ok, and if \<open>stat\<close> failed it is
  reported as CreatedFresh and was not checked. When no call after \<open>stat\<close> fails, a store of the current
  version with these settings is opened, without changing it, exactly when \<open>stat\<close> failed or the
  integrity check says ok: a failed \<open>stat\<close> lets a damaged store through.\<close>

theorem store_open_guarded:
  assumes "store_open path pa c w = (res, c', w')" and "w_dbfile w"
  shows "db_jobs (w_db w') = db_jobs (w_db w) \<and>
    (c_open c' \<longleftrightarrow> (\<exists>r. res = Inr r)) \<and>
    (\<forall>r. res = Inr r \<longrightarrow> c_str (pa_journal_mode pa) = ''wal'' \<and> column_int (pa_synchronous pa) = 2 \<and>
       column_int (pa_foreign_keys pa) = 1 \<and> column_int (db_user_version (w_db w)) \<in> {0, 1} \<and>
       r = (if fst (kcall w) = None then OpenedExisting else CreatedFresh) \<and>
       (fst (kcall w) = None \<longrightarrow> c_str (pa_integrity pa) = ''ok'')) \<and>
    (fault_free (snd (kcall w)) \<longrightarrow> c_str (pa_journal_mode pa) = ''wal'' \<longrightarrow> column_int (pa_synchronous pa) = 2 \<longrightarrow>
     column_int (pa_foreign_keys pa) = 1 \<longrightarrow> column_int (db_user_version (w_db w)) = 1 \<longrightarrow>
       ((\<exists>r. res = Inr r) \<longleftrightarrow> fst (kcall w) \<noteq> None \<or> c_str (pa_integrity pa) = ''ok'') \<and> w_db w' = w_db w)"
proof (intro conjI allI impI)
  show "db_jobs (w_db w') = db_jobs (w_db w)"
    using store_open_cases [OF assms(1)] assms(2) by auto
  have "(\<exists>e. res = Inl e) \<and> c' = closed_conn \<or> (\<exists>r. res = Inr r) \<and> c' = open_conn"
    using assms(1) by (auto simp: store_open_def Let_def split: prod.splits option.splits sum.splits)
  then show "c_open c' \<longleftrightarrow> (\<exists>r. res = Inr r)" by (auto simp: open_conn_def closed_conn_def)
next
  assume "fault_free (snd (kcall w))" "c_str (pa_journal_mode pa) = ''wal''" "column_int (pa_synchronous pa) = 2"
    "column_int (pa_foreign_keys pa) = 1" "column_int (db_user_version (w_db w)) = 1"
  from store_open_settled [OF this assms(2), of path c] assms(1)
  show "(\<exists>r. res = Inr r) \<longleftrightarrow> fst (kcall w) \<noteq> None \<or> c_str (pa_integrity pa) = ''ok''" "w_db w' = w_db w" by simp_all
qed (use store_open_Inr assms in \<open>(fastforce simp: kSchemaVersion_def)+\<close>)

text \<open>The store of the example, healthy and read, is opened as existing; damaged and with a first call
  that fails with EACCES, it is opened as a fresh one.\<close>

theorem store_open_guarded_witness:
  "fst (store_open ''/var/lib/fm.db'' healthy closed_conn demo_world) = Inr OpenedExisting \<and>
   fst (store_open ''/var/lib/fm.db'' (healthy\<lparr>pa_integrity := ''damaged''\<rparr>) closed_conn
     (demo_world\<lparr>w_fault := (\<lambda>n. if n = 0 then Some 13 else None)\<rparr>)) = Inr CreatedFresh"
proof
  have c: "column_int 1 = 1" "column_int 2 = 2" by (simp_all add: column_int_small)
  obtain res c' w' where p: "store_open ''/var/lib/fm.db'' healthy closed_conn demo_world = (res, c', w')"
    by (metis prod.collapse)
  have k: "fst (kcall demo_world) = None" "fault_free (snd (kcall demo_world))"
    by (simp_all add: kcall_def demo_world_def fault_free_def)
  from store_open_guarded [OF p] k demo_world_facts p c show "fst (store_open ''/var/lib/fm.db'' healthy closed_conn demo_world) = Inr OpenedExisting"
    by (auto simp: demo_world_def healthy_def)
  let ?w = "demo_world\<lparr>w_fault := (\<lambda>n. if n = 0 then Some 13 else None)\<rparr>"
  let ?pa = "healthy\<lparr>pa_integrity := ''damaged''\<rparr>"
  obtain res c' w' where p: "store_open ''/var/lib/fm.db'' ?pa closed_conn ?w = (res, c', w')"
    by (metis prod.collapse)
  have k: "fst (kcall ?w) = Some 13" "fault_free (snd (kcall ?w))"
    by (simp_all add: kcall_def demo_world_def fault_free_def)
  from store_open_guarded [OF p] k demo_world_facts p c show "fst (store_open ''/var/lib/fm.db'' ?pa closed_conn ?w) = Inr CreatedFresh"
    by (auto simp: demo_world_def healthy_def)
qed

text \<open>The counters the service reports are the true ones: a successful
  \<open>counts_by_state\<close> gives, for every state, the number of recorded jobs in it (as an
  unsigned 64-bit value).\<close>

theorem counts_by_state_exact:
  assumes "counts_by_state c w = (Inr out, w')"
  shows "out s = of_nat (card {i. i < length (db_jobs (w_db w)) \<and>
    r_state (db_jobs (w_db w) ! i) = JobState_to_string s})"
proof -
  let ?rows = "db_jobs (w_db w)"
  obtain w1 where w1: "sql_call w = (None, w1)"
    and g: "step_groups (state_groups (db_jobs (w_db w1))) (\<lambda>_. 0) w1 = (Inr out, w')"
    using assms by (auto simp: counts_by_state_def split: if_splits prod.splits option.splits)
  have "w_db w1 = w_db w" using tickedD(1) [OF sql_call_ticked [OF w1]] .
  with step_groups_ok [OF g state_groups_distinct]
  have "out s = (if JobState_to_string s \<in> r_state ` set ?rows
      then to_u64 (int (length (filter (\<lambda>r. r_state r = JobState_to_string s) ?rows))) else 0)"
    by (simp add: state_groups_lookup)
  also have "\<dots> = of_nat (length (filter (\<lambda>r. r_state r = JobState_to_string s) ?rows))"
  proof (cases "JobState_to_string s \<in> r_state ` set ?rows")
    case False
    then have "filter (\<lambda>r. r_state r = JobState_to_string s) ?rows = []"
      by (force simp: filter_empty_conv)
    with False show ?thesis by simp
  qed (simp add: to_u64_def)
  finally show ?thesis by (simp add: length_filter_conv_card)
qed

theorem counts_by_state_exact_witness:
  "\<exists>out w'. counts_by_state open_conn demo_world = (Inr out, w') \<and> out Queued = 1"
proof -
  obtain out w' where p: "counts_by_state open_conn demo_world = (Inr out, w')"
    by (simp add: counts_by_state_def open_conn_def closed_conn_def demo_world_def sql_call_def
        state_groups_def row_of_job_def demo_job_def new_Job_def JobState_from_string_def)
  have "{i. i = 0 \<and> r_state ([row_of_job demo_job []] ! i) = ''QUEUED''} = {0}"
    by (auto simp: row_of_job_def demo_job_def new_Job_def)
  with counts_by_state_exact [OF p, of Queued] p show ?thesis
    by (simp add: demo_world_def)
qed

end
