(* ===== verification/Mover_Laws.thy ===== *)
theory Mover_Laws
  imports Mover Store_Laws Fsops_Laws
begin

text \<open>
  The laws of the move engine. The object being moved is followed through the three names it
  can have (source, staging, final) and its durable state through the job store, for
  every schedule of failing calls. From them: no move loses its object, nothing moves
  without a durable record, and any number of killed attempts can be recovered.
\<close>

declare split_paired_All [simp del] split_paired_Ex [simp del]

section \<open>Steps\<close>

text \<open>What every step of the engine keeps: the environment, the kinds and owners of
  objects, the roots, the database file and its constraints.\<close>

definition env_step :: "world \<Rightarrow> world \<Rightarrow> bool" where
  "env_step w w' \<longleftrightarrow> same_env w w' \<and> fs_stat (w_fs w') = fs_stat (w_fs w) \<and>
     fs_roots (w_fs w') = fs_roots (w_fs w) \<and> w_dbfile w' = w_dbfile w \<and>
     (db_wf (w_db w) \<longrightarrow> db_wf (w_db w'))"

definition db_step :: "world \<Rightarrow> world \<Rightarrow> bool" where
  "db_step w w' \<longleftrightarrow> env_step w w' \<and> w_fs w' = w_fs w"

lemma env_step_refl [simp]: "env_step w w"
  by (simp add: env_step_def)

lemma env_step_trans: "env_step u v \<Longrightarrow> env_step v w \<Longrightarrow> env_step u w"
  by (auto simp: env_step_def intro: same_env_trans)

lemma db_step_trans: "db_step u v \<Longrightarrow> db_step v w \<Longrightarrow> db_step u w"
  by (auto simp: db_step_def intro: env_step_trans)

lemma db_step_ticked: "ticked w w' \<Longrightarrow> db_step w w'"
  by (simp add: db_step_def env_step_def tickedD)

lemma env_step_fs: "fs_step w w' \<Longrightarrow> env_step w w'"
  by (simp add: env_step_def fs_step_def)

lemma db_step_env: "db_step w w' \<Longrightarrow> env_step w w'"
  by (simp add: db_step_def)

lemma db_step_row: "row_replaced k r w w' \<Longrightarrow> db_step w w'"
  by (simp add: db_step_def env_step_def row_replaced_def)

lemma env_step_quiet: "env_step w w' \<Longrightarrow> quiet w \<Longrightarrow> quiet w'"
  and env_step_honest: "env_step w w' \<Longrightarrow> honest w \<Longrightarrow> honest w'"
  and env_step_fault_free: "env_step w w' \<Longrightarrow> fault_free w \<Longrightarrow> fault_free w'"
  unfolding env_step_def by (blast intro: same_env_quiet same_env_honest same_env_fault_free)+

lemma durable_state_fs: "fs_step w w' \<Longrightarrow> durable_state w' k = durable_state w k"
  using abs_job_db [of w' w k] by (simp add: fs_step_def durable_state_def)

lemmas step_intros = env_step_trans db_step_trans db_step_ticked env_step_fs db_step_env

section \<open>Store writes as the engine sees them\<close>

lemma transition_durable:
  assumes "record_transition k t now msg ph c w = ((act, e), w')" and "nul_free k"
  obtains (refused) m where "act \<noteq> NoAction" "e = Some m" "m \<noteq> []" "ticked w w'"
  | (stored) s where "act = NoAction" "durable_state w k = Some s" "is_legal_transition s t"
      "durable_state w' k = Some t" "db_step w w'"
  using assms(1)
proof (cases rule: record_transition_cases)
  case (refused m)
  then show thesis by (intro that(1)) (auto split: if_splits)
next
  case (stored r s)
  have "abs_job w' k = Some (job_of_row (transition_row t now msg r) t)"
    using abs_job_replaced [OF stored(5) from_string_transition_row] assms(2) by simp
  moreover have "durable_state w k = Some s" using stored assms(2) by (simp add: durable_state_Some)
  ultimately show thesis using stored
    by (intro that(2) [of s]) (simp_all add: job_of_row_def transition_ok_def db_step_row durable_state_def)
qed

lemma attention_durable:
  assumes "mark_needs_attention k reason c w = (res, w')"
  shows "db_step w w' \<and> durable_state w' k' = durable_state w k'"
  using assms
proof (cases rule: mark_needs_attention_cases)
  case (refused e)
  then show ?thesis by (simp add: db_step_ticked durable_state_ticked)
next
  case (stored r)
  have "durable_state w' k' = durable_state w k'"
    using stored(2,3) by (auto simp: durable_state_def abs_job_def row_replaced_def job_of_row_def option.map_comp comp_def)
  with stored(3) show ?thesis by (simp add: db_step_row)
qed

lemma attention_durable_snd [simp]:
  "db_step w (snd (mark_needs_attention k reason c w))"
  "durable_state (snd (mark_needs_attention k reason c w)) k' = durable_state w k'"
  using attention_durable [of k reason c w "fst (mark_needs_attention k reason c w)"] by simp_all

section \<open>After the commit point\<close>

text \<open>How the last phase ended: halted with the record as it was, or completed and recorded.\<close>

definition verdict :: "string \<Rightarrow> MoveOutcome \<Rightarrow> world \<Rightarrow> world \<Rightarrow> bool" where
  "verdict k out w w' \<longleftrightarrow>
     (out = HaltedAfterCommit \<and> durable_state w' k = durable_state w k) \<or>
     (out = MoveCompleted \<and> durable_state w k = Some Transferring \<and> durable_state w' k = Some Done)"

lemma finish_record_done_spec:
  assumes "finish_record_done k tick err c w = ((out, e'), w')" and "nul_free k"
  shows "db_step w w' \<and> verdict k out w w'"
proof -
  obtain act e w1 where rt: "record_transition k Done (next_tick tick) [] AfterCommitPoint c w = ((act, e), w1)"
    by (metis prod.collapse)
  from rt assms(2) show ?thesis
  proof (cases rule: transition_durable)
    case (refused m)
    then have "out = HaltedAfterCommit" "w' = snd (mark_needs_attention k m c w1)"
      using assms(1) rt by (auto simp: finish_record_done_def Let_def split: WriteFailureAction.splits)
    with refused show ?thesis by (auto simp: verdict_def durable_state_ticked intro: db_step_trans db_step_ticked)
  next
    case (stored s)
    then have "s = Transferring" by (cases s) simp_all
    with stored assms(1) rt show ?thesis by (auto simp: finish_record_done_def verdict_def)
  qed
qed

lemma verdict_fs: "fs_step w w1 \<Longrightarrow> verdict k out w1 w' \<Longrightarrow> verdict k out w w'"
  by (simp add: verdict_def durable_state_fs)

lemma seen_classify:
  assumes "classify dir n w = (r, w')" and "seen r" and "quiet w"
  obtains d ob where "dir = Some d" "fs_at (w_fs w) d n = Some ob"
  using assms classify_seen [of dir n w _ w'] by (cases r) (auto simp: seen_def)

lemma finish_publish_cases:
  assumes fin: "finish_publish k req dir stg tick err c w = ((out, e'), w')" and q: "quiet w" and k: "nul_free k"
  obtains (idle) "db_step w w'" "out \<in> {HaltedAfterCommit, FailedExternal}" "durable_state w' k = durable_state w k"
  | (published) d ob where "dir = Some d" "fs_at (w_fs w) d stg = Some ob"
      "fs_at (w_fs w) d (mr_dest_name req) \<noteq> Some ob"
      "fs_moved d stg d (mr_dest_name req) ob (w_fs w) (w_fs w')" "env_step w w'" "verdict k out w w'"
  | (present) d x where "dir = Some d" "fs_at (w_fs w) d (mr_dest_name req) = Some x"
      "db_step w w'" "verdict k out w w'"
proof -
  let ?dn = "mr_dest_name req"
  obtain r1 w1 where c1: "classify dir stg w = (r1, w1)" by fastforce
  obtain r2 w2 where c2: "classify dir ?dn w1 = (r2, w2)" by fastforce
  have t1: "ticked w w1" using c1 q by (rule classify_ticked)
  have q1: "quiet w1" using ticked_quiet [OF t1 q] .
  have t2: "ticked w w2" using t1 classify_ticked [OF c2 q1] by (rule ticked_trans)
  have q2: "quiet w2" using ticked_quiet [OF t2 q] .
  note fs2 = tickedD(2) [OF t2]
  show thesis
  proof (cases "seen r1")
    case True
    obtain r3 w3 where p: "publish dir stg ?dn w2 = (r3, w3)" by fastforce
    have halt: "out = HaltedAfterCommit \<and> w' = snd (mark_needs_attention k m c w3)" if "r3 = Inl m" for m
      using fin c1 c2 True p that by (auto simp: finish_publish_def Let_def)
    have go: "finish_record_done k tick err c w3 = ((out, e'), w')" if "r3 = Inr ()"
      using fin c1 c2 True p that by (simp add: finish_publish_def)
    have after: "db_step w3 w' \<and> verdict k out w3 w'"
    proof (cases r3)
      case (Inl m)
      with halt show ?thesis by (simp add: verdict_def)
    next
      case (Inr u)
      with go finish_record_done_spec k show ?thesis by simp
    qed
    from p q2 show thesis
    proof (cases rule: publish_cases)
      case (refused m)
      with halt have h: "out = HaltedAfterCommit" "w' = snd (mark_needs_attention k m c w3)" by auto
      have "ticked w w3" using t2 refused(3) by (rule ticked_trans)
      with h show thesis by (intro idle) (auto simp: durable_state_ticked intro: db_step_trans db_step_ticked)
    next
      case (renamed d ob)
      have "env_step w w'"
        using t2 renamed(6) after by (blast intro: step_intros)
      moreover have "fs_step w w3" using t2 renamed(6) by (blast intro: fs_step_trans fs_step_ticked)
      then have "verdict k out w w'" using after verdict_fs by blast
      ultimately show thesis using renamed after fs2
        by (intro published [of d ob]) (auto simp: db_step_def)
    next
      case (same d ob)
      have t3: "ticked w w3" using t2 same(5) by (rule ticked_trans)
      then have "verdict k out w w'" using after verdict_fs fs_step_ticked by blast
      with t3 same after fs2 show thesis
        by (intro present [of d ob]) (auto intro: db_step_trans db_step_ticked)
    qed
  next
    case unseen: False
    show thesis
    proof (cases "seen r2")
      case False
      then have "out = FailedExternal" "w' = snd (mark_needs_attention k (removed_msg k) c w2)"
        using fin c1 c2 unseen by (auto simp: finish_publish_def Let_def)
      with t2 show thesis by (intro idle) (auto simp: durable_state_ticked intro: db_step_trans db_step_ticked)
    next
      case True
      then obtain d x where dx: "dir = Some d" "fs_at (w_fs w1) d ?dn = Some x"
        using c2 q1 by (auto elim: seen_classify)
      have "finish_record_done k tick err c w2 = ((out, e'), w')"
        using fin c1 c2 unseen True by (simp add: finish_publish_def)
      from finish_record_done_spec [OF this k] have after: "db_step w2 w'" "verdict k out w2 w'" by auto
      have "verdict k out w w'" using after(2) verdict_fs fs_step_ticked [OF t2] by blast
      with dx after t1 t2 show thesis
        by (intro present [of d x]) (auto simp: tickedD intro: db_step_trans db_step_ticked)
    qed
  qed
qed

definition advanced :: "string \<Rightarrow> world \<Rightarrow> world \<Rightarrow> bool" where
  "advanced k w w' \<longleftrightarrow> durable_state w' k = durable_state w k \<or>
     (durable_state w k = Some Renaming \<and> durable_state w' k = Some Transferring)"

text \<open>The record once phase 4 is through.\<close>

definition moved_state :: "JobState option \<Rightarrow> JobState option" where
  "moved_state s = (if s = Some Renaming then Some Transferring else s)"

definition concluded :: "string \<Rightarrow> MoveOutcome \<Rightarrow> world \<Rightarrow> world \<Rightarrow> bool" where
  "concluded k out w w' \<longleftrightarrow>
     (out = HaltedAfterCommit \<and> durable_state w' k = moved_state (durable_state w k)) \<or>
     (out = MoveCompleted \<and> durable_state w k \<in> {Some Renaming, Some Transferring} \<and>
        durable_state w' k = Some Done)"

lemma concludedI:
  "durable_state w1 k = moved_state (durable_state w k) \<Longrightarrow> verdict k out w1 w' \<Longrightarrow> concluded k out w w'"
  by (auto simp: moved_state_def verdict_def concluded_def split: if_splits)

lemma finish_cases:
  assumes fin: "finish_after_commit k req dir stg tick err c w = ((out, e'), w')" and q: "quiet w" and k: "nul_free k"
  obtains (finished) "out = MoveCompleted" "durable_state w k = Some Done" "ticked w w'"
  | (stopped) "out \<in> {HaltedAfterCommit, FailedExternal}" "db_step w w'" "advanced k w w'"
  | (published) d ob where "dir = Some d" "fs_at (w_fs w) d stg = Some ob"
      "fs_at (w_fs w) d (mr_dest_name req) \<noteq> Some ob"
      "fs_moved d stg d (mr_dest_name req) ob (w_fs w) (w_fs w')" "env_step w w'" "concluded k out w w'"
  | (present) d x where "dir = Some d" "fs_at (w_fs w) d (mr_dest_name req) = Some x"
      "db_step w w'" "concluded k out w w'"
proof -
  note by_publishing = published and by_presence = present
  obtain lr w1 where l: "load k c w = (lr, w1)" by fastforce
  have t1: "ticked w w1" using l by (rule load_ticked)
  have pub: thesis if fp: "finish_publish k req dir stg tick err c w2 = ((out, e'), w')"
    and s2: "db_step w w2" and a2: "durable_state w2 k = moved_state (durable_state w k)" for w2
  proof -
    have q2: "quiet w2" using s2 q by (auto intro: env_step_quiet db_step_env)
    have fs2: "w_fs w2 = w_fs w" using s2 by (simp add: db_step_def)
    from fp q2 k show thesis
    proof (cases rule: finish_publish_cases)
      case idle
      then show thesis using s2 a2
        by (intro stopped) (auto simp: advanced_def moved_state_def split: if_splits intro: db_step_trans)
    next
      case (published d ob)
      then show thesis using s2 a2 fs2 concludedI
        by (intro by_publishing [of d ob]) (auto intro: step_intros)
    next
      case (present d x)
      then show thesis using s2 a2 fs2 concludedI
        by (intro by_presence [of d x]) (auto intro: step_intros)
    qed
  qed
  consider (err) m where "lr = Inl m" | (absent) "lr = Inr None"
    | (job) j where "lr = Inr (Some j)" "durable_state w k = Some (job_state j)"
    using load_found [OF l] k by (cases lr; cases "projr lr") (auto simp: durable_state_def)
  then show thesis
  proof cases
    case err
    then show thesis using fin l t1
      by (intro stopped) (auto simp: finish_after_commit_def advanced_def durable_state_ticked db_step_ticked)
  next
    case absent
    then show thesis using fin l t1
      by (intro stopped) (auto simp: finish_after_commit_def advanced_def durable_state_ticked db_step_ticked)
  next
    case (job j)
    have a1: "advanced k w w1" and s1: "db_step w w1"
      using t1 by (simp_all add: advanced_def durable_state_ticked db_step_ticked)
    show thesis
    proof (cases "job_state j")
      case Done
      with fin l job t1 show thesis by (intro finished) (auto simp: finish_after_commit_def)
    next
      case Failed
      with fin l job a1 s1 show thesis by (intro stopped) (auto simp: finish_after_commit_def)
    next
      case Renaming
      obtain act e w2 where rt: "record_transition k Transferring tick [] AfterCommitPoint c w1 = ((act, e), w2)"
        by (metis prod.collapse)
      from rt k show thesis
      proof (cases rule: transition_durable)
        case (refused m)
        with fin l job Renaming rt have "out = HaltedAfterCommit" "w' = snd (mark_needs_attention k m c w2)"
          by (auto simp: finish_after_commit_def Let_def split: WriteFailureAction.splits)
        moreover have "ticked w w2" using t1 refused(4) by (rule ticked_trans)
        ultimately show thesis
          by (intro stopped) (auto simp: advanced_def durable_state_ticked intro: db_step_trans db_step_ticked)
      next
        case (stored s)
        with fin l job Renaming rt have "finish_publish k req dir stg tick err c w2 = ((out, e'), w')"
          by (simp add: finish_after_commit_def)
        moreover have "db_step w w2" using s1 stored(5) by (rule db_step_trans)
        moreover have "durable_state w2 k = moved_state (durable_state w k)"
          using job Renaming stored(4) by (simp add: moved_state_def)
        ultimately show thesis by (rule pub)
      qed
    next
      case Queued
      with fin l job have "finish_publish k req dir stg tick err c w1 = ((out, e'), w')"
        by (simp add: finish_after_commit_def)
      moreover have "durable_state w1 k = moved_state (durable_state w k)"
        using job Queued t1 by (simp add: moved_state_def durable_state_ticked)
      ultimately show thesis using s1 by (intro pub)
    next
      case Transferring
      with fin l job have "finish_publish k req dir stg tick err c w1 = ((out, e'), w')"
        by (simp add: finish_after_commit_def)
      moreover have "durable_state w1 k = moved_state (durable_state w k)"
        using job Transferring t1 by (simp add: moved_state_def durable_state_ticked)
      ultimately show thesis using s1 by (intro pub)
    qed
  qed
qed

section \<open>The move as a whole\<close>

text \<open>Everything before the record of RENAMING only reads: either the move is rejected with the
  world as it was, or phase 2 starts with the directories open and a source entry seen.\<close>

lemma execute_cases:
  assumes ex: "execute k req st c w = ((out, e'), w')" and q: "quiet w" and k: "nul_free k"
  obtains (rejected) "out = Rejected" "ticked w w'"
  | (started) j sd dd ob err w1 where "execute_record k req st j (Some sd) (Some dd) err c w1 = ((out, e'), w')"
      "ticked w w1" "durable_state w k = Some (job_state j)"
      "fs_roots (w_fs w) (c_str (mr_source_dir req)) = Some sd"
      "fs_roots (w_fs w) (c_str (mr_dest_dir req)) = Some dd"
      "fs_at (w_fs w) sd (mr_source_name req) = Some ob"
proof -
  obtain lr w1 where l: "load k c w = (lr, w1)" by fastforce
  have t1: "ticked w w1" using l by (rule load_ticked)
  obtain r2 sdh w2 where o1: "open_root (mr_source_dir req) w1 = ((r2, sdh), w2)" by (metis prod.collapse)
  have q1: "quiet w1" using t1 q by (rule ticked_quiet)
  have t2: "ticked w w2" using o1 q1 t1 by (auto elim!: open_root_cases intro: ticked_trans)
  have q2: "quiet w2" using t2 q by (rule ticked_quiet)
  obtain r3 ddh w3 where o2: "open_root (mr_dest_dir req) w2 = ((r3, ddh), w3)" by (metis prod.collapse)
  have t3: "ticked w w3" using o2 q2 t2 by (auto elim!: open_root_cases intro: ticked_trans)
  have q3: "quiet w3" using t3 q by (rule ticked_quiet)
  obtain r4 w4 where c4: "classify sdh (mr_source_name req) w3 = (r4, w4)" by fastforce
  have t4: "ticked w w4" using t3 classify_ticked [OF c4 q3] by (rule ticked_trans)
  have q4: "quiet w4" using t4 q by (rule ticked_quiet)
  obtain r5 w5 where o5: "open_regular sdh (mr_source_name req) (case r4 of Inr fi \<Rightarrow> fi) w4 = (r5, w5)" by fastforce
  have t5: "ticked w w5" using t4 open_regular_ticked [OF o5 q4] by (rule ticked_trans)
  have q5: "quiet w5" using t5 q by (rule ticked_quiet)
  obtain r6 w6 where c6: "classify sdh (mr_source_name req) w5 = (r6, w6)" by fastforce
  have t6: "ticked w w6" using t5 classify_ticked [OF c6 q5] by (rule ticked_trans)
  consider "out = Rejected" "w' \<in> {w, w1, w2, w3, w4, w5}"
    | j u v fi fd where "lr = Inr (Some j)" "r2 = Inr u" "r3 = Inr v" "r4 = Inr fi" "fi_kind fi = Regular" "r5 = Inr fd"
        "execute_record k req st j sdh ddh (case r6 of Inl e \<Rightarrow> e | Inr _ \<Rightarrow> []) c w6 = ((out, e'), w')"
    using ex l o1 o2 c4 o5 c6
    by (auto simp: execute_def split: sum.splits option.splits if_splits)
  then show thesis
  proof cases
    case 1
    with t1 t2 t3 t4 t5 show thesis by (intro rejected) auto
  next
    case (2 j u v fi fd)
    obtain sd where sd: "sdh = Some sd" "fs_roots (w_fs w1) (c_str (mr_source_dir req)) = Some sd"
      using o1 q1 2(2) by (auto elim: open_root_cases)
    obtain dd where dd: "ddh = Some dd" "fs_roots (w_fs w2) (c_str (mr_dest_dir req)) = Some dd"
      using o2 q2 2(3) by (auto elim: open_root_cases)
    obtain ob where "fs_at (w_fs w3) sd (mr_source_name req) = Some ob"
      using classify_seen [of sdh "mr_source_name req" w3 fi w4] c4 q3 2(4,5) sd by auto
    moreover have "durable_state w k = Some (job_state j)" using load_found [OF l 2(1)] k by (simp add: durable_state_def)
    ultimately show thesis using 2(7) sd dd t1 t2 t3 t6
      by (intro started [of j sd dd _ w6 ob]) (auto simp: tickedD)
  qed
qed

lemma execute_record_cases:
  assumes ex: "execute_record k req st j sdh ddh err c w = ((out, e'), w')" and k: "nul_free k"
    and d: "durable_state w k = Some (job_state j)"
  obtains (over) "out = MoveCompleted" "durable_state w k = Some Done" "w' = w"
  | (rejected) "out = Rejected" "w' = w"
  | (aborted) "out = AbortedBeforeCommit" "durable_state w k = Some Queued" "ticked w w'"
  | (commit) tick w1 s where "execute_commit k req st sdh ddh tick err c w1 = ((out, e'), w')"
      "db_step w w1" "durable_state w1 k = Some s"
      "s = Renaming \<and> durable_state w k \<in> {Some Queued, Some Renaming} \<or>
       s = Transferring \<and> durable_state w k = Some Transferring"
proof (cases "job_state j")
  case Queued
  obtain act e w1 where rt: "record_transition k Renaming (next_tick (updated_at_ms j)) [] BeforeCommitPoint c w = ((act, e), w1)"
    by (metis prod.collapse)
  from rt k show thesis
  proof (cases rule: transition_durable)
    case (refused m)
    with ex Queued rt d show thesis
      by (intro aborted) (auto simp: execute_record_def Let_def split: WriteFailureAction.splits)
  next
    case (stored s)
    with ex Queued rt d show thesis
      by (intro commit [of "next_tick (updated_at_ms j)" w1 Renaming]) (auto simp: execute_record_def Let_def)
  qed
next
  case Renaming
  with ex d show thesis
    by (intro commit [of "next_tick (updated_at_ms j)" w Renaming])
       (auto simp: execute_record_def Let_def db_step_ticked)
next
  case Transferring
  with ex d show thesis
    by (intro commit [of "next_tick (updated_at_ms j)" w Transferring])
       (auto simp: execute_record_def Let_def db_step_ticked)
next
  case Done
  with ex d show thesis by (intro over) (auto simp: execute_record_def Let_def)
next
  case Failed
  with ex d show thesis by (intro rejected) (auto simp: execute_record_def Let_def)
qed

section \<open>Where the object is\<close>

record route =
  rt_sd :: objid
  rt_sn :: string
  rt_dd :: objid
  rt_stg :: string
  rt_dn :: string

definition follows :: "string \<Rightarrow> MoveRequest \<Rightarrow> route \<Rightarrow> fsys \<Rightarrow> bool" where
  "follows k req r fs \<longleftrightarrow>
     fs_roots fs (c_str (mr_source_dir req)) = Some (rt_sd r) \<and>
     fs_roots fs (c_str (mr_dest_dir req)) = Some (rt_dd r) \<and>
     rt_sn r = mr_source_name req \<and> rt_stg r = staging_name k \<and> rt_dn r = mr_dest_name req \<and>
     (rt_sd r, rt_sn r) \<noteq> (rt_dd r, rt_stg r) \<and> (rt_sd r, rt_sn r) \<noteq> (rt_dd r, rt_dn r) \<and> rt_stg r \<noteq> rt_dn r"

datatype place = AtSource | AtStaging | AtFinal

definition placed :: "route \<Rightarrow> objid \<Rightarrow> place \<Rightarrow> fsys \<Rightarrow> bool" where
  "placed r ob p fs \<longleftrightarrow>
     fs_at fs (rt_sd r) (rt_sn r) = (if p = AtSource then Some ob else None) \<and>
     fs_at fs (rt_dd r) (rt_stg r) = (if p = AtStaging then Some ob else None) \<and>
     fs_at fs (rt_dd r) (rt_dn r) = (if p = AtFinal then Some ob else None)"

fun phase_ok :: "place \<Rightarrow> JobState \<Rightarrow> bool" where
  "phase_ok AtSource s = (s = Queued \<or> s = Renaming)"
| "phase_ok AtStaging s = (s = Renaming \<or> s = Transferring)"
| "phase_ok AtFinal s = (s = Transferring \<or> s = Done)"

text \<open>The crash invariant: the object has exactly one of its three names, and the durable
  state is at most one step behind the disk.\<close>

definition move_inv :: "route \<Rightarrow> objid \<Rightarrow> string \<Rightarrow> world \<Rightarrow> bool" where
  "move_inv r ob k w \<longleftrightarrow> (\<exists>p s. placed r ob p (w_fs w) \<and> durable_state w k = Some s \<and> phase_ok p s)"

lemma follows_step: "env_step w w' \<Longrightarrow> follows k req r (w_fs w) \<Longrightarrow> follows k req r (w_fs w')"
  by (auto simp: follows_def env_step_def)

lemma placed_commit:
  assumes "placed r ob AtSource fs" and "fs_moved (rt_sd r) (rt_sn r) (rt_dd r) (rt_stg r) x fs fs'"
    and "follows k req r fs0"
  shows "placed r ob AtStaging fs'"
  using assms by (auto simp: placed_def fs_moved_def follows_def)

lemma placed_publish:
  assumes "placed r ob AtStaging fs" and "fs_moved (rt_dd r) (rt_stg r) (rt_dd r) (rt_dn r) x fs fs'"
    and "follows k req r fs0"
  shows "placed r ob AtFinal fs'"
  using assms by (auto simp: placed_def fs_moved_def follows_def)

lemma finish_tracks:
  assumes fin: "finish_after_commit k req (Some (rt_dd r)) (rt_stg r) tick err c w = ((out, e'), w')"
    and q: "quiet w" and k: "nul_free k" and f: "follows k req r (w_fs w)"
    and pl: "placed r ob p (w_fs w)" and s: "durable_state w k = Some s" and ok: "phase_ok p s" and p: "p \<noteq> AtSource"
  obtains p' s' where "placed r ob p' (w_fs w')" "durable_state w' k = Some s'" "phase_ok p' s'" "p' \<noteq> AtSource"
    "env_step w w'" "out \<in> {MoveCompleted, HaltedAfterCommit, FailedExternal}"
    "out = MoveCompleted \<longrightarrow> p' = AtFinal \<and> s' = Done"
  using fin q k
proof (cases rule: finish_cases)
  case finished
  with pl s ok p have "p = AtFinal" by (cases p) auto
  with finished pl s show thesis
    by (intro that [of AtFinal Done]) (auto simp: tickedD durable_state_ticked intro: step_intros)
next
  case stopped
  from stopped(3) s consider "durable_state w' k = Some s" | "s = Renaming" "durable_state w' k = Some Transferring"
    by (auto simp: advanced_def)
  then obtain s' where "durable_state w' k = Some s'" "phase_ok p s'"
    using ok p by cases (cases p; auto)+
  with stopped pl p show thesis
    by (intro that [of p s']) (auto simp: db_step_def)
next
  case (published d x)
  have dn: "rt_dn r = mr_dest_name req" "rt_stg r = staging_name k" using f by (simp_all add: follows_def)
  have d: "d = rt_dd r" using published(1) by simp
  have "p = AtStaging" using published(2) pl d dn p by (cases p) (auto simp: placed_def)
  then have pl': "placed r ob AtFinal (w_fs w')"
    using placed_publish [OF _ _ f, of ob "w_fs w" x "w_fs w'"] pl published(4) d dn by simp
  from \<open>p = AtStaging\<close> ok have "s = Renaming \<or> s = Transferring" by simp
  with published(6) s consider "out = HaltedAfterCommit" "durable_state w' k = Some Transferring"
    | "out = MoveCompleted" "durable_state w' k = Some Done"
    by (auto simp: concluded_def moved_state_def)
  then show thesis
    by cases (use pl' published(5) in \<open>auto intro: that [of AtFinal]\<close>)
next
  case (present d x)
  have "p = AtFinal" using present(1,2) pl f p by (cases p) (auto simp: placed_def follows_def)
  with present(4) s ok consider "out = HaltedAfterCommit" "durable_state w' k = Some s"
    | "out = MoveCompleted" "durable_state w' k = Some Done"
    by (auto simp: concluded_def moved_state_def)
  then show thesis
    by cases (use \<open>p = AtFinal\<close> pl ok present(3) in \<open>auto simp: db_step_def intro: that [of AtFinal]\<close>)
qed

lemma commit_tracks:
  assumes ex: "execute_commit k req RenameNoReplace (Some (rt_sd r)) (Some (rt_dd r)) tick err c w = ((out, e'), w')"
    and q: "quiet w" and k: "nul_free k" and f: "follows k req r (w_fs w)"
    and pl: "placed r ob AtSource (w_fs w)" and s: "durable_state w k = Some Renaming"
  obtains p' s' where "placed r ob p' (w_fs w')" "durable_state w' k = Some s'" "phase_ok p' s'" "env_step w w'"
    "out \<noteq> Rejected" "out = AbortedBeforeCommit \<longleftrightarrow> p' = AtSource" "out = MoveCompleted \<longrightarrow> p' = AtFinal \<and> s' = Done"
proof -
  have names: "rt_sn r = mr_source_name req" "rt_stg r = staging_name k" using f by (simp_all add: follows_def)
  obtain mr w1 where m: "move_within (Some (rt_sd r)) (rt_sn r) (Some (rt_dd r)) (rt_stg r) RenameNoReplace w = (mr, w1)"
    by fastforce
  from m q show thesis
  proof (cases rule: move_within_cases)
    case (refused e)
    with ex m names pl s show thesis
      by (intro that [of AtSource Renaming])
         (auto simp: execute_commit_def tickedD durable_state_ticked intro: step_intros)
  next
    case (half e sd td x)
    then show thesis by simp
  next
    case (moved sd td x)
    have fin: "finish_after_commit k req (Some (rt_dd r)) (rt_stg r) (next_tick tick) err c w1 = ((out, e'), w')"
      using ex m names moved(1) by (simp add: execute_commit_def)
    have e1: "env_step w w1" using moved(6) by (rule env_step_fs)
    have pl1: "placed r ob AtStaging (w_fs w1)"
      using placed_commit [OF pl _ f, of x "w_fs w1"] moved(2,3,5) by simp
    have s1: "durable_state w1 k = Some Renaming" using moved(6) s by (simp add: durable_state_fs)
    have ok: "phase_ok AtStaging Renaming" "AtStaging \<noteq> AtSource" by simp_all
    obtain p' s' where *: "placed r ob p' (w_fs w')" "durable_state w' k = Some s'" "phase_ok p' s'"
      and "p' \<noteq> AtSource" and e2: "env_step w1 w'" and "out \<in> {MoveCompleted, HaltedAfterCommit, FailedExternal}"
      and "out = MoveCompleted \<longrightarrow> p' = AtFinal \<and> s' = Done"
      by (rule finish_tracks [OF fin env_step_quiet [OF e1 q] k follows_step [OF e1 f] pl1 s1 ok])
    with env_step_trans [OF e1 e2] show thesis by (intro that [OF *]) auto
  qed
qed

lemma execute_tracks:
  assumes ex: "execute k req RenameNoReplace c w = ((out, e'), w')"
    and q: "quiet w" and k: "nul_free k" and f: "follows k req r (w_fs w)"
    and pl: "placed r ob p (w_fs w)" and s: "durable_state w k = Some s" and ok: "phase_ok p s"
  obtains p' s' where "placed r ob p' (w_fs w')" "durable_state w' k = Some s'" "phase_ok p' s'" "env_step w w'"
    "out = Rejected \<longrightarrow> p' = p \<and> s' = s" "out = AbortedBeforeCommit \<longrightarrow> p' = AtSource"
    "out \<in> {HaltedAfterCommit, FailedExternal} \<longrightarrow> p' \<noteq> AtSource"
    "out = MoveCompleted \<longrightarrow> p' = AtFinal \<and> s' = Done"
  using ex q k
proof (cases rule: execute_cases)
  case rejected
  with pl s ok show thesis
    by (intro that [of p s]) (auto simp: tickedD durable_state_ticked intro: step_intros)
next
  case (started j sd dd x err w1)
  have dirs: "sd = rt_sd r" "dd = rt_dd r" using f started(4,5) by (simp_all add: follows_def)
  have "p = AtSource"
    using started(6) pl f dirs by (cases p) (auto simp: placed_def follows_def)
  with ok s have s': "s = Queued \<or> s = Renaming" by simp
  have t1: "durable_state w1 k = Some (job_state j)" "env_step w w1" "w_fs w1 = w_fs w"
    using started(2,3) by (auto simp: durable_state_ticked tickedD intro: step_intros)
  from started(1) k t1(1) show thesis
  proof (cases rule: execute_record_cases)
    case over
    with started(3) t1 s s' show thesis by simp
  next
    case rejected
    with pl s ok t1 started show thesis by (intro that [of p s]) (auto simp: durable_state_ticked)
  next
    case aborted
    then have "env_step w w'" "w_fs w' = w_fs w" "durable_state w' k = Some Queued"
      using t1 by (auto simp: tickedD durable_state_ticked intro: step_intros)
    with aborted pl \<open>p = AtSource\<close> show thesis by (intro that [of AtSource Queued]) auto
  next
    case (commit tick w2 s2)
    have e2: "env_step w w2" using t1(2) commit(2) by (blast intro: step_intros)
    have s2: "durable_state w2 k = Some Renaming" using commit(3,4) t1 s s' started(3) by auto
    have pl2: "placed r ob AtSource (w_fs w2)"
      using pl t1 commit(2) \<open>p = AtSource\<close> by (simp add: db_step_def)
    obtain p' s' where *: "placed r ob p' (w_fs w')" "durable_state w' k = Some s'" "phase_ok p' s'"
      and e3: "env_step w2 w'" and "out \<noteq> Rejected" "out = AbortedBeforeCommit \<longleftrightarrow> p' = AtSource"
      and "out = MoveCompleted \<longrightarrow> p' = AtFinal \<and> s' = Done"
      by (rule commit_tracks [OF commit(1) [unfolded dirs] env_step_quiet [OF e2 q] k follows_step [OF e2 f] pl2 s2])
    with env_step_trans [OF e2 e3] show thesis by (intro that [OF *]) auto
  qed
qed

section \<open>Recovery\<close>

text \<open>A fault schedule in which a failed system call is never followed by a successful store
  write: in particular every schedule that kills the process at some point.\<close>

definition fail_stop :: "world \<Rightarrow> bool" where
  "fail_stop w \<longleftrightarrow> (\<forall>n m. w_fault w n \<noteq> None \<longrightarrow> n \<le> m \<longrightarrow> w_dbfault w m \<noteq> None)"

lemma env_step_fail_stop: "env_step w w' \<Longrightarrow> fail_stop w \<Longrightarrow> fail_stop w'"
  by (simp add: env_step_def same_env_def fail_stop_def)

lemma load_dead:
  assumes "w_dbfault w (w_tick w) \<noteq> None"
  shows "\<exists>e. fst (load i c w) = Inl e"
  using assms by (auto simp: load_def sql_call_def)

lemma record_transition_dead:
  assumes "record_transition i t now msg ph c w = (r, w')" and "w_dbfault w (w_tick w) \<noteq> None"
  shows "ticked w w'"
  using assms(1)
proof (cases rule: record_transition_cases)
  case (stored r s)
  obtain e w1 where "load i c w = (Inl e, w1)" using load_dead [OF assms(2), of i c]
    by (cases "load i c w") auto
  with stored(1) assms(1) show ?thesis
    by (auto simp: record_transition_def update_state_def update_check_def update_write_def split: if_splits sum.splits prod.splits)
qed

lemma classify_failed_fault:
  assumes "classify (Some d) n w = (Inl e, w')" and "is_plain_name n"
  shows "w_fault w (w_tick w) \<noteq> None \<and> w_tick w' = Suc (w_tick w)"
  using assms by (auto simp: classify_def sys_fstatat_def kcall_def plain_name_nul_free
      split: prod.splits option.splits if_splits)

text \<open>Recovery reads the disk and the record, then acts on what it saw.\<close>

definition recover_act ::
  "string \<Rightarrow> MoveRequest \<Rightarrow> MoveStrategy \<Rightarrow> route \<Rightarrow> MoveState \<Rightarrow> int \<Rightarrow> conn \<Rightarrow> world \<Rightarrow> (MoveOutcome \<times> string) \<times> world" where
  "recover_act k req st r ms tick c w = (case ms of
        NotStarted \<Rightarrow> execute k req st c w
      | Interrupted \<Rightarrow>
         (case move_within (Some (rt_sd r)) (mr_source_name req) (Some (rt_dd r)) (staging_name k) LinkThenUnlink w of
            (Inl e, w5) \<Rightarrow>
              (let w6 = snd (mark_needs_attention k e c w5) in ((HaltedAfterCommit, e), w6))
          | (Inr _, w5) \<Rightarrow> finish_after_commit k req (Some (rt_dd r)) (staging_name k) tick [] c w5)
      | Completed \<Rightarrow> finish_after_commit k req (Some (rt_dd r)) (staging_name k) tick [] c w
      | Collision \<Rightarrow>
         (let error = collision_msg (staging_name k);
              w5 = snd (record_transition k Failed tick error AfterCommitPoint c w)
          in ((HaltedAfterCommit, error), w5))
      | BothMissing \<Rightarrow>
         (case classify (Some (rt_dd r)) (mr_dest_name req) w of
            (final_id, w5) \<Rightarrow>
              (if seen final_id
               then finish_after_commit k req (Some (rt_dd r)) (staging_name k) tick [] c w5
               else
                 let error = both_missing_msg k;
                     w6 = snd (record_transition k Failed tick error AfterCommitPoint c w5)
                 in ((FailedExternal, error), w6))))"

lemma recover_cases:
  assumes rc: "recover k req st c w = ((out, e'), w')" and q: "quiet w" and h: "honest w" and f: "follows k req r (w_fs w)"
  obtains (rejected) "out = Rejected" "ticked w w'"
  | (acted) ms tick w1 where "recover_act k req st r ms tick c w1 = ((out, e'), w')" "ticked w w1"
      "ms = (case (fs_at (w_fs w) (rt_sd r) (rt_sn r), fs_at (w_fs w) (rt_dd r) (rt_stg r)) of
         (Some a, Some b) \<Rightarrow> (if a = b then Interrupted else Collision)
       | (Some a, None) \<Rightarrow> NotStarted | (None, Some b) \<Rightarrow> Completed | (None, None) \<Rightarrow> BothMissing)"
proof -
  obtain r1 sdh w1 where o1: "open_root (mr_source_dir req) w = ((r1, sdh), w1)" by (metis prod.collapse)
  have t1: "ticked w w1" using o1 q by (auto elim!: open_root_cases)
  have q1: "quiet w1" using t1 q by (rule ticked_quiet)
  obtain r2 ddh w2 where o2: "open_root (mr_dest_dir req) w1 = ((r2, ddh), w2)" by (metis prod.collapse)
  have t2: "ticked w w2" using o2 q1 t1 by (auto elim!: open_root_cases intro: ticked_trans)
  have q2: "quiet w2" "honest w2" using t2 q h by (auto intro: ticked_quiet ticked_honest)
  show thesis
  proof (cases "(\<exists>u. r1 = Inr u) \<and> (\<exists>v. r2 = Inr v)")
    case False
    then have "out = Rejected \<and> (w' = w1 \<or> w' = w2)"
      using rc o1 o2 by (auto simp: recover_def split: sum.splits)
    with t1 t2 show thesis by (intro rejected) auto
  next
    case True
    then have hs: "sdh = Some (rt_sd r)" "ddh = Some (rt_dd r)"
      using o1 q o2 q1 f t1 by (auto simp: follows_def tickedD elim!: open_root_cases)
    have names: "rt_sn r = mr_source_name req" "rt_stg r = staging_name k" using f by (simp_all add: follows_def)
    obtain r3 w3 where cm: "classify_move_state (Some (rt_sd r)) (rt_sn r) (Some (rt_dd r)) (rt_stg r) w2 = (r3, w3)"
      by fastforce
    have t3: "ticked w w3"
    proof -
      have "ticked w2 w3" using cm q2(1)
        by (auto simp: classify_move_state_def Let_def split: prod.splits sum.splits
            dest!: classify_ticked intro: ticked_trans ticked_quiet)
      with t2 show ?thesis by (rule ticked_trans)
    qed
    obtain lr w4 where l: "load k c w3 = (lr, w4)" by fastforce
    have t4: "ticked w w4" using t3 load_ticked [OF l] by (rule ticked_trans)
    show thesis
    proof (cases "(\<exists>ms. r3 = Inr ms) \<and> (\<exists>j. lr = Inr (Some j))")
      case False
      then have "out = Rejected \<and> (w' = w3 \<or> w' = w4)"
        using rc o1 o2 True hs cm l names by (auto simp: recover_def Let_def split: sum.splits option.splits)
      with t3 t4 show thesis by (intro rejected) auto
    next
      case act: True
      then obtain ms j where r3: "r3 = Inr ms" and lr: "lr = Inr (Some j)" by auto
      have "recover_act k req st r ms (next_tick (updated_at_ms j)) c w4 = ((out, e'), w')"
        using rc o1 o2 True hs cm l names r3 lr by (auto simp: recover_def recover_act_def Let_def)
      moreover note classify_move_state_spec [OF cm q2] r3
      ultimately show thesis using t2 t4 by (intro acted [of ms _ w4]) (auto simp: tickedD)
    qed
  qed
qed

lemma recover_tracks:
  assumes rc: "recover k req RenameNoReplace c w = ((out, e'), w')"
    and q: "quiet w" and h: "honest w" and fs: "fail_stop w" and k: "nul_free k" and f: "follows k req r (w_fs w)"
    and dn: "is_plain_name (mr_dest_name req)"
    and pl: "placed r ob p (w_fs w)" and s: "durable_state w k = Some s" and ok: "phase_ok p s"
  obtains p' s' where "placed r ob p' (w_fs w')" "durable_state w' k = Some s'" "phase_ok p' s'" "env_step w w'"
    "out = MoveCompleted \<longrightarrow> p' = AtFinal \<and> s' = Done"
  using rc q h f
proof (cases rule: recover_cases)
  case rejected
  with pl s ok show thesis
    by (intro that [of p s]) (auto simp: tickedD durable_state_ticked intro: step_intros)
next
  case (acted ms tick w1)
  have e1: "env_step w w1" and q1: "quiet w1" and h1: "honest w1" and fs1: "fail_stop w1"
    and f1: "follows k req r (w_fs w1)" and pl1: "placed r ob p (w_fs w1)" and s1: "durable_state w1 k = Some s"
    using acted(2) q h fs f pl s
    by (auto simp: tickedD durable_state_ticked intro: step_intros ticked_quiet ticked_honest env_step_fail_stop)
  have names: "rt_stg r = staging_name k" "rt_dn r = mr_dest_name req" using f by (simp_all add: follows_def)
  have fin: thesis if p: "p \<noteq> AtSource" and e2: "env_step w w2" and pl2: "placed r ob p (w_fs w2)"
    and s2: "durable_state w2 k = Some s"
    and fa: "finish_after_commit k req (Some (rt_dd r)) (rt_stg r) tick [] c w2 = ((out, e'), w')" for w2
  proof -
    obtain p' s' where *: "placed r ob p' (w_fs w')" "durable_state w' k = Some s'" "phase_ok p' s'"
      and "p' \<noteq> AtSource" and e3: "env_step w2 w'" and "out \<in> {MoveCompleted, HaltedAfterCommit, FailedExternal}"
      and **: "out = MoveCompleted \<longrightarrow> p' = AtFinal \<and> s' = Done"
      by (rule finish_tracks [OF fa env_step_quiet [OF e2 q] k follows_step [OF e2 f] pl2 s2 ok p])
    show thesis by (rule \<open>\<And>p' s'. placed r ob p' (w_fs w') \<Longrightarrow> durable_state w' k = Some s' \<Longrightarrow> phase_ok p' s' \<Longrightarrow>
        env_step w w' \<Longrightarrow> out = MoveCompleted \<longrightarrow> p' = AtFinal \<and> s' = Done \<Longrightarrow> thesis\<close> [OF * env_step_trans [OF e2 e3] **])
  qed
  show thesis
  proof (cases p)
    case AtSource
    then have "ms = NotStarted" using acted(3) pl by (simp add: placed_def)
    with acted(1) have ex: "execute k req RenameNoReplace c w1 = ((out, e'), w')" by (simp add: recover_act_def)
    obtain p' s' where *: "placed r ob p' (w_fs w')" "durable_state w' k = Some s'" "phase_ok p' s'"
      and e3: "env_step w1 w'" and "out = Rejected \<longrightarrow> p' = p \<and> s' = s" "out = AbortedBeforeCommit \<longrightarrow> p' = AtSource"
      and "out \<in> {HaltedAfterCommit, FailedExternal} \<longrightarrow> p' \<noteq> AtSource"
      and **: "out = MoveCompleted \<longrightarrow> p' = AtFinal \<and> s' = Done"
      by (rule execute_tracks [OF ex q1 k f1 pl1 s1 ok])
    show thesis by (rule that [OF * env_step_trans [OF e1 e3] **])
  next
    case AtStaging
    then have "ms = Completed" using acted(3) pl by (simp add: placed_def)
    with acted(1) names have "finish_after_commit k req (Some (rt_dd r)) (rt_stg r) tick [] c w1 = ((out, e'), w')"
      by (simp add: recover_act_def)
    with AtStaging e1 pl1 s1 show thesis by (intro fin) simp_all
  next
    case AtFinal
    then have ms: "ms = BothMissing" using acted(3) pl by (simp add: placed_def)
    obtain cr w2 where c2: "classify (Some (rt_dd r)) (mr_dest_name req) w1 = (cr, w2)" by fastforce
    have t2: "ticked w1 w2" using c2 q1 by (rule classify_ticked)
    have e2: "env_step w w2" using e1 t2 by (blast intro: step_intros)
    have pl2: "placed r ob p (w_fs w2)" and s2: "durable_state w2 k = Some s"
      using pl1 s1 t2 by (simp_all add: tickedD durable_state_ticked)
    show thesis
    proof (cases "seen cr")
      case True
      with acted(1) ms c2 names have "finish_after_commit k req (Some (rt_dd r)) (rt_stg r) tick [] c w2 = ((out, e'), w')"
        by (simp add: recover_act_def)
      with AtFinal e2 pl2 s2 show thesis by (intro fin) simp_all
    next
      case False
      then have out: "out = FailedExternal"
        "w' = snd (record_transition k Failed tick (both_missing_msg k) AfterCommitPoint c w2)"
        using acted(1) ms c2 by (auto simp: recover_act_def Let_def)
      have "\<exists>m. cr = Inl m"
        using False classify_honest [of "Some (rt_dd r)" "mr_dest_name req" w1 _ w2] c2 q1 h1 AtFinal pl1 names
        by (cases cr) (auto simp: seen_def placed_def)
      then have "w_fault w1 (w_tick w1) \<noteq> None" "w_tick w2 = Suc (w_tick w1)"
        using classify_failed_fault [of "rt_dd r" "mr_dest_name req" w1] c2 dn by auto
      then have "w_dbfault w2 (w_tick w2) \<noteq> None"
        using fs1 t2 by (auto simp: fail_stop_def tickedD)
      with out have t3: "ticked w2 w'"
        using record_transition_dead [of k Failed tick "both_missing_msg k" AfterCommitPoint c w2] by (metis prod.collapse)
      with pl2 s2 ok e2 out(1) show thesis
        by (intro that [of p s]) (auto simp: tickedD durable_state_ticked intro: step_intros)
    qed
  qed
qed

section \<open>Without failures the move completes\<close>

text \<open>What a move that can complete needs of its request and of the two directories.\<close>

definition movable :: "string \<Rightarrow> MoveRequest \<Rightarrow> route \<Rightarrow> objid \<Rightarrow> world \<Rightarrow> bool" where
  "movable k req r ob w \<longleftrightarrow> nul_free k \<and> follows k req r (w_fs w) \<and>
     validate_external_path (mr_source_dir req) = Inr () \<and> validate_external_path (mr_dest_dir req) = Inr () \<and>
     is_plain_name (mr_source_name req) \<and> is_plain_name (mr_dest_name req) \<and> is_plain_name (staging_name k) \<and>
     fst (rt_sd r) = fst (rt_dd r) \<and>
     has_type (st_mode (fs_stat (w_fs w) (rt_sd r))) S_IFDIR \<and>
     has_type (st_mode (fs_stat (w_fs w) (rt_dd r))) S_IFDIR \<and>
     has_type (st_mode (fs_stat (w_fs w) ob)) S_IFREG"

definition healthy_store :: "conn \<Rightarrow> world \<Rightarrow> bool" where
  "healthy_store c w \<longleftrightarrow> c_open c \<and> \<not> c_query_only c \<and> db_wf (w_db w) \<and> quiet w \<and> fault_free w"

lemma movable_step: "env_step w w' \<Longrightarrow> movable k req r ob w \<Longrightarrow> movable k req r ob w'"
  using follows_step [of w w' k req r] by (simp add: movable_def env_step_def)

lemma healthy_step: "env_step w w' \<Longrightarrow> healthy_store c w \<Longrightarrow> healthy_store c w'"
  using env_step_quiet [of w w'] env_step_fault_free [of w w'] by (simp add: healthy_store_def env_step_def)

lemma load_healthy:
  assumes "healthy_store c w" and "nul_free k" and "durable_state w k = Some s"
  obtains j where "load k c w = (Inr (Some j), w\<lparr>w_tick := w_tick w + 2\<rparr>)" "job_state j = s"
  using load_fault_free [of w c k] assms by (auto simp: healthy_store_def durable_state_def)

lemma record_transition_healthy:
  assumes "healthy_store c w" and "nul_free k" and "durable_state w k = Some s"
    and "is_legal_transition s t" and "t \<noteq> Failed"
  obtains w' where "record_transition k t now [] ph c w = ((NoAction, None), w')"
    "durable_state w' k = Some t" "db_step w w'"
proof -
  obtain j where j: "abs_job w k = Some j" "job_state j = s" using assms(3) by (auto simp: durable_state_def)
  have "fst (update_state k t now [] c w) = Inr ()"
    by (rule update_state_fault_free [OF _ _ _ _ assms(2) _ j(1)])
       (use assms j in \<open>auto simp: healthy_store_def transition_ok_def\<close>)
  then obtain w' where rt: "record_transition k t now [] ph c w = ((NoAction, None), w')"
    by (cases "update_state k t now [] c w") (simp add: record_transition_def)
  from rt assms(2) show thesis
    by (cases rule: transition_durable) (use rt that in auto)
qed

lemma finish_record_done_completes:
  assumes "healthy_store c w" and "nul_free k" and "durable_state w k = Some Transferring"
  shows "fst (fst (finish_record_done k tick err c w)) = MoveCompleted"
proof -
  obtain w' where "record_transition k Done (next_tick tick) [] AfterCommitPoint c w = ((NoAction, None), w')"
    by (rule record_transition_healthy [OF assms, of Done]) simp_all
  then show ?thesis by (simp add: finish_record_done_def)
qed

lemma finish_publish_completes:
  assumes h: "healthy_store c w" and m: "movable k req r ob w" and s: "durable_state w k = Some Transferring"
    and pl: "placed r ob p (w_fs w)" and p: "p \<noteq> AtSource"
  shows "fst (fst (finish_publish k req (Some (rt_dd r)) (rt_stg r) tick err c w)) = MoveCompleted"
proof -
  let ?dn = "mr_dest_name req" and ?w2 = "w\<lparr>w_tick := Suc (Suc (w_tick w))\<rparr>"
  have q: "quiet w" "fault_free w" using h by (simp_all add: healthy_store_def)
  have n: "is_plain_name (rt_stg r)" "is_plain_name ?dn" "rt_dn r = ?dn" "nul_free k"
    using m by (simp_all add: movable_def follows_def)
  have c1: "classify (Some (rt_dd r)) (rt_stg r) w =
      (Inr (identity_at (w_fs w) (rt_dd r) (rt_stg r)), w\<lparr>w_tick := Suc (w_tick w)\<rparr>)"
    using q n by (simp add: classify_fault_free)
  have c2: "classify (Some (rt_dd r)) ?dn (w\<lparr>w_tick := Suc (w_tick w)\<rparr>) =
      (Inr (identity_at (w_fs w) (rt_dd r) ?dn), ?w2)"
    using classify_fault_free [of "w\<lparr>w_tick := Suc (w_tick w)\<rparr>" ?dn "rt_dd r"] q n by simp
  have t2: "ticked w ?w2" by simp
  have h2: "healthy_store c ?w2" using healthy_step [OF db_step_env [OF db_step_ticked [OF t2]] h] .
  have s2: "durable_state ?w2 k = Some Transferring" using s durable_state_ticked [OF t2] by simp
  show ?thesis
  proof (cases p)
    case AtStaging
    have at: "fs_at (w_fs w) (rt_dd r) (rt_stg r) = Some ob" "fs_at (w_fs w) (rt_dd r) ?dn = None"
      using pl AtStaging n by (simp_all add: placed_def)
    have "fst (publish (Some (rt_dd r)) (rt_stg r) ?dn ?w2) = Inr ()"
      by (rule publish_succeeds [of _ _ _ _ ob]) (use q n at m in \<open>simp_all add: movable_def\<close>)
    then obtain w3 where pb: "publish (Some (rt_dd r)) (rt_stg r) ?dn ?w2 = (Inr (), w3)"
      by (cases "publish (Some (rt_dd r)) (rt_stg r) ?dn ?w2") auto
    have fs3: "fs_step ?w2 w3"
      using pb q by (auto elim!: publish_cases simp: fs_step_ticked)
    have "healthy_store c w3" "durable_state w3 k = Some Transferring"
      using healthy_step [OF env_step_fs [OF fs3] h2] s2 durable_state_fs [OF fs3] by simp_all
    then show ?thesis using c1 c2 at pb finish_record_done_completes n(4)
      by (simp add: finish_publish_def seen_def)
  next
    case AtFinal
    have at: "fs_at (w_fs w) (rt_dd r) (rt_stg r) = None" "fs_at (w_fs w) (rt_dd r) ?dn = Some ob"
      using pl AtFinal n by (simp_all add: placed_def)
    with c1 c2 h2 s2 n(4) finish_record_done_completes show ?thesis
      by (simp add: finish_publish_def seen_def)
  qed (use p in simp)
qed

lemma finish_completes:
  assumes h: "healthy_store c w" and m: "movable k req r ob w" and s: "durable_state w k = Some s"
    and pl: "placed r ob p (w_fs w)" and p: "p \<noteq> AtSource" and ok: "phase_ok p s"
  shows "fst (fst (finish_after_commit k req (Some (rt_dd r)) (rt_stg r) tick err c w)) = MoveCompleted"
proof -
  have k: "nul_free k" using m by (simp add: movable_def)
  let ?w1 = "w\<lparr>w_tick := w_tick w + 2\<rparr>"
  obtain j where l: "load k c w = (Inr (Some j), ?w1)" "job_state j = s" by (rule load_healthy [OF h k s])
  have t1: "ticked w ?w1" by simp
  have e1: "env_step w ?w1" by (rule db_step_env [OF db_step_ticked [OF t1]])
  have h1: "healthy_store c ?w1" "movable k req r ob ?w1" "durable_state ?w1 k = Some s" "placed r ob p (w_fs ?w1)"
    using healthy_step [OF e1 h] movable_step [OF e1 m] s pl durable_state_ticked [OF t1] by simp_all
  consider "s = Done" | "s = Transferring" | "s = Renaming" using ok p by (cases p) auto
  then show ?thesis
  proof cases
    case 1
    with l show ?thesis by (simp add: finish_after_commit_def)
  next
    case 2
    with l h1 p finish_publish_completes show ?thesis by (simp add: finish_after_commit_def)
  next
    case 3
    obtain w2 where rt: "record_transition k Transferring tick [] AfterCommitPoint c ?w1 = ((NoAction, None), w2)"
      and s2: "durable_state w2 k = Some Transferring" and d2: "db_step ?w1 w2"
      by (rule record_transition_healthy [OF h1(1) k h1(3), of Transferring]) (use 3 in simp_all)
    have "fst (fst (finish_publish k req (Some (rt_dd r)) (rt_stg r) tick err c w2)) = MoveCompleted"
      using healthy_step [OF db_step_env [OF d2] h1(1)] movable_step [OF db_step_env [OF d2] h1(2)] s2 h1(4) d2 p
      by (intro finish_publish_completes) (simp_all add: db_step_def)
    with l rt 3 show ?thesis by (simp add: finish_after_commit_def)
  qed
qed

lemma execute_completes:
  assumes h: "healthy_store c w" and m: "movable k req r ob w" and s: "durable_state w k = Some s"
    and pl: "placed r ob AtSource (w_fs w)" and ok: "phase_ok AtSource s"
  shows "fst (fst (execute k req st c w)) = MoveCompleted"
proof -
  let ?sn = "mr_source_name req"
  have k: "nul_free k" and v: "validate_external_path (mr_source_dir req) = Inr ()"
    "validate_external_path (mr_dest_dir req) = Inr ()" and n: "is_plain_name ?sn" "is_plain_name (staging_name k)"
    and rn: "rt_sn r = ?sn" "rt_stg r = staging_name k"
    using m by (simp_all add: movable_def follows_def)
  have q: "quiet w" "fault_free w" using h by (simp_all add: healthy_store_def)
  have at: "fs_at (w_fs w) (rt_sd r) ?sn = Some ob" "fs_at (w_fs w) (rt_dd r) (staging_name k) = None"
    using pl rn by (simp_all add: placed_def)
  have tk: "w_tick w \<le> n \<Longrightarrow> quiet (w\<lparr>w_tick := n\<rparr>) \<and> fault_free (w\<lparr>w_tick := n\<rparr>)" for n
    using q by simp
  let ?t = "\<lambda>i. w\<lparr>w_tick := w_tick w + i\<rparr>"
  obtain j where l: "load k c w = (Inr (Some j), ?t 2)" "job_state j = s" by (rule load_healthy [OF h k s])
  have o1: "open_root (mr_source_dir req) (?t 2) = ((Inr (), Some (rt_sd r)), ?t 3)"
    using open_root_fault_free [of "?t 2" "mr_source_dir req" "rt_sd r"] tk [of "w_tick w + 2"] m
    by (simp add: movable_def follows_def eval_nat_numeral)
  have o2: "open_root (mr_dest_dir req) (?t 3) = ((Inr (), Some (rt_dd r)), ?t 4)"
    using open_root_fault_free [of "?t 3" "mr_dest_dir req" "rt_dd r"] tk [of "w_tick w + 3"] m
    by (simp add: movable_def follows_def eval_nat_numeral)
  have c4: "classify (Some (rt_sd r)) ?sn (?t 4) = (Inr (identity_at (w_fs w) (rt_sd r) ?sn), ?t 5)"
    using classify_fault_free [of "?t 4" ?sn "rt_sd r"] tk [of "w_tick w + 4"] n by (simp add: eval_nat_numeral)
  have reg: "has_type (st_mode (fs_stat (w_fs w) ob)) S_IFREG" using m by (simp add: movable_def)
  have kind: "fi_kind (identity_at (w_fs w) (rt_sd r) ?sn) = Regular"
    using at reg by (simp add: identity_at_def identity_of_def kind_Regular_iff)
  have o5: "open_regular (Some (rt_sd r)) ?sn (identity_at (w_fs w) (rt_sd r) ?sn) (?t 5) = (Inr ob, ?t 7)"
    using open_regular_fault_free [of "?t 5" ?sn "rt_sd r" ob] tk [of "w_tick w + 5"] n at reg
    by (simp add: eval_nat_numeral)
  have c6: "classify (Some (rt_sd r)) ?sn (?t 7) = (Inr (identity_at (w_fs w) (rt_sd r) ?sn), ?t 8)"
    using classify_fault_free [of "?t 7" ?sn "rt_sd r"] tk [of "w_tick w + 7"] n by (simp add: eval_nat_numeral)
  have run: "execute k req st c w = execute_record k req st j (Some (rt_sd r)) (Some (rt_dd r)) [] c (?t 8)"
    using v l o1 o2 c4 kind o5 c6 by (simp add: execute_def)
  have t8: "ticked w (?t 8)" by simp
  have e8: "env_step w (?t 8)" by (rule db_step_env [OF db_step_ticked [OF t8]])
  have go: "fst (fst (execute_commit k req st (Some (rt_sd r)) (Some (rt_dd r)) tick [] c w2)) = MoveCompleted"
    if e2: "env_step w w2" and f2: "w_fs w2 = w_fs w" and s2: "durable_state w2 k = Some Renaming" for w2 tick
  proof -
    have h2: "healthy_store c w2" "movable k req r ob w2"
      using healthy_step [OF e2 h] movable_step [OF e2 m] by simp_all
    have "fst (move_within (Some (rt_sd r)) ?sn (Some (rt_dd r)) (staging_name k) st w2) = Inr ()"
      by (rule move_within_succeeds [of _ _ _ _ _ ob])
         (use h2 n at f2 reg in \<open>simp_all add: healthy_store_def movable_def\<close>)
    then obtain w3 where mv: "move_within (Some (rt_sd r)) ?sn (Some (rt_dd r)) (staging_name k) st w2 = (Inr (), w3)"
      by (cases "move_within (Some (rt_sd r)) ?sn (Some (rt_dd r)) (staging_name k) st w2") auto
    have q2: "quiet w2" using h2 by (simp add: healthy_store_def)
    obtain x where mvd: "fs_moved (rt_sd r) ?sn (rt_dd r) (staging_name k) x (w_fs w2) (w_fs w3)" and f3: "fs_step w2 w3"
      using mv q2 by (auto elim!: move_within_cases)
    have pl3: "placed r ob AtStaging (w_fs w3)"
      using placed_commit [of r ob "w_fs w2" x "w_fs w3" k req "w_fs w"] pl f2 mvd rn m by (simp add: movable_def)
    have "fst (fst (finish_after_commit k req (Some (rt_dd r)) (rt_stg r) (next_tick tick) [] c w3)) = MoveCompleted"
      by (rule finish_completes [OF healthy_step [OF env_step_fs [OF f3] h2(1)]
          movable_step [OF env_step_fs [OF f3] h2(2)] _ pl3, of Renaming]) (use s2 f3 in \<open>simp_all add: durable_state_fs\<close>)
    with mv rn show ?thesis by (simp add: execute_commit_def)
  qed
  have s8: "durable_state (?t 8) k = Some s" using s durable_state_ticked [OF t8] by simp
  show ?thesis
  proof (cases "s = Queued")
    case True
    obtain w2 where rt: "record_transition k Renaming (next_tick (updated_at_ms j)) [] BeforeCommitPoint c (?t 8) =
        ((NoAction, None), w2)" and s2: "durable_state w2 k = Some Renaming" and d2: "db_step (?t 8) w2"
      by (rule record_transition_healthy [OF healthy_step [OF e8 h] k s8, of Renaming]) (use True in simp_all)
    have "env_step w w2" "w_fs w2 = w_fs w" using e8 d2 by (auto simp: db_step_def intro: env_step_trans)
    from go [OF this s2] rt True l show ?thesis by (simp add: run execute_record_def Let_def)
  next
    case False
    with ok have "s = Renaming" by simp
    with go [OF e8] s8 l show ?thesis by (simp add: run execute_record_def Let_def)
  qed
qed

lemma recover_completes:
  assumes h: "healthy_store c w" and m: "movable k req r ob w" and s: "durable_state w k = Some s"
    and pl: "placed r ob p (w_fs w)" and ok: "phase_ok p s"
  shows "fst (fst (recover k req st c w)) = MoveCompleted"
proof -
  let ?sn = "mr_source_name req" and ?stg = "staging_name k" and ?dn = "mr_dest_name req"
  let ?t = "\<lambda>i. w\<lparr>w_tick := w_tick w + i\<rparr>"
  have k: "nul_free k" and n: "is_plain_name ?sn" "is_plain_name ?stg" "is_plain_name ?dn"
    and rn: "rt_sn r = ?sn" "rt_stg r = ?stg" "rt_dn r = ?dn"
    using m by (simp_all add: movable_def follows_def)
  have q: "quiet w" "fault_free w" using h by (simp_all add: healthy_store_def)
  have tk: "w_tick w \<le> n \<Longrightarrow> quiet (w\<lparr>w_tick := n\<rparr>) \<and> fault_free (w\<lparr>w_tick := n\<rparr>)" for n
    using q by simp
  have o1: "open_root (mr_source_dir req) w = ((Inr (), Some (rt_sd r)), ?t 1)"
    using open_root_fault_free [of w "mr_source_dir req" "rt_sd r"] q m by (simp add: movable_def follows_def)
  have o2: "open_root (mr_dest_dir req) (?t 1) = ((Inr (), Some (rt_dd r)), ?t 2)"
    using open_root_fault_free [of "?t 1" "mr_dest_dir req" "rt_dd r"] tk [of "w_tick w + 1"] m
    by (simp add: movable_def follows_def eval_nat_numeral)
  define a where "a = identity_at (w_fs w) (rt_sd r) ?sn"
  define b where "b = identity_at (w_fs w) (rt_dd r) ?stg"
  have c1: "classify (Some (rt_sd r)) ?sn (?t 2) = (Inr a, ?t 3)"
    using classify_fault_free [of "?t 2" ?sn "rt_sd r"] tk [of "w_tick w + 2"] n by (simp add: a_def eval_nat_numeral)
  have c2: "classify (Some (rt_dd r)) ?stg (?t 3) = (Inr b, ?t 4)"
    using classify_fault_free [of "?t 3" ?stg "rt_dd r"] tk [of "w_tick w + 3"] n by (simp add: b_def eval_nat_numeral)
  define ms where "ms = (case p of AtSource \<Rightarrow> NotStarted | AtStaging \<Rightarrow> Completed | AtFinal \<Rightarrow> BothMissing)"
  have cm: "classify_move_state (Some (rt_sd r)) ?sn (Some (rt_dd r)) ?stg (?t 2) = (Inr ms, ?t 4)"
    using pl rn c1 c2 by (cases p) (simp_all add: classify_move_state_def Let_def a_def b_def placed_def ms_def)
  have t4: "ticked w (?t 4)" and t6: "ticked w (?t 6)" and t7: "ticked w (?t 7)" by simp_all
  have e: "env_step w (?t i)" for i by (rule db_step_env [OF db_step_ticked]) simp
  have st: "durable_state (?t i) k = Some s" for i
    using s durable_state_ticked [of w "?t i" k] by simp
  have hm: "healthy_store c (?t i)" "movable k req r ob (?t i)" "placed r ob p (w_fs (?t i))" for i
    using healthy_step [OF e h] movable_step [OF e m] pl by simp_all
  obtain j where l: "load k c (?t 4) = (Inr (Some j), ?t 6)"
    by (rule load_healthy [OF hm(1) k st, of 4]) (simp add: eval_nat_numeral)
  have c3: "classify (Some (rt_dd r)) ?dn (?t 6) = (Inr (identity_at (w_fs w) (rt_dd r) ?dn), ?t 7)"
    using classify_fault_free [of "?t 6" ?dn "rt_dd r"] tk [of "w_tick w + 6"] n by (simp add: eval_nat_numeral)
  have fin: "p \<noteq> AtSource \<Longrightarrow> fst (fst (finish_after_commit k req (Some (rt_dd r)) ?stg tick [] c (?t i))) = MoveCompleted" for tick i
    unfolding rn(2) [symmetric] by (rule finish_completes [OF hm(1,2) st hm(3) _ ok])
  show ?thesis
  proof (cases p)
    case AtSource
    with o1 o2 cm l execute_completes [OF hm(1,2) st, of 6 st] hm(3) [of 6] ok show ?thesis
      by (simp add: recover_def Let_def ms_def)
  next
    case AtStaging
    with o1 o2 cm l fin show ?thesis by (simp add: recover_def Let_def ms_def)
  next
    case AtFinal
    with pl rn have "seen (Inr (identity_at (w_fs w) (rt_dd r) ?dn))" by (simp add: seen_def placed_def)
    with AtFinal o1 o2 cm l fin c3 show ?thesis by (simp add: recover_def Let_def ms_def)
  qed
qed

section \<open>No move loses its object\<close>

text \<open>For either strategy and any schedule of failing calls, honest or not.\<close>

definition accounted :: "route \<Rightarrow> objid \<Rightarrow> MoveOutcome \<Rightarrow> string \<Rightarrow> world \<Rightarrow> world \<Rightarrow> bool" where
  "accounted r ob out k w w' \<longleftrightarrow>
     (out = Rejected \<longrightarrow> w_fs w' = w_fs w \<and> w_db w' = w_db w) \<and>
     (out = AbortedBeforeCommit \<longrightarrow> fs_at (w_fs w') (rt_sd r) (rt_sn r) = Some ob) \<and>
     (out \<in> {HaltedAfterCommit, FailedExternal} \<longrightarrow>
        fs_at (w_fs w') (rt_dd r) (rt_stg r) = Some ob \<or> fs_at (w_fs w') (rt_dd r) (rt_dn r) = Some ob) \<and>
     (out = MoveCompleted \<longrightarrow> durable_state w' k = Some Done \<and>
        (durable_state w k \<noteq> Some Done \<longrightarrow> fs_at (w_fs w) (rt_dd r) (rt_dn r) = None \<longrightarrow>
           fs_at (w_fs w') (rt_dd r) (rt_dn r) = Some ob \<and> fs_at (w_fs w') (rt_sd r) (rt_sn r) = None)) \<and>
     (w_fs w' \<noteq> w_fs w \<longrightarrow> durable_state w' k \<in> {Some Renaming, Some Transferring, Some Done}) \<and>
     (\<forall>d n. (d, n) \<notin> {(rt_sd r, rt_sn r), (rt_dd r, rt_stg r), (rt_dd r, rt_dn r)} \<longrightarrow>
        fs_at (w_fs w') d n = fs_at (w_fs w) d n)"

lemma commit_accounted:
  assumes ex: "execute_commit k req st (Some (rt_sd r)) (Some (rt_dd r)) tick err c w = ((out, e'), w')"
    and q: "quiet w" and k: "nul_free k" and f: "follows k req r (w_fs w)"
    and at: "fs_at (w_fs w) (rt_sd r) (rt_sn r) = Some ob" and s: "durable_state w k \<in> {Some Renaming, Some Transferring}"
  shows "accounted r ob out k w w' \<and> out \<noteq> Rejected"
proof -
  have names: "rt_sn r = mr_source_name req" "rt_stg r = staging_name k" "rt_dn r = mr_dest_name req"
    and df: "(rt_sd r, rt_sn r) \<noteq> (rt_dd r, rt_stg r)" "(rt_sd r, rt_sn r) \<noteq> (rt_dd r, rt_dn r)" "rt_stg r \<noteq> rt_dn r"
    using f unfolding follows_def by blast+
  obtain mr w1 where m: "move_within (Some (rt_sd r)) (rt_sn r) (Some (rt_dd r)) (rt_stg r) st w = (mr, w1)" by fastforce
  from m q show ?thesis
  proof (cases rule: move_within_cases)
    case (refused e)
    with ex m names have "out = AbortedBeforeCommit" "w' = w1" by (auto simp: execute_commit_def)
    with refused at show ?thesis by (auto simp: accounted_def tickedD)
  next
    case (half e sd td x)
    with ex m names have "out = AbortedBeforeCommit" "w' = w1" by (auto simp: execute_commit_def)
    with half at df s show ?thesis by (auto simp: accounted_def durable_state_fs)
  next
    case (moved sd td x)
    with at have mv: "fs_moved (rt_sd r) (rt_sn r) (rt_dd r) (rt_stg r) ob (w_fs w) (w_fs w1)"
      by (auto simp: fs_moved_def)
    note at1 = mv [unfolded fs_moved_def, THEN conjunct2, rule_format]
    have fin: "finish_after_commit k req (Some (rt_dd r)) (rt_stg r) (next_tick tick) err c w1 = ((out, e'), w')"
      using ex m names moved(1) by (simp add: execute_commit_def)
    have q1: "quiet w1" using env_step_quiet [OF env_step_fs [OF moved(6)] q] .
    have s1: "durable_state w1 k = durable_state w k" using moved(6) by (simp add: durable_state_fs)
    from fin q1 k show ?thesis
    proof (cases rule: finish_cases)
      case finished
      with s s1 show ?thesis by auto
    next
      case stopped
      with at1 df s s1 show ?thesis by (auto simp: accounted_def db_step_def advanced_def)
    next
      case (published d y)
      then have "fs_moved (rt_dd r) (rt_stg r) (rt_dd r) (rt_dn r) ob (w_fs w1) (w_fs w')"
        using at1 df names by (auto simp: fs_moved_def)
      note at2 = this [unfolded fs_moved_def, THEN conjunct2, rule_format]
      from published(6) have "out \<in> {HaltedAfterCommit, MoveCompleted}" and
        "out = MoveCompleted \<longrightarrow> durable_state w' k = Some Done"
        "durable_state w' k \<in> {Some Renaming, Some Transferring, Some Done}"
        using s s1 by (auto simp: concluded_def moved_state_def)
      with at1 at2 df show ?thesis by (auto simp: accounted_def)
    next
      case (present d y)
      from present(4) have "out \<in> {HaltedAfterCommit, MoveCompleted}" and
        "out = MoveCompleted \<longrightarrow> durable_state w' k = Some Done"
        "durable_state w' k \<in> {Some Renaming, Some Transferring, Some Done}"
        using s s1 by (auto simp: concluded_def moved_state_def)
      moreover have "fs_at (w_fs w) (rt_dd r) (rt_dn r) \<noteq> None"
        using present(1,2) at1 df names by (auto split: if_splits)
      ultimately show ?thesis using at1 df present(3) by (auto simp: accounted_def db_step_def)
    qed
  qed
qed

lemma accounted_prefix:
  assumes "accounted r ob out k w1 w'" and "w_fs w1 = w_fs w" and "out \<noteq> Rejected"
    and "durable_state w1 k \<noteq> Some Done"
  shows "accounted r ob out k w w'"
  using assms by (auto simp: accounted_def)

lemma execute_accounted:
  assumes ex: "execute k req st c w = ((out, e'), w')"
    and q: "quiet w" and k: "nul_free k" and f: "follows k req r (w_fs w)"
    and at: "fs_at (w_fs w) (rt_sd r) (rt_sn r) = Some ob"
  shows "accounted r ob out k w w'"
  using ex q k
proof (cases rule: execute_cases)
  case rejected
  then show ?thesis by (auto simp: accounted_def tickedD)
next
  case (started j sd dd x err w1)
  have dirs: "sd = rt_sd r" "dd = rt_dd r" using f started(4,5) by (simp_all add: follows_def)
  have t1: "durable_state w1 k = Some (job_state j)" "env_step w w1" "w_fs w1 = w_fs w" "w_db w1 = w_db w"
    "durable_state w k = durable_state w1 k"
    using started(2,3) by (auto simp: durable_state_ticked tickedD intro: step_intros)
  from started(1) k t1(1) show ?thesis
  proof (cases rule: execute_record_cases)
    case over
    with t1 show ?thesis by (auto simp: accounted_def)
  next
    case rejected
    with t1 show ?thesis by (auto simp: accounted_def)
  next
    case aborted
    with t1 at show ?thesis by (auto simp: accounted_def tickedD)
  next
    case (commit tick w2 s)
    have e2: "env_step w w2" and f2: "w_fs w2 = w_fs w" using t1 commit(2) by (auto simp: db_step_def intro: env_step_trans)
    have s2: "durable_state w2 k \<in> {Some Renaming, Some Transferring}" using commit(3,4) by auto
    have "accounted r ob out k w2 w' \<and> out \<noteq> Rejected"
      by (rule commit_accounted [OF commit(1) [unfolded dirs] env_step_quiet [OF e2 q] k follows_step [OF e2 f] _ s2])
         (simp add: f2 at)
    with f2 s2 show ?thesis by (auto intro: accounted_prefix)
  qed
qed

section \<open>Killed attempts\<close>

text \<open>One attempt at the move: a process starts, with its own connection and its own fates for
  every call, and runs \<open>execute\<close> or \<open>recover\<close>. A process killed at any point is the schedule in
  which every call from there on fails.\<close>

definition with_faults :: "(nat \<Rightarrow> nat option) \<Rightarrow> (nat \<Rightarrow> string option) \<Rightarrow> world \<Rightarrow> world" where
  "with_faults f g w = w\<lparr>w_fault := f, w_dbfault := g\<rparr>"

inductive attempt :: "string \<Rightarrow> MoveRequest \<Rightarrow> world \<Rightarrow> world \<Rightarrow> bool" for k req where
  executed: "honest (with_faults f g w) \<Longrightarrow>
     execute k req RenameNoReplace c (with_faults f g w) = (res, w') \<Longrightarrow> attempt k req w w'"
| recovered: "honest (with_faults f g w) \<Longrightarrow> fail_stop (with_faults f g w) \<Longrightarrow>
     recover k req RenameNoReplace c (with_faults f g w) = (res, w') \<Longrightarrow> attempt k req w w'"

definition attempt_inv :: "string \<Rightarrow> MoveRequest \<Rightarrow> route \<Rightarrow> objid \<Rightarrow> world \<Rightarrow> bool" where
  "attempt_inv k req r ob w \<longleftrightarrow> quiet w \<and> db_wf (w_db w) \<and> movable k req r ob w \<and> move_inv r ob k w"

lemma with_faults_simps [simp]:
  "w_fs (with_faults f g w) = w_fs w" "w_db (with_faults f g w) = w_db w"
  "quiet (with_faults f g w) \<longleftrightarrow> quiet w" "durable_state (with_faults f g w) k = durable_state w k"
  "movable k req r ob (with_faults f g w) \<longleftrightarrow> movable k req r ob w"
  by (simp_all add: with_faults_def quiet_def durable_state_def abs_job_def db_find_def movable_def)

lemma attempt_keeps:
  assumes inv: "attempt_inv k req r ob w" and "attempt k req w w'"
  shows "attempt_inv k req r ob w'"
proof -
  have I: "quiet w" "db_wf (w_db w)" "movable k req r ob w" and mk: "nul_free k" "follows k req r (w_fs w)"
    "is_plain_name (mr_dest_name req)"
    using inv by (simp_all add: attempt_inv_def movable_def)
  obtain p s where P: "placed r ob p (w_fs w)" "durable_state w k = Some s" "phase_ok p s"
    using inv by (auto simp: attempt_inv_def move_inv_def)
  have keep: "attempt_inv k req r ob w'"
    if "placed r ob p' (w_fs w')" "durable_state w' k = Some s'" "phase_ok p' s'" "env_step (with_faults f g w) w'"
    for p' s' f g
  proof -
    have "quiet w'" "db_wf (w_db w')" "movable k req r ob w'"
      using env_step_quiet [OF that(4)] movable_step [OF that(4), of k req r ob] that(4) I
      by (simp_all add: env_step_def)
    with that show ?thesis by (auto simp: attempt_inv_def move_inv_def)
  qed
  from assms(2) show ?thesis
  proof cases
    case (executed f g c res)
    obtain out e where ex: "execute k req RenameNoReplace c (with_faults f g w) = ((out, e), w')"
      using executed(2) by (cases res) simp
    show ?thesis
      by (rule execute_tracks [OF ex, of r ob p s]) (use I mk P keep in simp_all)
  next
    case (recovered f g c res)
    obtain out e where rc: "recover k req RenameNoReplace c (with_faults f g w) = ((out, e), w')"
      using recovered(3) by (cases res) simp
    show ?thesis
      by (rule recover_tracks [OF rc, of r ob p s]) (use I mk P keep recovered in simp_all)
  qed
qed

interpretation attempts: step_system "attempt k req" "attempt_inv k req r ob" for k req r ob
  by unfold_locales (rule attempt_keeps)

lemma final_recovery:
  assumes inv: "attempt_inv k req r ob w" and "c_open c" "\<not> c_query_only c"
    and rc: "recover k req RenameNoReplace c (with_faults (\<lambda>_. None) (\<lambda>_. None) w) = ((out, e), w')"
  shows "out = MoveCompleted \<and> placed r ob AtFinal (w_fs w') \<and> durable_state w' k = Some Done"
proof -
  let ?w = "with_faults (\<lambda>_. None) (\<lambda>_. None) w"
  have I: "quiet w" "db_wf (w_db w)" "movable k req r ob w" and mk: "nul_free k" "follows k req r (w_fs w)"
    "is_plain_name (mr_dest_name req)"
    using inv by (simp_all add: attempt_inv_def movable_def)
  obtain p s where P: "placed r ob p (w_fs w)" "durable_state w k = Some s" "phase_ok p s"
    using inv by (auto simp: attempt_inv_def move_inv_def)
  have nf: "fault_free ?w" "honest ?w" "fail_stop ?w"
    by (simp_all add: with_faults_def fault_free_def honest_def fail_stop_def)
  have h: "healthy_store c ?w" using assms(2,3) I nf by (simp add: healthy_store_def)
  have "out = MoveCompleted"
    using recover_completes [OF h, of k req r ob s p RenameNoReplace] rc I P by simp
  moreover obtain p' s' where "placed r ob p' (w_fs w')" "durable_state w' k = Some s'"
    "out = MoveCompleted \<longrightarrow> p' = AtFinal \<and> s' = Done"
    by (rule recover_tracks [OF rc, of r ob p s]) (use I mk P nf in simp_all)
  ultimately show ?thesis by simp
qed

section \<open>Properties\<close>

text \<open>A concrete move: job j1 takes the regular file /in/a to /out/b.\<close>

definition mv_world :: world where
  "mv_world = demo_world\<lparr>w_fs := ex_fs\<rparr>"

definition mv_request :: MoveRequest where
  "mv_request = \<lparr>mr_source_dir = ''/in'', mr_source_name = ''a'', mr_dest_dir = ''/out'', mr_dest_name = ''b''\<rparr>"

definition mv_route :: route where
  "mv_route = \<lparr>rt_sd = (3, 10), rt_sn = ''a'', rt_dd = (3, 20), rt_stg = ''.swit-partial-j1'', rt_dn = ''b''\<rparr>"

lemma mv_request_simps [simp]:
  "mr_source_dir mv_request = ''/in''" "mr_source_name mv_request = ''a''"
  "mr_dest_dir mv_request = ''/out''" "mr_dest_name mv_request = ''b''"
  by (simp_all add: mv_request_def)

lemma mv_route_simps [simp]:
  "rt_sd mv_route = (3, 10)" "rt_sn mv_route = ''a''" "rt_dd mv_route = (3, 20)"
  "rt_stg mv_route = ''.swit-partial-j1''" "rt_dn mv_route = ''b''"
  by (simp_all add: mv_route_def)

lemma mv_world_simps [simp]:
  "w_fs mv_world = ex_fs" "w_db mv_world = w_db demo_world" "w_dbfile mv_world" "quiet mv_world" "honest mv_world"
  "fault_free mv_world"
  by (simp_all add: mv_world_def demo_world_def quiet_def honest_def fault_free_def)

lemma mv_durable: "durable_state mv_world ''j1'' = Some Queued"
  using demo_world_facts(5) abs_job_db [of mv_world demo_world "''j1''"]
  by (simp add: durable_state_def demo_job_def new_Job_def)

lemma mv_roots: "fs_roots ex_fs ''/in'' = Some (3, 10)" "fs_roots ex_fs ''/out'' = Some (3, 20)"
  by (simp_all add: ex_fs_def)

lemma mv_paths: "nul_free ''j1''" "nul_free ''/in''" "nul_free ''/out''" "is_plain_name ''.swit-partial-j1''"
  "validate_external_path ''/in'' = Inr ()" "validate_external_path ''/out'' = Inr ()"
  by code_simp+

lemma mv_follows: "follows ''j1'' mv_request mv_route ex_fs"
  using mv_paths by (simp add: follows_def mv_roots staging_name_def)

lemma mv_movable: "movable ''j1'' mv_request mv_route (3, 11) mv_world"
  using mv_follows mv_paths by (simp add: movable_def staging_name_def)

lemma mv_healthy: "healthy_store open_conn mv_world"
  using demo_world_facts(1) by (simp add: healthy_store_def open_conn_def closed_conn_def)

lemma mv_placed: "placed mv_route (3, 11) AtSource ex_fs"
  by (simp add: placed_def)

text \<open>C1. No move loses its object, and nothing moves without a durable record (L1-SEC-001,
  L2-JOB-013, L2-JOB-014). No other process changes the file system during the move; whatever
  calls fail and whichever strategy is used:
  Rejected means that neither the disk nor the store changed; AbortedBeforeCommit that the
  object still has its source name; HaltedAfterCommit and FailedExternal that it has the
  staging or the final name (FailedExternal is documented as an absence, but a failed probe
  counts as one); Completed that the job is durably DONE and, if it was not DONE
  before and the destination name was free, that the object has exactly the destination name.
  If the disk changed, the job is durably at least RENAMING. No other name is touched.\<close>

theorem execute_never_loses:
  assumes "execute k req st c w = ((out, e), w')" and "quiet w" and "nul_free k"
    and "follows k req r (w_fs w)" and "fs_at (w_fs w) (rt_sd r) (rt_sn r) = Some ob"
  shows "(out = Rejected \<longrightarrow> w_fs w' = w_fs w \<and> w_db w' = w_db w) \<and>
    (out = AbortedBeforeCommit \<longrightarrow> fs_at (w_fs w') (rt_sd r) (rt_sn r) = Some ob) \<and>
    (out = HaltedAfterCommit \<or> out = FailedExternal \<longrightarrow>
        fs_at (w_fs w') (rt_dd r) (rt_stg r) = Some ob \<or> fs_at (w_fs w') (rt_dd r) (rt_dn r) = Some ob) \<and>
    (out = MoveCompleted \<longrightarrow> durable_state w' k = Some Done \<and>
        (durable_state w k \<noteq> Some Done \<longrightarrow> fs_at (w_fs w) (rt_dd r) (rt_dn r) = None \<longrightarrow>
           fs_at (w_fs w') (rt_dd r) (rt_dn r) = Some ob \<and> fs_at (w_fs w') (rt_sd r) (rt_sn r) = None)) \<and>
    (w_fs w' \<noteq> w_fs w \<longrightarrow> durable_state w' k \<in> {Some Renaming, Some Transferring, Some Done}) \<and>
    (\<forall>d n. (d, n) \<notin> {(rt_sd r, rt_sn r), (rt_dd r, rt_stg r), (rt_dd r, rt_dn r)} \<longrightarrow>
        fs_at (w_fs w') d n = fs_at (w_fs w) d n)"
  using execute_accounted [OF assms] by (simp add: accounted_def)

theorem execute_never_loses_witness:
  "\<exists>e w'. execute ''j1'' mv_request LinkThenUnlink open_conn mv_world = ((MoveCompleted, e), w') \<and>
     durable_state w' ''j1'' = Some Done \<and> fs_at (w_fs w') (3, 20) ''b'' = Some (3, 11) \<and>
     fs_at (w_fs w') (3, 10) ''a'' = None \<and> fs_at (w_fs w') (3, 10) ''l'' = Some (3, 12)"
proof -
  obtain out e w' where p: "execute ''j1'' mv_request LinkThenUnlink open_conn mv_world = ((out, e), w')"
    by (metis prod.collapse)
  have f: "follows ''j1'' mv_request mv_route (w_fs mv_world)"
    and at: "fs_at (w_fs mv_world) (rt_sd mv_route) (rt_sn mv_route) = Some (3, 11)"
    by (simp_all add: mv_follows)
  have "fst (fst (execute ''j1'' mv_request LinkThenUnlink open_conn mv_world)) = MoveCompleted"
    using mv_placed by (intro execute_completes [OF mv_healthy mv_movable mv_durable]) simp_all
  with p have o: "out = MoveCompleted" by simp
  have "fs_at ex_fs (3, 10) ''l'' = Some (3, 12)" "fs_at ex_fs (3, 20) ''b'' = None"
    by (simp_all add: ex_fs_def fs_at_def)
  with execute_never_loses [OF p _ _ f at] mv_paths(1) mv_durable o p show ?thesis by simp
qed

text \<open>A failed stat is taken for an absence also in \<open>execute\<close>: a single ESTALE while the staging name
  is probed makes it answer FailedExternal, which the code documents as neither source nor
  destination present, while the object has the staging name.\<close>

theorem execute_stat_error_reports_removal:
  "(case execute ''j1'' mv_request RenameNoReplace open_conn
       (mv_world\<lparr>w_fault := (\<lambda>n. if n = 19 then Some ESTALE else None)\<rparr>) of
     ((out, e), w') \<Rightarrow> out = FailedExternal \<and>
       fs_at (w_fs w') (3, 20) ''.swit-partial-j1'' = Some (3, 11) \<and> durable_state w' ''j1'' = Some Transferring)"
  by code_simp

text \<open>C2. Crash safety (L1-SEC-002, L1-SYS-015). Start from a queued job whose source is in
  place and whose destination name is free, with the no-replace rename. Let any number of
  processes attempt the move one after the other, by \<open>execute\<close> or by the engine's \<open>recover\<close> (which
  the daemon itself never calls), with no other process changing the file system and each with
  its own failing calls
  (recovery under schedules where a failed system call is not followed by a successful
  store write, as when the process is killed). At every point the object has exactly
  one of its three names and the durable state is at most one step behind. A recovery
  that then runs without failures completes the move: the object has its final name and no
  other, and the job is durably DONE.\<close>

theorem crash_recovery:
  assumes "(attempt k req)\<^sup>*\<^sup>* w w'" and "quiet w" "db_wf (w_db w)" "movable k req r ob w"
    and "placed r ob AtSource (w_fs w)" "durable_state w k = Some Queued"
    and "c_open c" "\<not> c_query_only c"
    and "recover k req RenameNoReplace c (with_faults (\<lambda>_. None) (\<lambda>_. None) w') = ((out, e), w'')"
  shows "move_inv r ob k w' \<and> out = MoveCompleted \<and>
    placed r ob AtFinal (w_fs w'') \<and> durable_state w'' k = Some Done"
proof -
  have "attempt_inv k req r ob w"
    using assms(2-6) by (auto simp: attempt_inv_def move_inv_def intro: exI [of _ AtSource])
  with assms(1) have inv: "attempt_inv k req r ob w'" by (rule attempts.inv_reach)
  with final_recovery [OF inv assms(7-9)] show ?thesis by (simp add: attempt_inv_def)
qed

theorem crash_recovery_witness:
  "\<exists>w'. attempt ''j1'' mv_request mv_world w' \<and>
     fst (fst (recover ''j1'' mv_request RenameNoReplace open_conn
       (with_faults (\<lambda>_. None) (\<lambda>_. None) w'))) = MoveCompleted"
proof -
  let ?f = "\<lambda>n. if n < 14 then None else Some ESTALE" and ?g = "\<lambda>n. if n < 14 then None else Some ''killed''"
  let ?w' = "snd (execute ''j1'' mv_request RenameNoReplace open_conn (with_faults ?f ?g mv_world))"
  obtain out e w'' where rc: "recover ''j1'' mv_request RenameNoReplace open_conn
      (with_faults (\<lambda>_. None) (\<lambda>_. None) ?w') = ((out, e), w'')" by (metis prod.collapse)
  have a: "attempt ''j1'' mv_request mv_world ?w'"
    by (rule attempt.executed [of ?f ?g _ _ _ open_conn "fst (execute ''j1'' mv_request RenameNoReplace open_conn (with_faults ?f ?g mv_world))"])
       (simp_all add: honest_def with_faults_def errno_defs)
  then have "(attempt ''j1'' mv_request)\<^sup>*\<^sup>* mv_world ?w'" by blast
  from crash_recovery [OF this _ _ mv_movable _ mv_durable _ _ rc] rc a demo_world_facts(1) mv_placed
  show ?thesis by (auto simp: open_conn_def closed_conn_def)
qed

text \<open>C32. The interrupted link/unlink move is not finished by recovery: when a crash between
  \<open>linkat\<close> and \<open>unlinkat\<close> left both names on one object, \<open>recover\<close> answers HaltedAfterCommit (or
  Rejected when a call fails) and leaves the disk as it is, with any strategy and any
  schedule of failing calls, since its \<open>linkat\<close> meets the name the crashed run made.\<close>

theorem recover_interrupted_stuck:
  assumes "recover k req st c w = ((out, e), w')" and "quiet w" and "honest w"
    and "follows k req r (w_fs w)"
    and "fs_at (w_fs w) (rt_sd r) (rt_sn r) = Some ob" and "fs_at (w_fs w) (rt_dd r) (rt_stg r) = Some ob"
  shows "(out = HaltedAfterCommit \<or> out = Rejected) \<and> w_fs w' = w_fs w"
  using assms(1-4)
proof (cases rule: recover_cases)
  case rejected
  then show ?thesis by (simp add: tickedD)
next
  case (acted ms tick w1)
  have ms: "ms = Interrupted" using acted(3) assms(5,6) by simp
  obtain mr w2 where mv: "move_within (Some (rt_sd r)) (rt_sn r) (Some (rt_dd r)) (rt_stg r) LinkThenUnlink w1 = (mr, w2)"
    by fastforce
  have q1: "quiet w1" and at: "fs_at (w_fs w1) (rt_dd r) (rt_stg r) = Some ob"
    using acted(2) assms(2,6) by (auto simp: tickedD intro: ticked_quiet)
  from mv q1 show ?thesis
  proof (cases rule: move_within_cases)
    case (refused m)
    have "out = HaltedAfterCommit" "w' = snd (mark_needs_attention k m c w2)"
      using acted(1) ms mv refused(1) assms(4) by (auto simp: recover_act_def follows_def Let_def)
    with refused(3) acted(2) attention_durable_snd(1) [of w2 k m c] show ?thesis
      by (simp add: db_step_def tickedD)
  qed (use at in simp_all)
qed

theorem recover_interrupted_stuck_witness:
  "fst (fst (recover ''j1'' mv_request LinkThenUnlink open_conn
      (mv_world\<lparr>w_fs := fs_set (3, 20) ''.swit-partial-j1'' (3, 11) ex_fs\<rparr>))) \<noteq> MoveCompleted"
proof -
  let ?w = "mv_world\<lparr>w_fs := fs_set (3, 20) ''.swit-partial-j1'' (3, 11) ex_fs\<rparr>"
  obtain out e w' where p: "recover ''j1'' mv_request LinkThenUnlink open_conn ?w = ((out, e), w')"
    by (metis prod.collapse)
  have "quiet ?w" "honest ?w" by (simp_all add: mv_world_def demo_world_def quiet_def honest_def)
  moreover have "follows ''j1'' mv_request mv_route (w_fs ?w)"
    using mv_follows by (simp add: follows_def staging_name_def)
  ultimately have "out = HaltedAfterCommit \<or> out = Rejected"
    using recover_interrupted_stuck [OF p, of mv_route "(3, 11)"] by simp
  with p show ?thesis by auto
qed

text \<open>A delivered move whose last record is missing: the object has its final name, the job is
  TRANSFERRING, and the only failing call is one \<open>fstatat\<close>.\<close>

definition delivered_world :: "nat \<Rightarrow> world" where
  "delivered_world n = mv_world\<lparr>w_fs := fs_set (3, 20) ''b'' (3, 11) (fs_del (3, 10) ''a'' ex_fs),
     w_db := (w_db demo_world)\<lparr>db_jobs := [(row_of_job demo_job [])\<lparr>r_state := ''TRANSFERRING''\<rparr>]\<rparr>,
     w_fault := (\<lambda>m. if m = n then Some ESTALE else None)\<rparr>"

text \<open>One transient failure during recovery ends a delivered job as FAILED: with the
  object at its final name and the job TRANSFERRING, a single ESTALE on the last probe is
  taken for absence; \<open>recover\<close> answers FailedExternal and records FAILED, which is terminal,
  while the object is still in place. Without that failure the same recovery completes.\<close>

theorem recover_stat_error_fails_delivered_job:
  "fst (fst (recover ''j1'' mv_request RenameNoReplace open_conn (delivered_world 6))) = FailedExternal \<and>
   durable_state (snd (recover ''j1'' mv_request RenameNoReplace open_conn (delivered_world 6))) ''j1'' = Some Failed \<and>
   fs_at (w_fs (snd (recover ''j1'' mv_request RenameNoReplace open_conn (delivered_world 6)))) (3, 20) ''b'' = Some (3, 11) \<and>
   fst (fst (recover ''j1'' mv_request RenameNoReplace open_conn (delivered_world 100))) = MoveCompleted"
  by code_simp

end
