(* ===== verification/Manager_Laws.thy ===== *)
theory Manager_Laws
  imports Engine_Frame Mover_Laws
begin

text \<open>
  Laws of the job manager: what a worker's round does to the durable record, the backoff, the
  search for a retry id, and the interleavings of commands and workers as a step relation
  with its invariants.
\<close>

declare split_paired_All [simp del] split_paired_Ex [simp del]

section \<open>The durable record under file operations and moves\<close>

lemma store_safe_same: "w_db w' = w_db w \<Longrightarrow> w_dbfile w' = w_dbfile w \<Longrightarrow> store_safe w w'"
  by (auto simp: store_safe_def intro: records_kept_jobs)

lemma store_safe_refl [simp]: "store_safe w w"
  by (simp add: store_safe_same)

lemma store_safe_trans: "store_safe u v \<Longrightarrow> store_safe v w \<Longrightarrow> store_safe u w"
  by (auto simp: store_safe_def intro: records_kept_trans)

lemma kcall_same [frame]: "kcall w = (r, w') \<Longrightarrow> w_db w' = w_db w \<and> w_dbfile w' = w_dbfile w"
  by (auto simp: kcall_def)

lemma sys_same [frame]:
  "sys_open_dir p w = (r1, w') \<Longrightarrow> w_db w' = w_db w \<and> w_dbfile w' = w_dbfile w"
  "sys_fstatat d n w = (r2, w') \<Longrightarrow> w_db w' = w_db w \<and> w_dbfile w' = w_dbfile w"
  "sys_openat d n w = (r3, w') \<Longrightarrow> w_db w' = w_db w \<and> w_dbfile w' = w_dbfile w"
  "sys_fstat ob w = (r4, w') \<Longrightarrow> w_db w' = w_db w \<and> w_dbfile w' = w_dbfile w"
  "sys_fsync w = (r5, w') \<Longrightarrow> w_db w' = w_db w \<and> w_dbfile w' = w_dbfile w"
  "sys_renameat2 od n nd nn w = (r6, w') \<Longrightarrow> w_db w' = w_db w \<and> w_dbfile w' = w_dbfile w"
  "sys_linkat od n nd nn w = (r7, w') \<Longrightarrow> w_db w' = w_db w \<and> w_dbfile w' = w_dbfile w"
  "sys_unlinkat d n w = (r8, w') \<Longrightarrow> w_db w' = w_db w \<and> w_dbfile w' = w_dbfile w"
  "sys_renameat od n nd nn w = (r9, w') \<Longrightarrow> w_db w' = w_db w \<and> w_dbfile w' = w_dbfile w"
  by (auto simp: sys_open_dir_def sys_fstatat_def sys_openat_def sys_fstat_def sys_fsync_def
      sys_renameat2_def sys_linkat_def sys_unlinkat_def sys_renameat_def Let_def
      split: prod.splits option.splits if_splits dest!: kcall_same)

lemma fsops_safe:
  "open_root p w = (r1, w') \<Longrightarrow> store_safe w w'"
  "classify d n w = (r2, w') \<Longrightarrow> store_safe w w'"
  "open_regular d n fi w = (r3, w') \<Longrightarrow> store_safe w w'"
  "move_within sd sn dd dn st w = (r4, w') \<Longrightarrow> store_safe w w'"
  "publish d n nn w = (r5, w') \<Longrightarrow> store_safe w w'"
  by (intro store_safe_same; auto simp: open_root_def classify_def open_regular_def move_within_def publish_def Let_def
      split: prod.splits option.splits sum.splits if_splits MoveStrategy.splits dest!: sys_same)+

lemma load_retry_state_ticked: "load_retry_state k c w = (r, w') \<Longrightarrow> ticked w w'"
  by (auto simp: load_retry_state_def dest!: sql_call_ticked split: prod.splits option.splits if_splits
      elim!: tickedE)

interpretation durable: world_frame store_safe
  by (intro world_frame.intro engine_frame.intro)
    (auto intro: store_safe_trans fsops_safe store_safe_ticked load_ticked load_retry_state_ticked update_state_safe
      record_attempt_safe mark_needs_attention_safe record_intent_safe next_sequence_safe store_open_safe_step)

section \<open>Interleavings\<close>

text \<open>What a thread that released the mutex has still to do.\<close>

datatype task =
  Recording string MoveRequest int string
| Publishing string MoveRequest bool
| Cancelling string bool
| CancelEnding string bool CommandResult
| Checking string MoveRequest int
| Probing string MoveRequest int nat
| Reserving string MoveRequest int nat
| Working string MoveRequest MoveStrategy int conn
| Settling string "int option"

record system =
  sy_mgr :: manager
  sy_world :: world
  sy_tasks :: "task list"

text \<open>The ids a task has claimed, runs, or took out of the queue to cancel.\<close>

fun claim_of :: "task \<Rightarrow> string list" where
  "claim_of (Recording k _ _ _) = [k]"
| "claim_of (Publishing k _ _) = [k]"
| "claim_of _ = []"

fun work_of :: "task \<Rightarrow> string list" where
  "work_of (Working k _ _ _ _) = [k]"
| "work_of (Settling k _) = [k]"
| "work_of _ = []"

fun cancel_of :: "task \<Rightarrow> string list" where
  "cancel_of (Cancelling k was_runnable) = (if was_runnable then [k] else [])"
| "cancel_of (CancelEnding k was_runnable _) = (if was_runnable then [k] else [])"
| "cancel_of _ = []"

abbreviation of_tasks :: "(task \<Rightarrow> string list) \<Rightarrow> system \<Rightarrow> string list" where
  "of_tasks f x \<equiv> concat (map f (sy_tasks x))"

text \<open>One critical section or one unlocked section of some thread. The unlocked sections of a
  command hold the store mutex; \<open>shutdown\<close> closes the store once the workers are joined.\<close>

inductive mgr_step :: "system \<Rightarrow> system \<Rightarrow> bool" where
  starts: "start pa (sy_mgr x) (sy_world x) = (res, m, w) \<Longrightarrow> mgr_step x (x\<lparr>sy_mgr := m, sy_world := w\<rparr>)"
| stops: "mgr_step x (x\<lparr>sy_mgr := shutdown_begin (sy_mgr x)\<rparr>)"
| closes: "of_tasks work_of x = [] \<Longrightarrow> mgr_step x (x\<lparr>sy_mgr := shutdown_finish (sy_mgr x)\<rparr>)"
| configures: "mgr_step x (x\<lparr>sy_mgr := set_strategy s (sy_mgr x)\<rparr>)"
| allocates: "next_sequence (m_conn (sy_mgr x)) (sy_world x) = (n, w) \<Longrightarrow> mgr_step x (x\<lparr>sy_world := w\<rparr>)"
| claims: "submit_claim k (sy_mgr x) = Inr m \<Longrightarrow>
    mgr_step x (x\<lparr>sy_mgr := m, sy_tasks := Recording k req now [] # sy_tasks x\<rparr>)"
| records: "sy_tasks x = l @ Recording k req now old # r \<Longrightarrow>
    record_intent (submit_job k req now) old (m_conn (sy_mgr x)) (sy_world x) = (res, w) \<Longrightarrow>
    mgr_step x (x\<lparr>sy_world := w, sy_tasks := l @ Publishing k req (\<exists>u. res = Inr u) # r\<rparr>)"
| publishes: "sy_tasks x = l @ Publishing k req rec # r \<Longrightarrow>
    mgr_step x (x\<lparr>sy_mgr := submit_publish k req rec (sy_mgr x), sy_tasks := l @ r\<rparr>)"
| pauses: "pause k ts (sy_mgr x) = ((Ok, e), evs, m) \<Longrightarrow> mgr_step x (x\<lparr>sy_mgr := m\<rparr>)"
| resumes: "resume k ts (sy_mgr x) = ((Ok, e), evs, m) \<Longrightarrow> mgr_step x (x\<lparr>sy_mgr := m\<rparr>)"
| cancels: "cancel_claim k (sy_mgr x) = Inr (was, m) \<Longrightarrow>
    mgr_step x (x\<lparr>sy_mgr := m, sy_tasks := Cancelling k was # sy_tasks x\<rparr>)"
| cancel_writes: "sy_tasks x = l @ Cancelling k was # r \<Longrightarrow>
    cancel_durable k (m_conn (sy_mgr x)) (sy_world x) = ((out, e), w) \<Longrightarrow>
    mgr_step x (x\<lparr>sy_world := w, sy_tasks := l @ CancelEnding k was out # r\<rparr>)"
| cancel_ends: "sy_tasks x = l @ CancelEnding k was out # r \<Longrightarrow>
    mgr_step x (x\<lparr>sy_mgr := cancel_settle k was out (sy_mgr x), sy_tasks := l @ r\<rparr>)"
| retries: "retry_claim k (sy_mgr x) = Inr req \<Longrightarrow>
    mgr_step x (x\<lparr>sy_tasks := Checking k req now # sy_tasks x\<rparr>)"
| checks: "sy_tasks x = l @ Checking k req now # r \<Longrightarrow>
    retry_check k (m_conn (sy_mgr x)) (sy_world x) = (bad, w) \<Longrightarrow>
    mgr_step x (x\<lparr>sy_world := w, sy_tasks := (if bad = None then l @ Probing k req now 1 # r else l @ r)\<rparr>)"
| probes: "sy_tasks x = l @ Probing k req now n # r \<Longrightarrow>
    load (retry_candidate (strip_retry_suffix k) n) (m_conn (sy_mgr x)) (sy_world x) = (res, w) \<Longrightarrow>
    (\<exists>j. res = Inr (Some j)) \<longrightarrow> int n < INT_MAX \<Longrightarrow>
    mgr_step x (x\<lparr>sy_world := w, sy_tasks := (case res of
      Inl _ \<Rightarrow> l @ r | Inr None \<Rightarrow> l @ Reserving k req now n # r | Inr (Some _) \<Rightarrow> l @ Probing k req now (n + 1) # r)\<rparr>)"
| reserves: "sy_tasks x = l @ Reserving k req now n # r \<Longrightarrow>
    retry_reserve (retry_candidate (strip_retry_suffix k) n) (sy_mgr x) = Some m \<Longrightarrow>
    mgr_step x (x\<lparr>sy_mgr := m,
      sy_tasks := l @ Recording (retry_candidate (strip_retry_suffix k) n) req now k # r\<rparr>)"
| misses: "sy_tasks x = l @ Reserving k req now n # r \<Longrightarrow>
    retry_reserve (retry_candidate (strip_retry_suffix k) n) (sy_mgr x) = None \<Longrightarrow> int n < INT_MAX \<Longrightarrow>
    mgr_step x (x\<lparr>sy_tasks := l @ Probing k req now (n + 1) # r\<rparr>)"
| takes: "m_runnable (sy_mgr x) \<noteq> [] \<Longrightarrow> worker_take (sy_mgr x) = ((k, req, st), m) \<Longrightarrow>
    mgr_step x (x\<lparr>sy_mgr := m, sy_tasks := Working k req st now c # sy_tasks x\<rparr>)"
| works: "sy_tasks x = l @ Working k req st now c # r \<Longrightarrow>
    worker_record (m_config (sy_mgr x)) k req st now c (sy_world x) = ((due, out, e), w) \<Longrightarrow>
    mgr_step x (x\<lparr>sy_world := w, sy_tasks := l @ Settling k due # r\<rparr>)"
| settles: "sy_tasks x = l @ Settling k due # r \<Longrightarrow>
    mgr_step x (x\<lparr>sy_mgr := worker_settle k due (sy_mgr x), sy_tasks := l @ r\<rparr>)"
| pumps: "pump now (sy_mgr x) = (moved, m) \<Longrightarrow> mgr_step x (x\<lparr>sy_mgr := m\<rparr>)"

inductive_cases mgr_stepE: "mgr_step x y"

subsection \<open>Dispatch bookkeeping\<close>

definition known :: "manager \<Rightarrow> string set" where
  "known m = dom (m_requests m)"

lemma known_iff: "m_requests m k = None \<longleftrightarrow> k \<notin> known m"
  by (auto simp: known_def)

lemma known_simps [simp]:
  "known (m\<lparr>m_strategy := st\<rparr>) = known m" "known (m\<lparr>m_runnable := q\<rparr>) = known m"
  "known (m\<lparr>m_waiting := wt\<rparr>) = known m" "known (m\<lparr>m_paused := ps\<rparr>) = known m"
  "known (m\<lparr>m_active := ac\<rparr>) = known m" "known (m\<lparr>m_pending := pd\<rparr>) = known m"
  "known (m\<lparr>m_running := rn\<rparr>) = known m" "known (m\<lparr>m_stopping := sp\<rparr>) = known m"
  "known (m\<lparr>m_conn := cn\<rparr>) = known m"
  "known (m\<lparr>m_requests := f\<rparr>) = dom f" "dom (m_requests m) = known m"
  by (auto simp: known_def)

definition dispatched :: "manager \<Rightarrow> string set" where
  "dispatched m = set (m_runnable m) \<union> smap_keys (m_waiting m) \<union> m_paused m \<union> m_active m"

definition book_inv :: "system \<Rightarrow> bool" where
  "book_inv x \<longleftrightarrow> distinct (of_tasks claim_of x) \<and> set (of_tasks claim_of x) = m_pending (sy_mgr x) \<and>
     m_pending (sy_mgr x) \<inter> known (sy_mgr x) = {} \<and>
     dispatched (sy_mgr x) \<union> set (of_tasks work_of x) \<union> set (of_tasks cancel_of x) \<subseteq> known (sy_mgr x) \<and>
     smap_ok (m_waiting (sy_mgr x))"

lemma pump_fold:
  "fold (\<lambda>jid n. n\<lparr>m_waiting := smap_erase jid (m_waiting n), m_runnable := m_runnable n @ [jid]\<rparr>) ks m =
   m\<lparr>m_waiting := filter (\<lambda>e. fst e \<notin> set ks) (m_waiting m), m_runnable := m_runnable m @ ks\<rparr>"
  by (induction ks arbitrary: m) (simp_all add: smap_erase_def filter_filter)

lemma pump_unfold:
  "pump now m = (if m_running m
     then (length (pump_due now m),
           m\<lparr>m_waiting := filter (\<lambda>e. fst e \<notin> set (pump_due now m)) (m_waiting m),
             m_runnable := m_runnable m @ pump_due now m\<rparr>)
     else (0, m))"
  by (simp add: pump_def Let_def pump_fold)

lemma smap_ok_filter: "smap_ok m \<Longrightarrow> smap_ok (filter P m)"
  unfolding smap_ok_def by (induction m) auto

lemmas section_defs = start_def shutdown_begin_def shutdown_finish_def set_strategy_def submit_claim_def
  submit_publish_def pause_def resume_def take_runnable_def cancel_claim_def cancel_settle_def
  retry_claim_def retry_reserve_def worker_take_def worker_settle_def pump_unfold

lemma book_inv_step:
  assumes "mgr_step x y" and "book_inv x"
  shows "book_inv y"
  using assms
proof cases
  case (pumps now moved m)
  let ?W = "filter (\<lambda>e. fst e \<notin> set (pump_due now (sy_mgr x))) (m_waiting (sy_mgr x))"
  have sub: "smap_keys ?W \<subseteq> smap_keys (m_waiting (sy_mgr x))"
    "set (pump_due now (sy_mgr x)) \<subseteq> smap_keys (m_waiting (sy_mgr x))" by (auto simp: pump_due_def)
  have "smap_keys (m_waiting (sy_mgr x)) \<subseteq> known (sy_mgr x)"
    using assms(2) by (simp add: book_inv_def dispatched_def)
  from subset_trans [OF sub(1) this] subset_trans [OF sub(2) this] pumps assms(2) show ?thesis
    by (clarsimp simp: book_inv_def dispatched_def pump_unfold smap_ok_filter split: if_splits simp del: set_filter)
next
  case (takes k req st m now c)
  with assms(2) show ?thesis
    by (cases "m_runnable (sy_mgr x)") (clarsimp simp: book_inv_def dispatched_def worker_take_def Let_def insert_absorb)+
next
  case (claims k m req now)
  with assms(2) show ?thesis
    by (clarsimp simp: book_inv_def known_iff dispatched_def submit_claim_def split: if_splits)
next
  case (reserves l k req now n r m)
  with assms(2) show ?thesis
    by (clarsimp simp: book_inv_def known_iff dispatched_def retry_reserve_def split: if_splits) blast
qed (use assms(2) in \<open>auto simp: book_inv_def known_iff dispatched_def section_defs Let_def
      split: if_splits prod.splits sum.splits option.splits dest: notin_set_remove1\<close>)

subsection \<open>The durable record\<close>

context world_frame
begin

lemma R_mgr_step: "mgr_step x y \<Longrightarrow> R (sy_world x) (sy_world y)"
  by (elim mgr_stepE) (auto intro: eng.R_refl R_start R_next_sequence R_record_intent eng.R_cancel_durable eng.R_retry_check
      eng.R_load eng.R_worker_record)

end

lemmas mgr_step_safe = durable.R_mgr_step

text \<open>A job the manager knows has a durable record, and so has one about to be published.\<close>

definition recorded :: "world \<Rightarrow> string \<Rightarrow> bool" where
  "recorded w k \<longleftrightarrow> abs_job w (c_str k) \<noteq> None"

definition rec_inv :: "world \<Rightarrow> system \<Rightarrow> bool" where
  "rec_inv w0 x \<longleftrightarrow> db_wf (w_db (sy_world x)) \<and> w_dbfile (sy_world x) \<and> records_kept w0 (sy_world x) \<and>
     (\<forall>k \<in> known (sy_mgr x). recorded (sy_world x) k) \<and>
     (\<forall>k req. Publishing k req True \<in> set (sy_tasks x) \<longrightarrow> recorded (sy_world x) k)"

lemma recorded_kept: "records_kept w w' \<Longrightarrow> recorded w k \<Longrightarrow> recorded w' k"
  by (auto simp: recorded_def records_kept_def)

lemma record_intent_recorded:
  assumes "record_intent (submit_job k req now) old c w = (Inr u, w')"
  shows "recorded w' k"
  using assms
proof (cases rule: record_intent_cases)
  case stored
  then have "db_find w' (c_str k) = Some (row_of_job (submit_job k req now) old)"
    by (simp add: db_find_def writtenD row_find_append row_of_job_def submit_job_def new_Job_def)
       (simp add: row_find_def)
  then show ?thesis
    by (simp add: recorded_def abs_job_def row_of_job_def submit_job_def new_Job_def JobState_from_string_def)
qed simp

text \<open>Which ids a step makes known, and which publications it prepares.\<close>

lemma mgr_step_known:
  assumes "mgr_step x y" and "book_inv x" and "k \<in> known (sy_mgr y)"
  shows "k \<in> known (sy_mgr x) \<or> (\<exists>req. Publishing k req True \<in> set (sy_tasks x))"
  using assms(1)
proof cases
  case (takes k' req st m now c)
  with assms(2,3) show ?thesis
    by (cases "m_runnable (sy_mgr x)") (auto simp: book_inv_def dispatched_def worker_take_def Let_def)
qed (use assms(3) in \<open>auto simp: section_defs Let_def split: if_splits prod.splits sum.splits option.splits\<close>)

lemma mgr_step_publishing:
  assumes "mgr_step x y" and "Publishing k req True \<in> set (sy_tasks y)"
  shows "Publishing k req True \<in> set (sy_tasks x) \<or> recorded (sy_world y) k"
  using assms(1) by cases
    (use assms(2) in \<open>auto split: sum.splits option.splits if_splits dest: record_intent_recorded\<close>)

lemma rec_inv_step:
  assumes "mgr_step x y" and "book_inv x" and "rec_inv w0 x"
  shows "rec_inv w0 y"
proof -
  have s: "db_wf (w_db (sy_world y))" "w_dbfile (sy_world y)" "records_kept (sy_world x) (sy_world y)"
    using mgr_step_safe [OF assms(1)] assms(3) by (simp_all add: store_safe_def rec_inv_def)
  have kept: "recorded (sy_world x) k \<Longrightarrow> recorded (sy_world y) k" for k by (rule recorded_kept [OF s(3)])
  have old: "k \<in> known (sy_mgr x) \<or> Publishing k req True \<in> set (sy_tasks x) \<Longrightarrow> recorded (sy_world y) k" for k req
    using assms(3) by (intro kept) (auto simp: rec_inv_def)
  have "recorded (sy_world y) k" if "k \<in> known (sy_mgr y)" for k
    using mgr_step_known [OF assms(1,2) that] old by blast
  moreover have "recorded (sy_world y) k" if "Publishing k req True \<in> set (sy_tasks y)" for k req
    using mgr_step_publishing [OF assms(1) that] old by blast
  moreover have "records_kept w0 (sy_world y)"
    using assms(3) s(3) by (auto simp: rec_inv_def intro: records_kept_trans)
  ultimately show ?thesis using s(1,2) by (simp add: rec_inv_def)
qed

definition mgr_inv :: "world \<Rightarrow> system \<Rightarrow> bool" where
  "mgr_inv w0 x \<longleftrightarrow> book_inv x \<and> rec_inv w0 x"

interpretation mgr_sys: step_system mgr_step "mgr_inv w0" for w0
  by unfold_locales (auto simp: mgr_inv_def intro: book_inv_step rec_inv_step)

subsection \<open>One holder per job\<close>

text \<open>
  A job is in the queue, waiting out a backoff, paused, in the hands of a worker, or in the
  hands of a \<open>cancel\<close> that will put it back. A step is orderly when it does not pause a job
  whose cancellation is still being decided.
\<close>

definition waits :: "'v smap \<Rightarrow> string \<Rightarrow> bool" where
  "waits m k \<longleftrightarrow> k \<in> smap_keys m"

lemma waits_simps [simp]:
  "waits (smap_put a v m) k \<longleftrightarrow> k = a \<or> waits m k" "waits (smap_erase a m) k \<longleftrightarrow> k \<noteq> a \<and> waits m k"
  by (auto simp: waits_def smap_erase_def)

definition holders :: "string \<Rightarrow> system \<Rightarrow> nat" where
  "holders k x = count_list (m_runnable (sy_mgr x)) k + of_bool (waits (m_waiting (sy_mgr x)) k) +
     of_bool (k \<in> m_paused (sy_mgr x)) + count_list (of_tasks work_of x) k + count_list (of_tasks cancel_of x) k"

definition orderly :: "system \<Rightarrow> system \<Rightarrow> bool" where
  "orderly x y \<longleftrightarrow> mgr_step x y \<and>
     (m_paused (sy_mgr y) - m_paused (sy_mgr x)) \<inter> set (of_tasks cancel_of x) = {}"

definition excl_inv :: "system \<Rightarrow> bool" where
  "excl_inv x \<longleftrightarrow> book_inv x \<and> (\<forall>k. holders k x \<le> 1) \<and> m_active (sy_mgr x) = set (of_tasks work_of x)"

lemma count_list_distinct: "distinct xs \<Longrightarrow> count_list xs k = of_bool (k \<in> set xs)"
  by (induction xs) auto

lemma count_list_le1_distinct: "(\<And>k. count_list xs k \<le> 1) \<Longrightarrow> distinct xs"
proof (induction xs)
  case (Cons x xs)
  have "count_list xs k \<le> 1" for k using Cons.prems [of k] by (simp split: if_splits)
  moreover have "count_list xs x = 0" using Cons.prems [of x] by simp
  ultimately show ?case using Cons.IH by (simp add: count_list_0_iff)
qed simp

lemma count_list_remove1: "count_list (remove1 a xs) k = count_list xs k - of_bool (k = a)"
  by (induction xs) auto

lemma pump_due_distinct: "smap_ok (m_waiting m) \<Longrightarrow> distinct (pump_due now m)"
proof -
  assume "smap_ok (m_waiting m)"
  then have "distinct (map fst (m_waiting m))" by (simp add: smap_ok_def strict_sorted_iff)
  then show ?thesis unfolding pump_due_def by (rule distinct_map_filter)
qed

lemma holders_unknown: "book_inv x \<Longrightarrow> k \<notin> known (sy_mgr x) \<Longrightarrow> holders k x = 0"
proof -
  assume b: "book_inv x" and k: "k \<notin> known (sy_mgr x)"
  have "dispatched (sy_mgr x) \<union> set (of_tasks work_of x) \<union> set (of_tasks cancel_of x) \<subseteq> known (sy_mgr x)"
    using b by (simp only: book_inv_def)
  with k have "k \<notin> dispatched (sy_mgr x)" "k \<notin> set (of_tasks work_of x)" "k \<notin> set (of_tasks cancel_of x)"
    by blast+
  then show ?thesis by (simp only: holders_def dispatched_def waits_def Un_iff count_list_0_iff [symmetric]) simp
qed

lemma holders_pump:
  assumes "pump now (sy_mgr x) = (n, m)" and "smap_ok (m_waiting (sy_mgr x))"
  shows "holders k (x\<lparr>sy_mgr := m\<rparr>) = holders k x"
proof (cases "m_running (sy_mgr x)")
  case True
  let ?d = "pump_due now (sy_mgr x)" and ?W = "m_waiting (sy_mgr x)"
  have "waits (filter (\<lambda>e. fst e \<notin> set ?d) ?W) k \<longleftrightarrow> waits ?W k \<and> k \<notin> set ?d" by (auto simp: waits_def)
  moreover have "k \<in> set ?d \<Longrightarrow> waits ?W k" by (auto simp: pump_due_def waits_def)
  moreover have "count_list ?d k = of_bool (k \<in> set ?d)"
    by (rule count_list_distinct [OF pump_due_distinct [OF assms(2)]])
  ultimately show ?thesis
    using assms(1) True by (auto simp: holders_def pump_unfold)
next
  case False
  with assms(1) show ?thesis by (auto simp: pump_unfold)
qed

lemma holders_step:
  assumes "orderly x y" and "excl_inv x"
  shows "holders k y \<le> 1"
proof -
  have b: "book_inv x" and h: "holders j x \<le> 1" and a: "m_active (sy_mgr x) = set (of_tasks work_of x)" for j
    using assms(2) by (simp_all add: excl_inv_def)
  have m: "mgr_step x y" and o: "(m_paused (sy_mgr y) - m_paused (sy_mgr x)) \<inter> set (of_tasks cancel_of x) = {}"
    using assms(1) by (simp_all add: orderly_def)
  from m show ?thesis
  proof cases
    case (pumps now moved m)
    with holders_pump [of now x moved m k] b h show ?thesis by (simp add: book_inv_def)
  next
    case (publishes l k' req rec r)
    have "k' \<notin> known (sy_mgr x)" using publishes(2) b by (auto simp: book_inv_def)
    then have "holders k' x = 0" by (rule holders_unknown [OF b])
    with publishes h [of k] show ?thesis by (auto simp: holders_def submit_publish_def Let_def)
  next
    case (pauses k' ts e evs m)
    have "k' \<notin> set (of_tasks work_of x)" using pauses a by (auto simp: pause_def split: if_splits)
    then have w: "count_list (of_tasks work_of x) k' = 0" by (simp only: count_list_0_iff simp_thms)
    have "k' \<in> m_paused (sy_mgr x) \<or> k' \<notin> set (of_tasks cancel_of x)"
      using pauses o by (auto simp: pause_def Let_def take_runnable_def split: if_splits)
    then have c: "k' \<in> m_paused (sy_mgr x) \<or> count_list (of_tasks cancel_of x) k' = 0"
      by (simp only: count_list_0_iff)
    from pauses have y: "sy_tasks y = sy_tasks x" "m_runnable (sy_mgr y) = remove1 k' (m_runnable (sy_mgr x))"
      "m_waiting (sy_mgr y) = smap_erase k' (m_waiting (sy_mgr x))"
      "m_paused (sy_mgr y) = insert k' (m_paused (sy_mgr x))"
      by (auto simp: pause_def Let_def take_runnable_def split: if_splits)
    show ?thesis
      using w c h [of k] by (cases "k = k'") (auto simp: holders_def y count_list_remove1)
  next
    case (takes k' req st m now c)
    with h [of k] show ?thesis
      by (cases "m_runnable (sy_mgr x)") (auto simp: holders_def worker_take_def Let_def)
  next
    case (settles l k' due r)
    with h [of k'] h [of k] show ?thesis
      by (cases "k = k'") (auto simp: holders_def worker_settle_def Let_def split: option.splits if_splits)
  next
    case (cancels k' was m)
    then have y: "sy_tasks y = Cancelling k' was # sy_tasks x" "was \<longleftrightarrow> count_list (m_runnable (sy_mgr x)) k' \<noteq> 0"
      "m_runnable (sy_mgr y) = remove1 k' (m_runnable (sy_mgr x))"
      "m_waiting (sy_mgr y) = smap_erase k' (m_waiting (sy_mgr x))" "m_paused (sy_mgr y) = m_paused (sy_mgr x) - {k'}"
      by (auto simp: cancel_claim_def take_runnable_def count_list_0_iff split: if_splits)
    show ?thesis using h [of k] by (cases "k = k'") (auto simp: holders_def y count_list_remove1)
  qed (use h [of k] in \<open>auto simp: holders_def section_defs Let_def split: if_splits prod.splits sum.splits option.splits\<close>)
qed

lemma active_step:
  assumes "mgr_step x y" and "excl_inv x"
  shows "m_active (sy_mgr y) = set (of_tasks work_of y)"
proof -
  have h: "holders j x \<le> 1" and a: "m_active (sy_mgr x) = set (of_tasks work_of x)" for j
    using assms(2) by (simp_all add: excl_inv_def)
  from assms(1) show ?thesis
  proof cases
    case (settles l k due r)
    have "count_list (of_tasks work_of x) k \<le> 1" using h [of k] by (simp add: holders_def)
    then have "k \<notin> set (concat (map work_of (l @ r)))" by (simp add: settles(2) count_list_0_iff)
    with a settles show ?thesis by (auto simp: worker_settle_def Let_def split: option.splits)
  next
    case (pumps now moved m)
    with a show ?thesis by (auto simp: pump_unfold split: if_splits)
  qed (use a in \<open>auto simp: section_defs Let_def split: if_splits prod.splits sum.splits option.splits\<close>)
qed

interpretation excl_sys: step_system orderly excl_inv
proof
  fix x y assume "excl_inv x" and "orderly x y"
  then show "excl_inv y"
    using holders_step [of x y] active_step [of x y] book_inv_step [of x y]
    by (simp add: excl_inv_def orderly_def)
qed

section \<open>Backoff\<close>

lemma backoff_loop_exact:
  assumes "0 < delay"
  shows "min (backoff_loop i attempts delay max_ms) max_ms = min (delay * 2 ^ (attempts - i)) max_ms"
  using assms
proof (induction i attempts delay max_ms rule: backoff_loop.induct)
  case (1 i attempts delay max_ms)
  show ?case
  proof (cases "i < attempts \<and> delay < max_ms")
    case True
    then have "attempts - i = Suc (attempts - (i + 1))" by (simp add: Suc_diff_Suc)
    with True "1" show ?thesis by (subst backoff_loop.simps) (simp add: mult.assoc)
  next
    case False
    have le: "delay \<le> delay * 2 ^ (attempts - i)" using "1.prems" by simp
    have b: "backoff_loop i attempts delay max_ms = delay" using False by (subst backoff_loop.simps) auto
    from False consider "attempts - i = 0" | "max_ms \<le> delay" by linarith
    then show ?thesis
      by cases (use le in \<open>simp_all add: b min_absorb2\<close>)
  qed
qed

lemma backoff_for_exact:
  "0 < initial \<Longrightarrow> backoff_for attempts initial mx = min (int initial * 2 ^ (attempts - 1)) (int mx)"
  using backoff_loop_exact [of "int initial" 1 attempts "int mx"]
  by (simp add: backoff_for_def Let_def min_def split: if_splits)

section \<open>Properties\<close>

text \<open>The manager as it is constructed, over a store that exists.\<close>

definition fresh_system :: "string \<Rightarrow> Config \<Rightarrow> world \<Rightarrow> system" where
  "fresh_system path cfg w = \<lparr>sy_mgr = new_manager path cfg, sy_world = w, sy_tasks = []\<rparr>"

lemma fresh_inv: "db_wf (w_db w) \<Longrightarrow> w_dbfile w \<Longrightarrow> mgr_inv w (fresh_system path cfg w)"
  "excl_inv (fresh_system path cfg w)"
  by (simp_all add: mgr_inv_def book_inv_def rec_inv_def excl_inv_def holders_def fresh_system_def new_manager_def
      known_def dispatched_def waits_def)

text \<open>Bounded exponential backoff (L2-RTY-005): the delay before attempt \<open>n + 1\<close> is the initial
  delay doubled \<open>n - 1\<close> times, clamped to the maximum.\<close>

theorem backoff_exact:
  assumes "1 \<le> initial_ms"
  shows "backoff_for attempts initial_ms max_ms = min (int initial_ms * 2 ^ (attempts - 1)) (int max_ms)"
  using backoff_for_exact [of initial_ms attempts max_ms] assms by simp

theorem backoff_exact_witness:
  "1 \<le> (1000 :: nat) \<and> backoff_for 5 1000 60000 = 16000 \<and> backoff_for 9 1000 60000 = 60000"
  using backoff_exact [of 1000 5 60000] backoff_exact [of 1000 9 60000] by simp

end
