(* ===== verification/Manager_Runs.thy ===== *)
theory Manager_Runs
  imports Manager_Laws
begin

text \<open>
  Runs of the job manager: the search for a retry id ends, a failed round settles the job,
  due jobs are pumped exactly, and concrete interleavings (the witnesses, and two races of
  the lifecycle commands).
\<close>

declare split_paired_All [simp del] split_paired_Ex [simp del]

section \<open>The search for a retry id\<close>

definition taken :: "string \<Rightarrow> manager \<Rightarrow> world \<Rightarrow> nat \<Rightarrow> bool" where
  "taken root m w n \<longleftrightarrow> db_find w (retry_candidate root n) \<noteq> None \<or>
     m_requests m (retry_candidate root n) \<noteq> None \<or> retry_candidate root n \<in> m_pending m"

lemma retry_candidate_inject: "retry_candidate root a = retry_candidate root b \<longleftrightarrow> a = b"
  by (simp add: retry_candidate_def)

lemma nul_free_candidate: "nul_free root \<Longrightarrow> nul_free (retry_candidate root n)"
  by (simp add: retry_candidate_def retry_marker_def)

lemma taken_ticked: "ticked w w' \<Longrightarrow> taken root m w' = taken root m w"
  by (simp add: taken_def fun_eq_iff db_find_ticked)

lemma db_find_ids: "db_find w k \<noteq> None \<Longrightarrow> k \<in> r_id ` set (db_jobs (w_db w))"
  by (auto simp: db_find_def row_find_def find_Some_iff)

text \<open>At most as many candidates are taken as there are recorded, known and claimed ids.\<close>

lemma taken_count:
  assumes "finite (dom (m_requests m))" and "finite (m_pending m)"
  shows "finite {n. taken root m w n}"
    "card {n. taken root m w n} \<le> length (db_jobs (w_db w)) + card (dom (m_requests m)) + card (m_pending m)"
proof -
  let ?R = "r_id ` set (db_jobs (w_db w))" and ?T = "{n. taken root m w n}"
  let ?ids = "?R \<union> dom (m_requests m) \<union> m_pending m"
  have inj: "inj (retry_candidate root)" by (auto simp: inj_def retry_candidate_inject)
  have fin: "finite ?ids" using assms by simp
  have sub: "retry_candidate root ` ?T \<subseteq> ?ids"
    using db_find_ids by (auto simp: taken_def simp del: known_simps)
  show "finite ?T" using finite_subset [OF sub fin] by (rule finite_imageD) (rule inj_on_subset [OF inj subset_UNIV])
  have "card ?T = card (retry_candidate root ` ?T)" by (rule card_image [OF inj_on_subset [OF inj subset_UNIV], symmetric])
  also have "\<dots> \<le> card ?ids" by (rule card_mono [OF fin sub])
  also have "\<dots> \<le> card ?R + card (dom (m_requests m)) + card (m_pending m)"
    by (rule order_trans [OF card_Un_le add_right_mono [OF card_Un_le]])
  also have "card ?R \<le> length (db_jobs (w_db w))" by (rule order_trans [OF card_image_le card_length]) simp
  finally show "card ?T \<le> length (db_jobs (w_db w)) + card (dom (m_requests m)) + card (m_pending m)" by simp
qed

definition probe_result ::
  "string \<Rightarrow> nat \<Rightarrow> manager \<Rightarrow> world \<Rightarrow> (string + string \<times> manager) \<Rightarrow> bool" where
  "probe_result root n m w r \<longleftrightarrow> (case r of
     Inl e \<Rightarrow> e \<noteq> []
   | Inr (candidate, m') \<Rightarrow> (\<exists>i \<ge> n. int i \<le> INT_MAX \<and> candidate = retry_candidate root i \<and> \<not> taken root m w i \<and>
       (\<forall>j. n \<le> j \<and> j < i \<longrightarrow> taken root m w j) \<and> m' = m\<lparr>m_pending := insert candidate (m_pending m)\<rparr>))"

lemma probe_result_ticked: "ticked w w' \<Longrightarrow> probe_result root n m w' r = probe_result root n m w r"
  by (cases r) (auto simp: probe_result_def taken_ticked)

lemma probe_result_Suc: "taken root m w n \<Longrightarrow> probe_result root (n + 1) m w r \<Longrightarrow> probe_result root n m w r"
proof (cases r)
  case (Inr p)
  assume tk: "taken root m w n" and "probe_result root (n + 1) m w r"
  with Inr obtain i where i: "n + 1 \<le> i" "int i \<le> INT_MAX" "fst p = retry_candidate root i" "\<not> taken root m w i"
      "\<forall>j. n + 1 \<le> j \<and> j < i \<longrightarrow> taken root m w j" "snd p = m\<lparr>m_pending := insert (fst p) (m_pending m)\<rparr>"
    by (auto simp: probe_result_def)
  have "taken root m w j" if "n \<le> j" "j < i" for j
    using that i(5) tk by (cases "j = n") auto
  with i Inr show ?thesis by (cases p) (auto simp: probe_result_def intro!: exI [of _ i])
qed (simp add: probe_result_def)

lemma retry_probe_ends:
  assumes "nul_free root" and "finite {i. taken root m w i}"
    and "int n + int (card {i. taken root m w i \<and> n \<le> i}) \<le> INT_MAX"
  shows "\<exists>r w'. retry_probe root n m c w = Some (r, w') \<and> ticked w w' \<and> probe_result root n m w r"
  using assms(2,3)
proof (induction "card {i. taken root m w i \<and> n \<le> i}" arbitrary: n w rule: less_induct)
  case less
  obtain lr w1 where l: "load (retry_candidate root n) c w = (lr, w1)" by fastforce
  note t = load_ticked [OF l]
  have next_step: ?case if tk: "taken root m w n"
    and eq: "int n < INT_MAX \<Longrightarrow> retry_probe root n m c w = retry_probe root (n + 1) m c w1"
  proof -
    let ?A = "{i. taken root m w i \<and> n + 1 \<le> i}" and ?B = "{i. taken root m w i \<and> n \<le> i}"
    have "?A \<subseteq> ?B" by (simp add: Collect_mono)
    moreover have "n \<in> ?B" "n \<notin> ?A" using tk by simp_all
    ultimately have "?A \<subset> ?B" by blast
    moreover have "finite ?B" using less.prems by simp
    ultimately have lt: "card {i. taken root m w1 i \<and> n + 1 \<le> i} < card {i. taken root m w i \<and> n \<le> i}"
      by (simp only: taken_ticked [OF t] psubset_card_mono)
    have bound: "int n < INT_MAX" "int (n + 1) + int (card {i. taken root m w1 i \<and> n + 1 \<le> i}) \<le> INT_MAX"
      using lt less.prems(2) by simp_all
    have "finite {i. taken root m w1 i}" using less.prems(1) by (simp add: taken_ticked [OF t])
    from less.hyps [OF lt this bound(2)] obtain r w' where
      "retry_probe root (n + 1) m c w1 = Some (r, w')" "ticked w1 w'" "probe_result root (n + 1) m w1 r"
      by auto
    moreover from this(3) have "probe_result root n m w r"
      by (intro probe_result_Suc [OF tk]) (simp only: probe_result_ticked [OF t])
    ultimately show ?case using eq [OF bound(1)] t by (auto intro: ticked_trans)
  qed
  consider e where "lr = Inl e" | "lr = Inr None" | j where "lr = Inr (Some j)"
    by (metis obj_sumE option.exhaust)
  then show ?case
  proof cases
    case (1 e)
    then show ?thesis using l t load_error [OF l]
      by (subst retry_probe.simps) (simp add: probe_result_def)
  next
    case 2
    then have f: "db_find w (retry_candidate root n) = None"
      using load_absent [OF l] nul_free_candidate [OF assms(1)] by simp
    show ?thesis
    proof (cases "taken root m w n")
      case True
      with f have "retry_reserve (retry_candidate root n) m = None" by (auto simp: taken_def retry_reserve_def)
      with 2 l have "int n < INT_MAX \<Longrightarrow> retry_probe root n m c w = retry_probe root (n + 1) m c w1"
        by (subst retry_probe.simps) simp
      with True show ?thesis by (rule next_step)
    next
      case False
      then have "retry_reserve (retry_candidate root n) m =
          Some (m\<lparr>m_pending := insert (retry_candidate root n) (m_pending m)\<rparr>)"
        by (auto simp: taken_def retry_reserve_def)
      moreover have "int n \<le> INT_MAX" using less.prems(2) by simp
      ultimately show ?thesis using 2 l t False
        by (subst retry_probe.simps) (auto simp: probe_result_def)
    qed
  next
    case (3 j)
    then have "abs_job w (retry_candidate root n) = Some j"
      using load_found [OF l] nul_free_candidate [OF assms(1)] by simp
    then have "taken root m w n" by (auto simp: taken_def abs_job_def bind_eq_Some_conv)
    moreover from 3 l have "int n < INT_MAX \<Longrightarrow> retry_probe root n m c w = retry_probe root (n + 1) m c w1"
      by (subst retry_probe.simps) simp
    ultimately show ?thesis by (rule next_step)
  qed
qed

section \<open>A failed round\<close>

lemma fsops_errors [msg_nonempty]:
  "open_root p w = ((Inl e, h), w') \<Longrightarrow> e \<noteq> []"
  "classify d n w = (Inl e, w') \<Longrightarrow> e \<noteq> []"
  "open_regular d n fi w = (Inl e, w') \<Longrightarrow> e \<noteq> []"
  "move_within sd sn dd dn st w = (Inl e, w') \<Longrightarrow> e \<noteq> []"
  by (auto simp: open_root_def classify_def open_regular_def move_within_def reject_bad_name_def Let_def
      split: prod.splits option.splits sum.splits if_splits MoveStrategy.splits)

lemma finish_not_refused:
  "finish_after_commit k req d stg tick err c w = ((out, e), w') \<Longrightarrow> out \<notin> {Rejected, AbortedBeforeCommit}"
  by (auto simp: finish_after_commit_def finish_publish_def finish_record_done_def Let_def
      split: prod.splits sum.splits option.splits if_splits WriteFailureAction.splits)

lemma commit_error:
  "execute_commit k req st sd dd tick err c w = ((out, e), w') \<Longrightarrow> out \<in> {Rejected, AbortedBeforeCommit} \<Longrightarrow> e \<noteq> []"
  by (auto simp: execute_commit_def split: prod.splits sum.splits dest: fsops_errors finish_not_refused)

lemma transition_error:
  "record_transition k t now msg ph c w = ((act, e), w') \<Longrightarrow> act \<noteq> NoAction \<Longrightarrow> \<exists>m. e = Some m \<and> m \<noteq> []"
  by (erule record_transition_cases) (auto split: if_splits)

lemma execute_record_error:
  assumes "execute_record k req st j sd dd err c w = ((out, e), w')" and "out \<in> {Rejected, AbortedBeforeCommit}"
  shows "e \<noteq> []"
proof -
  obtain act m w1 where rt: "record_transition k Renaming (next_tick (updated_at_ms j)) [] BeforeCommitPoint c w = ((act, m), w1)"
    by (metis prod.collapse)
  show ?thesis
    using assms transition_error [OF rt]
    by (auto simp: execute_record_def rt Let_def already_failed_msg_def split: if_splits WriteFailureAction.splits
        dest: commit_error)
qed

lemma execute_error:
  "execute k req st c w = ((out, e), w') \<Longrightarrow> out \<in> {Rejected, AbortedBeforeCommit} \<Longrightarrow> e \<noteq> []"
  unfolding execute_def
  by (auto split: prod.splits sum.splits option.splits if_splits
      simp: no_intent_msg_def no_record_msg_def no_source_msg_def not_regular_msg_def
      dest: validate_error load_error fsops_errors execute_record_error)

lemma record_attempt_healthy:
  assumes "healthy_store c w" and "nul_free k" and "db_find w k = Some r"
  obtains w' where "record_attempt k due reason c w = (Inr (), w')"
    "row_replaced k (r\<lparr>r_attempts := r_attempts r + 1, r_next_retry_ms := due, r_last_error := c_str reason\<rparr>) w w'"
proof -
  have f: "w_dbfault w n = None" if "n \<ge> w_tick w" for n
    using assms(1) that by (simp add: healthy_store_def fault_free_def)
  have "row_check r" using assms by (auto simp: healthy_store_def dest: db_wf_find_check)
  then have "row_check (r\<lparr>r_attempts := r_attempts r + 1, r_next_retry_ms := due, r_last_error := c_str reason\<rparr>)"
    by (simp add: row_check_def)
  then have ok: "fst (record_attempt k due reason c w) = Inr ()"
    using assms f by (simp add: record_attempt_def sql_call_def sql_update_job_def sql_write_def
        healthy_store_def db_find_def)
  then obtain w' where ra: "record_attempt k due reason c w = (Inr (), w')" by (metis prod.collapse)
  from ra show thesis
    by (cases rule: record_attempt_cases) (use that ra assms(2,3) in auto)
qed

lemma row_replaced_healthy: "row_replaced k r w w' \<Longrightarrow> healthy_store c w \<Longrightarrow> healthy_store c w'"
  by (blast intro: healthy_step db_step_env db_step_row)

lemma durable_attempt:
  assumes "row_replaced k (r\<lparr>r_attempts := a, r_next_retry_ms := d, r_last_error := e\<rparr>) w w'" and "db_find w k = Some r"
  shows "durable_state w' k = durable_state w k"
  using assms by (simp add: durable_state_def abs_job_def row_replaced_def job_of_row_def)
    (cases "JobState_from_string (r_state r)"; simp add: job_of_row_def)

lemma fail_permanently_healthy:
  assumes h: "healthy_store c w" and k: "nul_free k" and s: "durable_state w k = Some s"
    and reason: "reason \<noteq> []" "nul_free reason"
  shows "durable_state (fail_permanently k reason c w) k = (if s = Done then Some Done else Some Failed)"
proof -
  obtain r where r: "db_find w k = Some r" using s by (auto simp: durable_state_Some)
  obtain w1 where ra: "record_attempt k 0 reason c w = (Inr (), w1)"
    and rr: "row_replaced k (r\<lparr>r_attempts := r_attempts r + 1, r_next_retry_ms := 0, r_last_error := c_str reason\<rparr>) w w1"
    by (rule record_attempt_healthy [OF h k r])
  have h1: "healthy_store c w1" by (rule row_replaced_healthy [OF rr h])
  have s1: "durable_state w1 k = Some s" using durable_attempt [OF rr r] s by simp
  obtain j where l: "load k c w1 = (Inr (Some j), w1\<lparr>w_tick := w_tick w1 + 2\<rparr>)" "job_state j = s"
    by (rule load_healthy [OF h1 k s1])
  let ?w2 = "w1\<lparr>w_tick := w_tick w1 + 2\<rparr>"
  have t: "ticked w1 ?w2" using load_ticked [OF l(1)] .
  have h2: "healthy_store c ?w2" by (rule healthy_step [OF db_step_env [OF db_step_ticked [OF t]] h1])
  have s2: "durable_state ?w2 k = Some s" using s1 durable_state_ticked [OF t] by simp
  obtain j2 where j2: "abs_job ?w2 k = Some j2" "job_state j2 = s" using s2 by (auto simp: durable_state_def)
  let ?u = "update_state k Failed (updated_at_ms j + 1) reason c ?w2"
  have end_state: "durable_state (snd ?u) k = (if s = Done then Some Done else Some Failed)" if ns: "s \<noteq> Failed"
  proof -
    obtain ur w3 where u: "?u = (ur, w3)" by fastforce
    from u show ?thesis
    proof (cases rule: update_state_cases)
      case (refused e)
      have "s = Done"
      proof (rule ccontr)
        assume "s \<noteq> Done"
        then have "transition_ok s Failed reason" using ns reason by (cases s) (simp_all add: transition_ok_def)
        then have "fst ?u = Inr ()"
          using h2 k reason(2) j2 by (intro update_state_fault_free) (auto simp: healthy_store_def)
        with u refused show False by simp
      qed
      with u refused s2 show ?thesis by (simp add: durable_state_ticked)
    next
      case (stored r' s')
      from stored(2,3) k have "durable_state ?w2 k = Some s'" by (auto simp: durable_state_Some)
      with s2 stored(4) have "s \<noteq> Done" by (auto simp: transition_ok_def)
      moreover have "durable_state w3 k = Some Failed"
        using stored(5) k by (auto simp: durable_state_Some row_replaced_def transition_row_def)
      ultimately show ?thesis using u by simp
    qed
  qed
  show ?thesis
    using end_state s2 l by (cases "s = Failed") (simp_all add: fail_permanently_def ra)
qed

lemma load_retry_state_healthy:
  assumes "healthy_store c w" and "nul_free k" and "db_find w k = Some r"
  obtains rs w' where "load_retry_state k c w = (Inr (Some rs), w')" "rs_attempts rs = column_int (r_attempts r)" "ticked w w'"
proof -
  have f: "w_dbfault w n = None" if "n \<ge> w_tick w" for n
    using assms(1) that by (simp add: healthy_store_def fault_free_def)
  let ?w' = "w\<lparr>w_tick := Suc (Suc (w_tick w))\<rparr>"
  let ?rs = "\<lparr>rs_attempts = column_int (r_attempts r), rs_next_retry_ms = r_next_retry_ms r,
    rs_last_error = r_last_error r, rs_retry_of = r_retry_of r\<rparr>"
  have "load_retry_state k c w = (Inr (Some ?rs), ?w')"
    using assms f by (simp add: load_retry_state_def sql_call_def healthy_store_def db_find_def)
  then show thesis by (intro that [of ?rs ?w']) (auto dest: load_retry_state_ticked)
qed

text \<open>The number of attempts a record counts, this one included.\<close>

definition attempts_now :: "row \<Rightarrow> nat" where
  "attempts_now r = nat (r_attempts r) + 1"

lemma handle_failure_healthy:
  assumes h: "healthy_store c w" and k: "nul_free k" and r: "db_find w k = Some r" and s: "durable_state w k = Some s"
    and reason: "failure \<noteq> []" "nul_free failure" and range: "0 \<le> r_attempts r" "r_attempts r < 2 ^ 31 - 1"
    and hf: "handle_failure cfg k failure now c w = (due, w')"
  shows "if attempts_now r < retry_max_attempts cfg
    then (\<exists>d r'. due = Some d \<and> d = now + backoff_for (attempts_now r) (retry_backoff_initial_ms cfg) (retry_backoff_max_ms cfg) \<and>
        db_find w' k = Some r' \<and> attempts_now r' = attempts_now r + 1 \<and> r_next_retry_ms r' = d \<and> durable_state w' k = Some s)
    else due = None \<and> durable_state w' k = (if s = Done then Some Done else Some Failed)"
proof -
  obtain rs w1 where l: "load_retry_state k c w = (Inr (Some rs), w1)" "rs_attempts rs = column_int (r_attempts r)" "ticked w w1"
    by (rule load_retry_state_healthy [OF h k r])
  have a: "nat ((rs_attempts rs + 1) mod 2 ^ 32) = attempts_now r"
    using range by (simp add: l(2) column_int_small attempts_now_def nat_add_distrib)
  note hf' = hf [unfolded handle_failure_def l(1) prod.case sum.case option.case Let_def a]
  have h1: "healthy_store c w1" by (rule healthy_step [OF db_step_env [OF db_step_ticked [OF l(3)]] h])
  have r1: "db_find w1 k = Some r" and s1: "durable_state w1 k = Some s"
    using r s l(3) by (simp_all add: db_find_ticked durable_state_ticked)
  show ?thesis
  proof (cases "attempts_now r < retry_max_attempts cfg")
    case True
    let ?d = "now + backoff_for (attempts_now r) (retry_backoff_initial_ms cfg) (retry_backoff_max_ms cfg)"
    obtain w2 where ra: "record_attempt k ?d failure c w1 = (Inr (), w2)"
      and rr: "row_replaced k (r\<lparr>r_attempts := r_attempts r + 1, r_next_retry_ms := ?d, r_last_error := c_str failure\<rparr>) w1 w2"
      by (rule record_attempt_healthy [OF h1 k r1])
    have "due = Some ?d" "w' = w2" using hf' True by (simp_all add: ra)
    with rr True range durable_attempt [OF rr r1] s1 show ?thesis
      by (simp add: row_replaced_def attempts_now_def nat_add_distrib)
  next
    case False
    let ?msg = "''gave up after '' @ nat_dec (attempts_now r) @ '' attempts: '' @ failure"
    have "nul_free ?msg" "?msg \<noteq> []" using reason by simp_all
    from fail_permanently_healthy [OF h1 k s1 this(2,1)] False hf' show ?thesis by auto
  qed
qed

lemma pump_exact_lemma:
  assumes "smap_ok (m_waiting m)" and "m_running m" and "pump now m = (moved, m')"
  shows "m_runnable m' = m_runnable m @ pump_due now m \<and> moved = length (pump_due now m) \<and>
    (\<forall>k. map_of (m_waiting m') k = (if k \<in> set (pump_due now m) then None else map_of (m_waiting m) k)) \<and>
    distinct (pump_due now m) \<and>
    (\<forall>k. k \<in> set (pump_due now m) \<longleftrightarrow> (\<exists>d. map_of (m_waiting m) k = Some d \<and> d \<le> now) \<and> k \<notin> m_paused m)"
proof -
  have dk: "distinct (map fst (m_waiting m))" using assms(1) by (simp add: smap_ok_def strict_sorted_iff)
  have mo: "map_of (filter (\<lambda>e. fst e \<notin> A) xs) k = (if k \<in> A then None else map_of xs k)" for A k and xs :: "int smap"
    by (induction xs) auto
  have m': "m' = m\<lparr>m_waiting := filter (\<lambda>e. fst e \<notin> set (pump_due now m)) (m_waiting m),
      m_runnable := m_runnable m @ pump_due now m\<rparr>" "moved = length (pump_due now m)"
    using assms(2,3) by (simp_all add: pump_unfold)
  have "\<forall>k. map_of (m_waiting m') k = (if k \<in> set (pump_due now m) then None else map_of (m_waiting m) k)"
    "m_runnable m' = m_runnable m @ pump_due now m" by (simp_all add: m' mo)
  moreover have "\<forall>k. k \<in> set (pump_due now m) \<longleftrightarrow> (\<exists>d. map_of (m_waiting m) k = Some d \<and> d \<le> now) \<and> k \<notin> m_paused m"
    using dk by (force simp: pump_due_def)
  ultimately show ?thesis using m'(2) pump_due_distinct [OF assms(1), of now] by blast
qed

section \<open>Concrete interleavings\<close>

definition sys :: "manager \<Rightarrow> world \<Rightarrow> task list \<Rightarrow> system" where
  "sys m w ts = \<lparr>sy_mgr = m, sy_world = w, sy_tasks = ts\<rparr>"

lemma sys_sel [simp]: "sy_mgr (sys m w ts) = m" "sy_world (sys m w ts) = w" "sy_tasks (sys m w ts) = ts"
  "(sys m w ts)\<lparr>sy_mgr := m'\<rparr> = sys m' w ts" "(sys m w ts)\<lparr>sy_world := w'\<rparr> = sys m w' ts"
  "(sys m w ts)\<lparr>sy_tasks := ts'\<rparr> = sys m w ts'"
  by (simp_all add: sys_def)

lemma sys_steps:
  "start pa m w = (res, m', w') \<Longrightarrow> mgr_step (sys m w ts) (sys m' w' ts)"
  "submit_claim k m = Inr m' \<Longrightarrow> mgr_step (sys m w ts) (sys m' w (Recording k req now [] # ts))"
  "record_intent (submit_job k req now) old (m_conn m) w = (Inr (), w') \<Longrightarrow>
   mgr_step (sys m w (l @ Recording k req now old # r)) (sys m w' (l @ Publishing k req True # r))"
  "mgr_step (sys m w (l @ Publishing k req b # r)) (sys (submit_publish k req b m) w (l @ r))"
  "pause k stamp m = ((Ok, e), evs, m') \<Longrightarrow> mgr_step (sys m w ts) (sys m' w ts)"
  "resume k stamp m = ((Ok, e), evs, m') \<Longrightarrow> mgr_step (sys m w ts) (sys m' w ts)"
  "cancel_claim k m = Inr (was, m') \<Longrightarrow> mgr_step (sys m w ts) (sys m' w (Cancelling k was # ts))"
  "cancel_durable k (m_conn m) w = ((out, e), w') \<Longrightarrow>
   mgr_step (sys m w (l @ Cancelling k was # r)) (sys m w' (l @ CancelEnding k was out # r))"
  "mgr_step (sys m w (l @ CancelEnding k was out # r)) (sys (cancel_settle k was out m) w (l @ r))"
  "m_runnable m \<noteq> [] \<Longrightarrow> worker_take m = ((k, req, st), m') \<Longrightarrow>
   mgr_step (sys m w ts) (sys m' w (Working k req st now c # ts))"
  "worker_record (m_config m) k req st now c w = ((due, mo, e), w') \<Longrightarrow>
   mgr_step (sys m w (l @ Working k req st now c # r)) (sys m w' (l @ Settling k due # r))"
  using mgr_step.starts [of pa "sys m w ts" res m' w'] mgr_step.claims [of k "sys m w ts" m' req now]
    mgr_step.records [of "sys m w (l @ Recording k req now old # r)" l k req now old r "Inr ()" w']
    mgr_step.publishes [of "sys m w (l @ Publishing k req b # r)" l k req b r]
    mgr_step.pauses [of k stamp "sys m w ts" e evs m'] mgr_step.resumes [of k stamp "sys m w ts" e evs m']
    mgr_step.cancels [of k "sys m w ts" was m']
    mgr_step.cancel_writes [of "sys m w (l @ Cancelling k was # r)" l k was r out e w']
    mgr_step.cancel_ends [of "sys m w (l @ CancelEnding k was out # r)" l k was out r]
    mgr_step.takes [of "sys m w ts" k req st m' now c]
    mgr_step.works [of "sys m w (l @ Working k req st now c # r)" l k req st now c r due mo e w']
  by simp_all

text \<open>A manager started on a store, and one job submitted.\<close>

definition small_config :: Config where
  "small_config = \<lparr>http_bind = ''::1'', http_port = 80, http_max_body_bytes = 64, jobs_workers = 2,
     storage_database_path = ''/db'', retry_max_attempts = 3, retry_backoff_initial_ms = 10,
     retry_backoff_max_ms = 40, logging_level = Info, logging_enabled = True\<rparr>"

definition rm0 :: manager where "rm0 = new_manager ''/db'' small_config"
definition rm1 :: manager where "rm1 = fst (snd (start healthy rm0 mv_world))"
definition rw1 :: world where "rw1 = snd (snd (start healthy rm0 mv_world))"
definition rm2 :: manager where "rm2 = projr (submit_claim ''j9'' rm1)"
definition rw2 :: world where "rw2 = snd (record_intent (submit_job ''j9'' mv_request 5) [] (m_conn rm2) rw1)"
definition rm3 :: manager where "rm3 = submit_publish ''j9'' mv_request True rm2"
definition rm4 :: manager where "rm4 = snd (worker_take rm3)"

lemma fresh_sys: "fresh_system ''/db'' small_config mv_world = sys rm0 mv_world []"
  by (simp add: fresh_system_def sys_def rm0_def)

lemma run_guards:
  "submit_claim ''j9'' rm1 = Inr rm2"
  "record_intent (submit_job ''j9'' mv_request 5) [] (m_conn rm2) rw1 = (Inr (), rw2)"
  "m_runnable rm3 = [''j9'']" "fst (worker_take rm3) = (''j9'', mv_request, RenameNoReplace)"
proof -
  have "\<not> isl (submit_claim ''j9'' rm1)" by code_simp
  then show "submit_claim ''j9'' rm1 = Inr rm2" by (simp add: rm2_def)
  have "fst (record_intent (submit_job ''j9'' mv_request 5) [] (m_conn rm2) rw1) = Inr ()" by code_simp
  then show "record_intent (submit_job ''j9'' mv_request 5) [] (m_conn rm2) rw1 = (Inr (), rw2)"
    by (metis prod.collapse rw2_def)
  show "m_runnable rm3 = [''j9'']" by code_simp
  show "fst (worker_take rm3) = (''j9'', mv_request, RenameNoReplace)" by code_simp
qed

lemma submit_run:
  "mgr_step (sys rm0 mv_world []) (sys rm1 rw1 [])"
  "mgr_step (sys rm1 rw1 []) (sys rm2 rw1 [Recording ''j9'' mv_request 5 []])"
  "mgr_step (sys rm2 rw1 [Recording ''j9'' mv_request 5 []]) (sys rm2 rw2 [Publishing ''j9'' mv_request True])"
  "mgr_step (sys rm2 rw2 [Publishing ''j9'' mv_request True]) (sys rm3 rw2 [])"
  "mgr_step (sys rm3 rw2 []) (sys rm4 rw2 [Working ''j9'' mv_request RenameNoReplace 6 open_conn])"
proof -
  have "start healthy rm0 mv_world = (fst (start healthy rm0 mv_world), rm1, rw1)" by (simp add: rm1_def rw1_def)
  then show "mgr_step (sys rm0 mv_world []) (sys rm1 rw1 [])" by (rule sys_steps(1))
  show "mgr_step (sys rm1 rw1 []) (sys rm2 rw1 [Recording ''j9'' mv_request 5 []])"
    by (rule sys_steps(2) [OF run_guards(1)])
  show "mgr_step (sys rm2 rw1 [Recording ''j9'' mv_request 5 []]) (sys rm2 rw2 [Publishing ''j9'' mv_request True])"
    using sys_steps(3) [OF run_guards(2), of "[]" "[]"] by simp
  show "mgr_step (sys rm2 rw2 [Publishing ''j9'' mv_request True]) (sys rm3 rw2 [])"
    using sys_steps(4) [of rm2 rw2 "[]" "''j9''" mv_request True "[]"] by (simp add: rm3_def)
  have "worker_take rm3 = ((''j9'', mv_request, RenameNoReplace), rm4)"
    using run_guards(4) by (metis prod.collapse rm4_def)
  then show "mgr_step (sys rm3 rw2 []) (sys rm4 rw2 [Working ''j9'' mv_request RenameNoReplace 6 open_conn])"
    by (rule sys_steps(10) [rotated]) (simp add: run_guards(3))
qed

lemma submit_run_reaches: "mgr_step\<^sup>*\<^sup>* (fresh_system ''/db'' small_config mv_world) (sys rm3 rw2 [])"
proof -
  have "mgr_step\<^sup>*\<^sup>* (sys rm0 mv_world []) (sys rm1 rw1 [])" by (rule r_into_rtranclp) (rule submit_run(1))
  also note submit_run(2)
  also note submit_run(3)
  also note submit_run(4)
  finally show ?thesis by (simp only: fresh_sys)
qed

lemma orderly_unpaused: "mgr_step x y \<Longrightarrow> m_paused (sy_mgr y) = {} \<Longrightarrow> orderly x y"
  by (simp add: orderly_def)

lemma submit_run_orderly:
  "orderly\<^sup>*\<^sup>* (fresh_system ''/db'' small_config mv_world)
     (sys rm4 rw2 [Working ''j9'' mv_request RenameNoReplace 6 open_conn])"
proof -
  have p: "m_paused rm1 = {}" "m_paused rm2 = {}" "m_paused rm3 = {}" "m_paused rm4 = {}" by code_simp+
  have "orderly\<^sup>*\<^sup>* (sys rm0 mv_world []) (sys rm1 rw1 [])"
    by (rule r_into_rtranclp, rule orderly_unpaused [OF submit_run(1)]) (simp only: sys_sel p)
  also have "orderly (sys rm1 rw1 []) (sys rm2 rw1 [Recording ''j9'' mv_request 5 []])"
    by (rule orderly_unpaused [OF submit_run(2)]) (simp only: sys_sel p)
  also have "orderly (sys rm2 rw1 [Recording ''j9'' mv_request 5 []]) (sys rm2 rw2 [Publishing ''j9'' mv_request True])"
    by (rule orderly_unpaused [OF submit_run(3)]) (simp only: sys_sel p)
  also have "orderly (sys rm2 rw2 [Publishing ''j9'' mv_request True]) (sys rm3 rw2 [])"
    by (rule orderly_unpaused [OF submit_run(4)]) (simp only: sys_sel p)
  also have "orderly (sys rm3 rw2 []) (sys rm4 rw2 [Working ''j9'' mv_request RenameNoReplace 6 open_conn])"
    by (rule orderly_unpaused [OF submit_run(5)]) (simp only: sys_sel p)
  finally show ?thesis by (simp only: fresh_sys)
qed

text \<open>The race: the job is taken out of the queue to be cancelled, paused, resumed and given to
  a worker before the cancellation is decided.\<close>

definition cm1 :: manager where "cm1 = snd (projr (cancel_claim ''j9'' rm3))"
definition cm2 :: manager where "cm2 = snd (snd (pause ''j9'' 7 cm1))"
definition cm3 :: manager where "cm3 = snd (snd (resume ''j9'' 8 cm2))"
definition cm4 :: manager where "cm4 = snd (worker_take cm3)"
definition cw1 :: world where
  "cw1 = snd (worker_record (m_config cm4) ''j9'' mv_request RenameNoReplace 9 open_conn rw2)"
definition cw2 :: world where "cw2 = snd (cancel_durable ''j9'' (m_conn cm4) cw1)"
definition cm5 :: manager where "cm5 = cancel_settle ''j9'' True InvalidState cm4"
definition cm6 :: manager where "cm6 = snd (worker_take cm5)"

lemma race_guards:
  "cancel_claim ''j9'' rm3 = Inr (True, cm1)"
  "pause ''j9'' 7 cm1 = ((Ok, []), [], cm2)" "resume ''j9'' 8 cm2 = ((Ok, []), [], cm3)"
  "worker_take cm3 = ((''j9'', mv_request, RenameNoReplace), cm4)" "m_runnable cm3 = [''j9'']"
  "worker_record (m_config cm4) ''j9'' mv_request RenameNoReplace 9 open_conn rw2 = ((None, MoveCompleted, []), cw1)"
  "fst (fst (cancel_durable ''j9'' (m_conn cm4) cw1)) = InvalidState"
  "worker_take cm5 = ((''j9'', mv_request, RenameNoReplace), cm6)" "m_runnable cm5 = [''j9'']"
proof -
  have "\<not> isl (cancel_claim ''j9'' rm3)" "fst (projr (cancel_claim ''j9'' rm3))" by code_simp+
  then show "cancel_claim ''j9'' rm3 = Inr (True, cm1)" by (cases "cancel_claim ''j9'' rm3") (auto simp: cm1_def)
  have "fst (pause ''j9'' 7 cm1) = (Ok, [])" "fst (snd (pause ''j9'' 7 cm1)) = []" by code_simp+
  then show "pause ''j9'' 7 cm1 = ((Ok, []), [], cm2)" by (simp add: cm2_def prod_eq_iff)
  have "fst (resume ''j9'' 8 cm2) = (Ok, [])" "fst (snd (resume ''j9'' 8 cm2)) = []" by code_simp+
  then show "resume ''j9'' 8 cm2 = ((Ok, []), [], cm3)" by (simp add: cm3_def prod_eq_iff)
  have "fst (worker_take cm3) = (''j9'', mv_request, RenameNoReplace)" by code_simp
  then show "worker_take cm3 = ((''j9'', mv_request, RenameNoReplace), cm4)" by (simp add: cm4_def prod_eq_iff)
  show "m_runnable cm3 = [''j9'']" "m_runnable cm5 = [''j9'']" by code_simp+
  have "fst (worker_record (m_config cm4) ''j9'' mv_request RenameNoReplace 9 open_conn rw2) = (None, MoveCompleted, [])"
    by code_simp
  then show "worker_record (m_config cm4) ''j9'' mv_request RenameNoReplace 9 open_conn rw2 = ((None, MoveCompleted, []), cw1)"
    by (simp add: cw1_def prod_eq_iff)
  show "fst (fst (cancel_durable ''j9'' (m_conn cm4) cw1)) = InvalidState" by code_simp
  have "fst (worker_take cm5) = (''j9'', mv_request, RenameNoReplace)" by code_simp
  then show "worker_take cm5 = ((''j9'', mv_request, RenameNoReplace), cm6)" by (simp add: cm6_def prod_eq_iff)
qed

section \<open>Properties\<close>

text \<open>C8. A job is in one place at a time: as long as no command pauses a job while its cancellation
  is being decided, a job in a worker's hands is with no other worker, is not in the queue,
  not waiting and not paused, and no job is queued twice.\<close>

theorem dispatch_exclusive:
  assumes "orderly\<^sup>*\<^sup>* (fresh_system path cfg w) y"
  shows "distinct (of_tasks work_of y) \<and> distinct (m_runnable (sy_mgr y)) \<and>
    (\<forall>k \<in> set (of_tasks work_of y). k \<in> m_active (sy_mgr y) \<and> k \<notin> set (m_runnable (sy_mgr y)) \<and>
       k \<notin> smap_keys (m_waiting (sy_mgr y)) \<and> k \<notin> m_paused (sy_mgr y))"
proof -
  have e: "excl_inv y" by (rule excl_sys.inv_reach [OF assms fresh_inv(2)])
  have h: "holders k y \<le> 1" for k using e by (simp add: excl_inv_def)
  have "count_list (of_tasks work_of y) k \<le> 1" "count_list (m_runnable (sy_mgr y)) k \<le> 1" for k
    using h [of k] by (simp_all add: holders_def)
  note ds = count_list_le1_distinct [OF this(1)] count_list_le1_distinct [OF this(2)]
  have "k \<in> m_active (sy_mgr y) \<and> k \<notin> set (m_runnable (sy_mgr y)) \<and>
       k \<notin> smap_keys (m_waiting (sy_mgr y)) \<and> k \<notin> m_paused (sy_mgr y)" if k: "k \<in> set (of_tasks work_of y)" for k
  proof -
    have "count_list (of_tasks work_of y) k \<noteq> 0" using k by (simp only: count_list_0_iff simp_thms)
    with h [of k] have "count_list (m_runnable (sy_mgr y)) k = 0" "\<not> waits (m_waiting (sy_mgr y)) k"
      "k \<notin> m_paused (sy_mgr y)" by (auto simp: holders_def)
    then show ?thesis using e k by (simp add: excl_inv_def waits_def count_list_0_iff)
  qed
  with ds show ?thesis by blast
qed

theorem dispatch_exclusive_witness:
  "''j9'' \<notin> set (m_runnable rm4) \<and> ''j9'' \<in> m_active rm4"
  using dispatch_exclusive [OF submit_run_orderly] by simp

text \<open>C40. The restriction is needed: there is a run without any failing call in which one job is in
  the hands of two workers. \<open>cancel\<close> takes the job out of the queue and releases the mutex;
  \<open>pause\<close> and \<open>resume\<close> put it back, a worker takes it and moves the file; the cancellation,
  now refused, queues the job once more and a second worker takes it.\<close>

theorem cancel_race_double_dispatch:
  "\<exists>y. mgr_step\<^sup>*\<^sup>* (fresh_system ''/db'' small_config mv_world) y \<and> fault_free mv_world \<and>
     of_tasks work_of y = [''j9'', ''j9'']"
proof -
  obtain e where cd: "cancel_durable ''j9'' (m_conn cm4) cw1 = ((InvalidState, e), cw2)"
    using race_guards(7) cw2_def by (metis prod.collapse)
  note submit_run_reaches
  also have "mgr_step (sys rm3 rw2 []) (sys cm1 rw2 [Cancelling ''j9'' True])"
    by (rule sys_steps(7) [OF race_guards(1)])
  also have "mgr_step (sys cm1 rw2 [Cancelling ''j9'' True]) (sys cm2 rw2 [Cancelling ''j9'' True])"
    by (rule sys_steps(5) [OF race_guards(2)])
  also have "mgr_step (sys cm2 rw2 [Cancelling ''j9'' True]) (sys cm3 rw2 [Cancelling ''j9'' True])"
    by (rule sys_steps(6) [OF race_guards(3)])
  also have "mgr_step (sys cm3 rw2 [Cancelling ''j9'' True])
      (sys cm4 rw2 [Working ''j9'' mv_request RenameNoReplace 9 open_conn, Cancelling ''j9'' True])"
    by (rule sys_steps(10) [OF _ race_guards(4)]) (simp add: race_guards(5))
  also have "mgr_step (sys cm4 rw2 [Working ''j9'' mv_request RenameNoReplace 9 open_conn, Cancelling ''j9'' True])
      (sys cm4 cw1 [Settling ''j9'' None, Cancelling ''j9'' True])"
    using sys_steps(11) [OF race_guards(6), of "[]"] by simp
  also have "mgr_step (sys cm4 cw1 [Settling ''j9'' None, Cancelling ''j9'' True])
      (sys cm4 cw2 [Settling ''j9'' None, CancelEnding ''j9'' True InvalidState])"
    using sys_steps(8) [OF cd, of "[Settling ''j9'' None]"] by simp
  also have "mgr_step (sys cm4 cw2 [Settling ''j9'' None, CancelEnding ''j9'' True InvalidState])
      (sys cm5 cw2 [Settling ''j9'' None])"
    using sys_steps(9) [of cm4 cw2 "[Settling ''j9'' None]" "''j9''" True InvalidState "[]"] by (simp add: cm5_def)
  also have "mgr_step (sys cm5 cw2 [Settling ''j9'' None])
      (sys cm6 cw2 [Working ''j9'' mv_request RenameNoReplace 10 open_conn, Settling ''j9'' None])"
    by (rule sys_steps(10) [OF _ race_guards(8)]) (simp add: race_guards(9))
  finally show ?thesis by (auto intro!: exI [where P = "\<lambda>y. mgr_step\<^sup>*\<^sup>* x y \<and> Q y" for x Q])
qed

text \<open>A refused cancellation loses a job that was not in the queue: if the job is waiting out a
  backoff or paused and \<open>cancel\<close> does not succeed, the durable record is as it was, but the job
  is afterwards neither queued, nor waiting, nor paused, nor active.\<close>

theorem cancel_refusal_strands:
  assumes "cancel k ts m w = ((out, e), evs, m', w')" and "out \<noteq> Ok"
    and "m_running m" "m_requests m k \<noteq> None" "k \<notin> m_active m" "k \<notin> set (m_runnable m)"
  shows "k \<notin> dispatched m' \<and> m_requests m' k \<noteq> None \<and> durable_state w' i = durable_state w i"
proof -
  obtain out' e' w1 where cd: "cancel_durable k (m_conn m) w = ((out', e'), w1)" by (metis prod.collapse)
  have W: "out' = out" "w1 = w'" "m_runnable m' = m_runnable m" "m_active m' = m_active m"
    "m_waiting m' = smap_erase k (m_waiting m)" "m_paused m' = m_paused m - {k}" "m_requests m' = m_requests m"
    using assms cd by (auto simp: cancel_def cancel_claim_def take_runnable_def cancel_settle_def remove1_idem)
  have "ticked w w'"
    using cd assms(2) unfolding W cancel_durable_def
    by (auto split: prod.splits sum.splits option.splits if_splits dest!: load_ticked elim!: update_state_cases
        intro: ticked_trans)
  with assms W show ?thesis by (auto simp: dispatched_def durable_state_ticked smap_erase_def)
qed

theorem cancel_refusal_strands_witness:
  "\<exists>m'. ''j9'' \<in> m_paused cm2 \<and> fst (snd (snd (cancel ''j9'' 11 cm2 (rw2\<lparr>w_dbfault := \<lambda>_. Some ''busy''\<rparr>)))) = m' \<and>
     ''j9'' \<notin> dispatched m' \<and> m_requests m' ''j9'' \<noteq> None"
proof -
  let ?w = "rw2\<lparr>w_dbfault := \<lambda>_. Some ''busy''\<rparr>"
  obtain out e evs m' w' where c: "cancel ''j9'' 11 cm2 ?w = ((out, e), evs, m', w')" by (metis prod.collapse)
  have "fst (fst (cancel ''j9'' 11 cm2 ?w)) \<noteq> Ok" "m_running cm2" "m_requests cm2 ''j9'' \<noteq> None"
    "''j9'' \<notin> m_active cm2" "''j9'' \<notin> set (m_runnable cm2)" "''j9'' \<in> m_paused cm2" by code_simp+
  with c cancel_refusal_strands [OF c] show ?thesis by simp
qed



lemma nul_free_strip: "nul_free i \<Longrightarrow> nul_free (strip_retry_suffix i)"
  by (auto simp: strip_retry_suffix_def nul_free_def Let_def split: option.splits if_splits dest!: in_set_takeD)

lemma retry_check_None:
  assumes "retry_check k c w = (None, w')" and "nul_free k"
  shows "durable_state w k = Some Failed" "ticked w w'"
proof -
  obtain lr w1 where l: "load k c w = (lr, w1)" by fastforce
  then obtain j where "lr = Inr (Some j)" "job_state j = Failed" "w1 = w'"
    using assms(1) by (auto simp: retry_check_def split: sum.splits option.splits if_splits)
  with load_found [OF l] load_ticked [OF l] assms(2)
  show "durable_state w k = Some Failed" "ticked w w'" by (simp_all add: durable_state_def)
qed

lemma retry_check_ticked: "retry_check k c w = (bad, w') \<Longrightarrow> ticked w w'"
  by (auto simp: retry_check_def split: prod.splits sum.splits option.splits if_splits dest: load_ticked)

lemma record_intent_others:
  assumes "record_intent job old c w = (Inr u, w')" and "k \<noteq> c_str (job_id job)"
  shows "abs_job w' k = abs_job w k"
  using assms(1)
proof (cases rule: record_intent_cases)
  case stored
  then have "db_find w' k = db_find w k"
    using assms(2) by (simp add: db_find_def writtenD row_find_append row_find_single row_of_job_def split: option.split)
  then show ?thesis by (simp add: abs_job_def)
qed simp

text \<open>What a retry that claimed its candidate leaves behind.\<close>

definition retried :: "string \<Rightarrow> manager \<Rightarrow> world \<Rightarrow> string \<Rightarrow> manager \<Rightarrow> world \<Rightarrow> bool" where
  "retried jid m w new m' w' \<longleftrightarrow>
     durable_state w jid = Some Failed \<and> abs_job w' jid = abs_job w jid \<and> durable_state w' new = Some Queued \<and>
     (\<exists>move. m_requests m jid = Some move \<and> m_requests m' = (m_requests m)(new \<mapsto> move)) \<and>
     m_runnable m' = m_runnable m @ [new] \<and> m_pending m' = m_pending m"

lemma retried_record:
  assumes rec: "record_intent (submit_job new move now) jid c w2 = (Inr u, w')"
    and w2: "ticked w w2" and new: "new = retry_candidate root i" "\<not> taken root m w i" "nul_free new"
    and jid: "m_requests m jid = Some move" "durable_state w jid = Some Failed"
  shows "retried jid m w new (submit_publish new move True (m\<lparr>m_pending := insert new (m_pending m)\<rparr>)) w'"
proof -
  have free: "db_find w new = None" "new \<notin> m_pending m" using new by (auto simp: taken_def)
  have ne: "jid \<noteq> new" using free(1) jid(2) by (auto simp: durable_state_def abs_job_def)
  have "abs_job w' jid = abs_job w2 jid"
    using record_intent_others [OF rec, of jid] ne new(3) by (simp add: submit_job_def new_Job_def)
  moreover have "abs_job w2 jid = abs_job w jid" by (rule abs_job_ticked [OF w2])
  moreover have "durable_state w' new = Some Queued"
    using rec
  proof (cases rule: record_intent_cases)
    case stored
    then have "db_find w' new = Some (row_of_job (submit_job new move now) jid)"
      using new(3) by (simp add: db_find_def writtenD row_find_append row_of_job_def submit_job_def new_Job_def)
        (simp add: row_find_def)
    then show ?thesis
      by (simp add: durable_state_def abs_job_def row_of_job_def submit_job_def new_Job_def JobState_from_string_def job_of_row_def)
  qed simp
  ultimately show ?thesis using jid free(2)
    by (auto simp: retried_def submit_publish_def Let_def)
qed

text \<open>C34. A manual retry returns (L2-RTY-006): for an id without NUL, and as long as fewer ids are recorded,
  known and claimed together than an \<open>int\<close> can count, \<open>retry\<close> returns whatever store calls fail, the
  manager being changed by no other thread during the search. When it answers Ok, the job was FAILED
  and its record stays as it was; the new job is durable and queued under the first
  \<open><root>-retry-<n>\<close>, counting from 1, that was free in the durable record, among the known jobs and
  among the claimed ids. Any other answer leaves database, known jobs, queue and claims unchanged.\<close>

theorem retry_finds_first_free_id:
  assumes "nul_free jid" and "finite (dom (m_requests m))" and "finite (m_pending m)"
    and "int (length (db_jobs (w_db w)) + card (dom (m_requests m)) + card (m_pending m)) < INT_MAX"
  shows "\<exists>res e new evs m' w'. retry jid now ts m w = Some ((res, e, new), evs, m', w') \<and>
    (res = Ok \<longrightarrow> retried jid m w new m' w' \<and>
       (\<exists>i \<ge> 1. int i \<le> INT_MAX \<and> new = retry_candidate (strip_retry_suffix jid) i \<and>
          \<not> taken (strip_retry_suffix jid) m w i \<and> (\<forall>j. 1 \<le> j \<and> j < i \<longrightarrow> taken (strip_retry_suffix jid) m w j))) \<and>
    (res \<noteq> Ok \<longrightarrow> w_db w' = w_db w \<and> m_requests m' = m_requests m \<and> m_runnable m' = m_runnable m \<and>
       m_pending m' = m_pending m)"
proof (cases "retry_claim jid m")
  case (Inl p)
  then show ?thesis by (cases p) (auto simp: retry_def retry_claim_def split: if_splits option.splits)
next
  case (Inr move)
  then have move: "m_requests m jid = Some move" by (auto simp: retry_claim_def split: if_splits option.splits)
  let ?root = "strip_retry_suffix jid"
  obtain bad w1 where chk: "retry_check jid (m_conn m) w = (bad, w1)" by fastforce
  note t1 = retry_check_ticked [OF chk]
  show ?thesis
  proof (cases bad)
    case (Some p)
    have "fst p \<noteq> Ok" using chk Some by (auto simp: retry_check_def split: prod.splits sum.splits option.splits if_splits)
    then show ?thesis using Inr chk Some t1 by (cases p) (simp add: retry_def tickedD)
  next
    case None
    have failed: "durable_state w jid = Some Failed" using retry_check_None chk None assms(1) by simp
    note cnt = taken_count [OF assms(2,3), of ?root w]
    have "card {i. taken ?root m w1 i \<and> 1 \<le> i} \<le> card {i. taken ?root m w i}"
      using cnt(1) by (intro card_mono) (auto simp: taken_ticked [OF t1])
    then have "int 1 + int (card {i. taken ?root m w1 i \<and> 1 \<le> i}) \<le> INT_MAX" using cnt(2) assms(4) by simp
    moreover have "finite {i. taken ?root m w1 i}" using cnt(1) by (simp add: taken_ticked [OF t1])
    ultimately obtain r w2 where pr: "retry_probe ?root 1 m (m_conn m) w1 = Some (r, w2)" "ticked w1 w2"
        "probe_result ?root 1 m w1 r"
      using retry_probe_ends [OF nul_free_strip [OF assms(1)]] by blast
    have t2: "ticked w w2" using t1 pr(2) by (rule ticked_trans)
    show ?thesis
    proof (cases r)
      case (Inl e)
      then show ?thesis using \<open>retry_claim jid m = Inr move\<close> chk None pr(1) t2 by (simp add: retry_def tickedD)
    next
      case (Inr p)
      then obtain i where i: "1 \<le> i" "int i \<le> INT_MAX" "\<not> taken ?root m w i" "\<forall>j. 1 \<le> j \<and> j < i \<longrightarrow> taken ?root m w j"
          and p: "p = (retry_candidate ?root i, m\<lparr>m_pending := insert (retry_candidate ?root i) (m_pending m)\<rparr>)"
        using pr(3) by (cases p) (auto simp: probe_result_def taken_ticked [OF t1])
      let ?new = "retry_candidate ?root i" and ?m1 = "m\<lparr>m_pending := insert (retry_candidate ?root i) (m_pending m)\<rparr>"
      obtain res w3 where rec: "record_intent (submit_job ?new move now) jid (m_conn m) w2 = (res, w3)" by fastforce
      have ret: "retry jid now ts m w = Some (case res of
          Inl e \<Rightarrow> ((StoreError, e, []), [], submit_publish ?new move False ?m1, w3)
        | Inr _ \<Rightarrow> ((Ok, [], ?new), emit JobRetrySubmitted Info ?new (''retry_of='' @ jid) ts ?m1, submit_publish ?new move True ?m1, w3))"
        using \<open>retry_claim jid m = Inr move\<close> chk None pr(1) Inr p rec by (simp add: retry_def split: sum.split)
      show ?thesis
      proof (cases res)
        case (Inl e)
        then have "ticked w2 w3" using rec by (auto elim: record_intent_cases)
        moreover have "?new \<notin> m_pending m" using i(3) by (simp add: taken_def)
        ultimately show ?thesis using ret Inl t2 by (simp add: submit_publish_def Let_def tickedD)
      next
        case (Inr u)
        have "retried jid m w ?new (submit_publish ?new move True ?m1) w3"
          using rec Inr i(3) by (intro retried_record [OF _ t2 refl _ nul_free_candidate [OF nul_free_strip [OF assms(1)]] move failed]) simp_all
        then show ?thesis using ret Inr i by auto
      qed
    qed
  qed
qed

text \<open>The job of the example is cancelled and then retried.\<close>

definition xm :: manager where "xm = fst (snd (snd (cancel ''j9'' 7 rm3 rw2)))"
definition xw :: world where "xw = snd (snd (snd (cancel ''j9'' 7 rm3 rw2)))"

lemma xm_books: "m_requests xm = [''j9'' \<mapsto> mv_request]" "m_pending xm = {}"
proof -
  have "m_requests rm1 = m_requests rm0" "m_pending rm1 = m_pending rm0"
    by (simp_all add: rm1_def start_def split: prod.splits sum.splits)
  moreover have "rm2 = rm1\<lparr>m_pending := insert ''j9'' (m_pending rm1)\<rparr>"
    using run_guards(1) by (auto simp: submit_claim_def split: if_splits)
  from arg_cong [OF this, of m_requests] arg_cong [OF this, of m_pending]
  have "m_requests rm2 = m_requests rm1" "m_pending rm2 = insert ''j9'' (m_pending rm1)" by simp_all
  ultimately have "m_requests rm3 = [''j9'' \<mapsto> mv_request]" "m_pending rm3 = {}"
    by (simp_all add: rm3_def submit_publish_def rm0_def new_manager_def)
  then show "m_requests xm = [''j9'' \<mapsto> mv_request]" "m_pending xm = {}"
    by (auto simp: xm_def cancel_def cancel_claim_def cancel_settle_def take_runnable_def Let_def split: prod.splits sum.splits if_splits)
qed

theorem retry_finds_first_free_id_witness:
  "\<exists>new evs m' w'. retry ''j9'' 5 6 xm xw = Some ((Ok, [], new), evs, m', w') \<and>
     new = ''j9-retry-1'' \<and> m_runnable m' = m_runnable xm @ [''j9-retry-1''] \<and> durable_state w' ''j9-retry-1'' = Some Queued"
proof -
  have "length (db_jobs (w_db xw)) = 2" by code_simp
  moreover have "nul_free ''j9''" by (simp add: nul_free_def)
  ultimately obtain res e new evs m' w' where r: "retry ''j9'' 5 6 xm xw = Some ((res, e, new), evs, m', w')"
    "res = Ok \<longrightarrow> retried ''j9'' xm xw new m' w'"
    using retry_finds_first_free_id [of "''j9''" xm xw 5 6] xm_books by (auto simp: INT_MAX_def simp del: known_simps)
  have "map_option fst (retry ''j9'' 5 6 xm xw) = Some (Ok, [], ''j9-retry-1'')" by code_simp
  with r show ?thesis by (auto simp: retried_def)
qed

text \<open>Scheduled retries (L2-RTY-003): \<open>pump\<close> queues exactly the waiting jobs whose time has come and
  that are not paused, each once, behind the jobs already queued, and returns their number;
  every other waiting job keeps its due time.\<close>

theorem pump_exact:
  assumes "pump now m = (moved, m')" and "smap_ok (m_waiting m)" and "m_running m"
  shows "\<exists>due. m_runnable m' = m_runnable m @ due \<and> moved = length due \<and> distinct due \<and>
    (\<forall>k. k \<in> set due \<longleftrightarrow> (\<exists>d. map_of (m_waiting m) k = Some d \<and> d \<le> now) \<and> k \<notin> m_paused m) \<and>
    (\<forall>k. map_of (m_waiting m') k = (if k \<in> set due then None else map_of (m_waiting m) k))"
  using pump_exact_lemma [OF assms(2,3,1)] by blast

theorem pump_exact_witness:
  "m_runnable (snd (pump 50 (rm3\<lparr>m_waiting := [(''a'', 40), (''b'', 60)]\<rparr>))) = [''j9'', ''a'']"
proof -
  let ?m = "rm3\<lparr>m_waiting := [(''a'', 40), (''b'', 60)]\<rparr>"
  obtain moved m' where p: "pump 50 ?m = (moved, m')" by fastforce
  have "m_running rm3" "m_paused rm3 = {}" by code_simp+
  moreover have "smap_ok (m_waiting ?m)" by (simp add: smap_ok_def less_list_code less_char_def)
  ultimately obtain due where d: "m_runnable m' = [''j9''] @ due" "distinct due"
    "\<forall>k. k \<in> set due \<longleftrightarrow> (\<exists>d. map_of (m_waiting ?m) k = Some d \<and> d \<le> 50)"
    using pump_exact [OF p] run_guards(3) by auto
  have "set due = {''a''}" using d(3) by (auto split: if_splits)
  then have "due = [''a'']" using d(2) by (cases due; cases "tl due") auto
  with d(1) p show ?thesis by simp
qed

end
