(* ===== verification/Manager_Frame.thy ===== *)
theory Manager_Frame
  imports Manager_Laws
begin

text \<open>
  What no step of the store, the file operations, the engine or the manager ever changes: the
  behaviour of the other processes. A world that is quiet stays quiet.
\<close>

declare split_paired_All [simp del] split_paired_Ex [simp del]

section \<open>The environment is never changed by the program\<close>

definition env_kept :: "world \<Rightarrow> world \<Rightarrow> bool" where
  "env_kept w w' \<longleftrightarrow> w_env w' = w_env w"

lemma env_kept_refl [simp]: "env_kept w w"
  and env_kept_trans: "env_kept u v \<Longrightarrow> env_kept v w \<Longrightarrow> env_kept u w"
  by (simp_all add: env_kept_def)

lemma env_kept_same: "same_env w w' \<Longrightarrow> env_kept w w'"
  by (simp add: same_env_def env_kept_def)

lemma env_kept_ticked: "ticked w w' \<Longrightarrow> env_kept w w'"
  by (simp add: env_kept_same tickedD)

lemma env_kept_written: "written w d w' \<Longrightarrow> env_kept w w'"
  by (simp add: env_kept_same writtenD)

lemma env_kept_replaced: "row_replaced k r w w' \<Longrightarrow> env_kept w w'"
  by (simp add: env_kept_same row_replaced_def)

lemma env_kept_quiet: "env_kept w w' \<Longrightarrow> quiet w \<Longrightarrow> quiet w'"
  by (simp add: env_kept_def quiet_def)

lemmas env_basic = env_kept_ticked env_kept_written env_kept_replaced

lemma kcall_env: "kcall w = (r, w') \<Longrightarrow> w_env w' = w_env w"
  by (auto simp: kcall_def)

lemma sys_env:
  "sys_open_dir p w = (r1, w') \<Longrightarrow> w_env w' = w_env w"
  "sys_fstatat d n w = (r2, w') \<Longrightarrow> w_env w' = w_env w"
  "sys_openat d n w = (r3, w') \<Longrightarrow> w_env w' = w_env w"
  "sys_fstat ob w = (r4, w') \<Longrightarrow> w_env w' = w_env w"
  "sys_fsync w = (r5, w') \<Longrightarrow> w_env w' = w_env w"
  "sys_renameat2 od n nd nn w = (r6, w') \<Longrightarrow> w_env w' = w_env w"
  "sys_linkat od n nd nn w = (r7, w') \<Longrightarrow> w_env w' = w_env w"
  "sys_unlinkat d n w = (r8, w') \<Longrightarrow> w_env w' = w_env w"
  "sys_renameat od n nd nn w = (r9, w') \<Longrightarrow> w_env w' = w_env w"
  by (auto simp: sys_open_dir_def sys_fstatat_def sys_openat_def sys_fstat_def sys_fsync_def
      sys_renameat2_def sys_linkat_def sys_unlinkat_def sys_renameat_def Let_def
      split: prod.splits option.splits if_splits dest!: kcall_env)

lemma fsops_env:
  "open_root p w = (r1, w') \<Longrightarrow> env_kept w w'"
  "classify d n w = (r2, w') \<Longrightarrow> env_kept w w'"
  "open_regular d n fi w = (r3, w') \<Longrightarrow> env_kept w w'"
  "move_within sd sn dd dn st w = (r4, w') \<Longrightarrow> env_kept w w'"
  "publish d n nn w = (r5, w') \<Longrightarrow> env_kept w w'"
  unfolding env_kept_def
  by (auto simp: open_root_def classify_def open_regular_def move_within_def publish_def Let_def
      split: prod.splits option.splits sum.splits if_splits MoveStrategy.splits dest!: sys_env)

lemma store_env:
  "load k c w = (r1, w') \<Longrightarrow> env_kept w w'"
  "load_retry_state k c w = (r2, w') \<Longrightarrow> env_kept w w'"
  "update_state k t now msg c w = (r3, w') \<Longrightarrow> env_kept w w'"
  "record_attempt k due msg c w = (r4, w') \<Longrightarrow> env_kept w w'"
  "mark_needs_attention k msg c w = (r5, w') \<Longrightarrow> env_kept w w'"
  "record_intent job old c w = (r6, w') \<Longrightarrow> env_kept w w'"
  "next_sequence c w = (r7, w') \<Longrightarrow> env_kept w w'"
  "store_open path pa c w = (r8, c', w') \<Longrightarrow> env_kept w w'"
  subgoal by (blast intro: env_basic dest: load_ticked)
  subgoal by (blast intro: env_basic dest: load_retry_state_ticked)
  subgoal by (erule update_state_cases) (blast intro: env_basic)+
  subgoal by (erule record_attempt_cases) (blast intro: env_basic)+
  subgoal by (erule mark_needs_attention_cases) (blast intro: env_basic)+
  subgoal by (erule record_intent_cases) (blast intro: env_basic)+
  subgoal by (drule next_sequence_cases) (blast intro: env_basic)
  subgoal by (drule store_open_cases) (blast intro: env_kept_same)
  done

interpretation env: world_frame env_kept
  by (intro world_frame.intro engine_frame.intro) (blast intro: env_kept_refl env_kept_trans fsops_env store_env)+

lemmas mgr_step_env = env.R_mgr_step

end
