(* ===== verification/Http_Laws.thy ===== *)
theory Http_Laws
  imports Http_Parser Json_Laws
begin

text \<open>
  The laws of the HTTP parser.
\<close>

section \<open>Finding the end of the head\<close>

lemma find_sub_Some:
  "find_sub pat s = Some i \<Longrightarrow> take (length pat) (drop i s) = pat \<and> i + length pat \<le> length s"
proof (induction s arbitrary: i)
  case (Cons c s)
  then show ?case by (auto split: if_splits dest: arg_cong [where f = length])
qed (auto split: if_splits)

lemma find_sub_least: "find_sub pat s = Some i \<Longrightarrow> j < i \<Longrightarrow> take (length pat) (drop j s) \<noteq> pat"
proof (induction s arbitrary: i j)
  case (Cons c s)
  then show ?case by (cases j) (auto split: if_splits)
qed (auto split: if_splits)

lemma find_sub_None: "find_sub pat s = None \<Longrightarrow> take (length pat) (drop j s) \<noteq> pat"
proof (induction s arbitrary: j)
  case (Cons c s)
  then show ?case by (cases j) (auto split: if_splits)
qed (auto split: if_splits)

lemma find_sub_eqI:
  assumes "take (length pat) (drop i s) = pat" "\<And>j. j < i \<Longrightarrow> take (length pat) (drop j s) \<noteq> pat" "i \<le> length s"
  shows "find_sub pat s = Some i"
proof (cases "find_sub pat s")
  case None
  then show ?thesis using find_sub_None assms(1) by blast
next
  case (Some k)
  then show ?thesis using find_sub_least [OF Some, of i] find_sub_Some [OF Some] assms by (metis linorder_neqE_nat)
qed

lemma find_sub_append:
  assumes "find_sub pat s = Some i"
  shows "find_sub pat (s @ t) = Some i"
  using assms
proof (induction s arbitrary: i)
  case (Cons c s)
  show ?case
  proof (cases "take (length pat) (c # s) = pat")
    case True
    then have "take (length pat) (c # s @ t) = pat" by (metis append_Cons append_eq_conv_conj append_take_drop_id append_assoc)
    then show ?thesis using Cons.prems True by simp
  next
    case False
    then obtain k where k: "find_sub pat s = Some k" "i = Suc k" using Cons.prems by auto
    have "length pat \<le> length s" using find_sub_Some [OF k(1)] by simp
    then have "take (length pat) (c # s @ t) \<noteq> pat" using False
      by (cases pat) (auto simp: take_Cons')
    then show ?thesis using Cons.IH k by simp
  qed
qed (cases t; auto split: if_splits)

text \<open>A proper prefix of a complete head is not complete.\<close>

lemma find_sub_prefix:
  assumes "find_sub pat s = Some i" "k < i + length pat"
  shows "find_sub pat (take k s) = None"
proof (cases "find_sub pat (take k s)")
  case (Some j)
  then have "find_sub pat (take k s @ drop k s) = Some j" by (rule find_sub_append)
  then have "j = i" using assms(1) by simp
  then show ?thesis using find_sub_Some [OF Some] assms(2) by simp
qed

text \<open>Appending to an incomplete head completes it no earlier than its last three bytes.\<close>

lemma find_sub_extend:
  assumes "find_sub pat s = None" "find_sub pat (s @ t) = Some i"
  shows "length s < i + length pat"
proof (rule ccontr)
  assume "\<not> ?thesis"
  then have "take (length pat) (drop i s) = pat" using find_sub_Some [OF assms(2)] by (simp add: le_diff_conv2)
  then show False using find_sub_None [OF assms(1)] by blast
qed

section \<open>The verdict on a stream\<close>

abbreviation BLANK :: string where
  "BLANK \<equiv> [CR, LF, CR, LF]"

lemma parse_request_head_append:
  assumes "parse_request_head data max_head \<noteq> NeedMore"
  shows "parse_request_head (data @ later) max_head = parse_request_head data max_head"
proof (cases "find_sub BLANK data")
  case None
  then have "length data > max_head" using assms by (auto simp: parse_request_head_def split: if_splits)
  then show ?thesis using None find_sub_extend [OF None, of later]
    by (cases "find_sub BLANK (data @ later)") (auto simp: parse_request_head_def)
next
  case (Some stop)
  then show ?thesis using find_sub_append [OF Some, of later] find_sub_Some [OF Some]
    by (simp add: parse_request_head_def)
qed

lemma parse_request_head_prefix:
  assumes "parse_request_head data max_head = HeadOk r n" "k < n"
  shows "parse_request_head (take k data) max_head = NeedMore"
proof -
  obtain stop where stop: "find_sub BLANK data = Some stop" "n = stop + 4" "n \<le> max_head"
    using assms(1) by (auto simp: parse_request_head_def split: option.splits if_splits sum.splits)
  then show ?thesis using find_sub_prefix [OF stop(1), of k] assms(2) by (simp add: parse_request_head_def)
qed

lemma parse_request_head_take:
  assumes "parse_request_head data max_head = HeadOk r n" "n \<le> k"
  shows "parse_request_head (take k data) max_head = HeadOk r n"
proof (cases "parse_request_head (take k data) max_head = NeedMore")
  case True
  obtain stop where stop: "find_sub BLANK data = Some stop" "n = stop + 4"
    using assms(1) by (auto simp: parse_request_head_def split: option.splits if_splits sum.splits)
  have "find_sub BLANK (take k data) = None"
    using True by (auto simp: parse_request_head_def split: option.splits if_splits sum.splits)
  from find_sub_None [OF this, of stop] have "take (min 4 (k - stop)) (drop stop data) \<noteq> BLANK"
    by (simp add: drop_take eval_nat_numeral)
  moreover have "min 4 (k - stop) = 4" using stop(2) assms(2) by simp
  moreover have "take 4 (drop stop data) = BLANK" using find_sub_Some [OF stop(1)] by (simp add: eval_nat_numeral)
  ultimately show ?thesis by simp
next
  case False
  from parse_request_head_append [OF this, of "drop k data"] assms(1) show ?thesis by simp
qed

lemma parse_request_head_len:
  "parse_request_head data max_head = HeadOk r n \<Longrightarrow> n \<le> max_head \<and> n \<le> length data"
  using find_sub_Some by (fastforce simp: parse_request_head_def split: option.splits if_splits sum.splits)

text \<open>
  C26. The verdict on a head does not depend on how the stream is fragmented: once it is anything but
  \<open>NeedMore\<close>, more bytes leave it as it is, an accepted head fits the limit and the bytes that have
  arrived, and every proper prefix of it yields \<open>NeedMore\<close>.
\<close>

theorem head_verdict_stable:
  assumes "parse_request_head data max_head \<noteq> NeedMore"
  shows "parse_request_head (data @ later) max_head = parse_request_head data max_head \<and>
     (\<forall>r n. parse_request_head data max_head = HeadOk r n \<longrightarrow>
        n \<le> max_head \<and> n \<le> length data \<and> (\<forall>k. k < n \<longrightarrow> parse_request_head (take k data) max_head = NeedMore))"
  using parse_request_head_append [OF assms] parse_request_head_len parse_request_head_prefix by blast

section \<open>Accepted heads\<close>

definition header_ok :: "string \<times> string \<Rightarrow> bool" where
  "header_ok h \<longleftrightarrow> valid_header_name (fst h) \<and> lower_ascii (fst h) = fst h \<and>
     trim_ows (snd h) = snd h \<and> \<not> list_ex is_ctl (snd h)"

definition head_ok :: "Request \<Rightarrow> bool" where
  "head_ok r \<longleftrightarrow> valid_method (req_method r) \<and> valid_target (req_target r) \<and>
     (req_version r = ''HTTP/1.1'' \<or> req_version r = ''HTTP/1.0'') \<and> req_body r = [] \<and>
     smap_ok (req_headers r) \<and> length (req_headers r) \<le> 64 \<and> list_all header_ok (req_headers r)"

lemma dropWhile_idem: "dropWhile P (dropWhile P s) = dropWhile P s"
  by (induction s) auto

lemma trim_ows_idem [simp]: "trim_ows (trim_ows s) = trim_ows s"
proof -
  define t where "t = dropWhile is_ows (rev (dropWhile is_ows s))"
  have "dropWhile is_ows (rev t) = rev t"
  proof (cases "rev t")
    case (Cons c u)
    obtain v where "rev (dropWhile is_ows s) = v @ t" using takeWhile_dropWhile_id unfolding t_def by metis
    then have "dropWhile is_ows s = rev t @ rev v" by (metis rev_append rev_rev_ident)
    then have "\<not> is_ows c" using hd_dropWhile [of is_ows s] Cons by auto
    then show ?thesis using Cons by simp
  qed simp
  moreover have "dropWhile is_ows t = t" unfolding t_def by (rule dropWhile_idem)
  ultimately show ?thesis by (simp add: trim_ows_def t_def [symmetric])
qed

lemma to_lower_valid: "header_name_char c \<Longrightarrow> header_name_char (to_lower_ascii c)"
  by (auto simp: header_name_char_def to_lower_ascii_def is_upper_alpha_def is_lower_alpha_def)

lemma to_lower_idem: "to_lower_ascii (to_lower_ascii c) = to_lower_ascii c"
  by (auto simp: to_lower_ascii_def is_upper_alpha_def)

lemma lower_header_name: "valid_header_name name \<Longrightarrow> valid_header_name (lower_ascii name)"
  by (simp add: valid_header_name_def lower_ascii_def list_all_iff to_lower_valid)

lemma lower_ascii_idem: "lower_ascii (lower_ascii s) = lower_ascii s"
  by (simp add: lower_ascii_def to_lower_idem)

lemma header_line_ok:
  assumes "header_line n headers line = Inr headers1"
  obtains k v where "headers1 = smap_put k v headers" "header_ok (k, v)" "k \<notin> smap_keys headers" "n < 64"
  using assms lower_header_name lower_ascii_idem
  by (auto simp: header_line_def header_ok_def Let_def map_of_eq_None_iff split: if_splits option.splits)

lemma smap_put_set: "k \<notin> smap_keys m \<Longrightarrow> set (smap_put k v m) = insert (k, v) (set m)"
  by (induction m rule: smap_put.induct) auto

lemma smap_put_length: "k \<notin> smap_keys m \<Longrightarrow> length (smap_put k v m) = Suc (length m)"
  by (induction m rule: smap_put.induct) auto

lemma header_loop_ok:
  "header_loop n headers ls = Inr headers1 \<Longrightarrow> smap_ok headers \<Longrightarrow> list_all header_ok headers \<Longrightarrow> length headers = n \<Longrightarrow>
    n \<le> 64 \<Longrightarrow> smap_ok headers1 \<and> list_all header_ok headers1 \<and> length headers1 \<le> 64"
proof (induction n headers ls rule: header_loop.induct)
  case (2 n headers line rest)
  show ?case
  proof (cases "butlast line = []")
    case True
    then show ?thesis using "2.prems" by (auto split: if_splits)
  next
    case False
    then obtain h where h: "header_line n headers (butlast line) = Inr h" "header_loop (n + 1) h rest = Inr headers1"
      "\<not> (line = [] \<or> last line \<noteq> CR)"
      using "2.prems"(1) by (auto split: if_splits sum.splits)
    obtain k v where "h = smap_put k v headers" "header_ok (k, v)" "k \<notin> smap_keys headers" "n < 64"
      using h(1) by (rule header_line_ok)
    then show ?thesis using "2.IH" [OF h(3) False h(1) h(2)] "2.prems"
      by (simp add: smap_put_set smap_put_length list_all_iff)
  qed
qed simp

lemma request_line_ok:
  "request_line line = Inr r \<Longrightarrow> valid_method (req_method r) \<and> valid_target (req_target r) \<and>
    (req_version r = ''HTTP/1.1'' \<or> req_version r = ''HTTP/1.0'') \<and> req_body r = []"
  by (auto simp: request_line_def Let_def split: option.splits if_splits)

lemma parse_request_head_ok:
  assumes "parse_request_head data max_head = HeadOk r n"
  shows "head_ok r"
proof -
  obtain ls where "head_lines ls = Inr r"
    using assms by (auto simp: parse_request_head_def split: option.splits if_splits sum.splits)
  then obtain parsed line rest where "request_line line = Inr parsed" "header_loop 0 [] rest = Inr (req_headers r)"
    "r = parsed\<lparr>req_headers := req_headers r\<rparr>"
    by (auto simp: head_lines_def split: list.splits if_splits sum.splits)
  then show ?thesis using request_line_ok [of line parsed] header_loop_ok [of 0 "[]" rest "req_headers r"]
    by (cases r; cases parsed) (simp add: head_ok_def)
qed

section \<open>Writing a head\<close>

definition line_text :: "string \<Rightarrow> bool" where
  "line_text l \<longleftrightarrow> l \<noteq> [] \<and> CR \<notin> set l \<and> LF \<notin> set l"

definition wire_lines :: "string list \<Rightarrow> string" where
  "wire_lines ls = concat (map (\<lambda>l. l @ CRLF) ls)"

definition head_texts :: "Request \<Rightarrow> string list" where
  "head_texts r = (req_method r @ '' '' @ req_target r @ '' '' @ req_version r) #
     map (\<lambda>(k, v). k @ '': '' @ v) (req_headers r)"

definition render_request_head :: "Request \<Rightarrow> string" where
  "render_request_head r = wire_lines (head_texts r) @ CRLF"

lemma wire_lines_simps [simp]:
  "wire_lines [] = []"
  "wire_lines (l # ls) = l @ CR # LF # wire_lines ls"
  by (simp_all add: wire_lines_def)

lemma find_BLANK_skip:
  "CR \<notin> set l \<Longrightarrow> find_sub BLANK (l @ s) = map_option (\<lambda>i. i + length l) (find_sub BLANK s)"
  by (induction l) (auto simp: option.map_comp comp_def option.map_ident)

lemma find_BLANK_lines:
  "ls \<noteq> [] \<Longrightarrow> list_all line_text ls \<Longrightarrow>
    find_sub BLANK (wire_lines ls @ CR # LF # t) = Some (length (wire_lines ls) - 2)"
proof (induction ls)
  case (Cons l ls)
  then have l: "CR \<notin> set l" by (simp add: line_text_def)
  show ?case
  proof (cases ls)
    case Nil
    then show ?thesis using l by (simp add: find_BLANK_skip)
  next
    case (Cons m ms)
    then obtain c u where m: "m = c # u" "c \<noteq> CR" using Cons.prems by (cases m) (auto simp: line_text_def)
    have "find_sub BLANK (wire_lines ls @ CR # LF # t) = Some (length (wire_lines ls) - 2)"
      using Cons.IH Cons.prems Cons by simp
    then show ?thesis using l m Cons by (simp add: find_BLANK_skip)
  qed
qed simp

lemma stream_lines_wire: "list_all line_text ls \<Longrightarrow> stream_lines (wire_lines ls) = map (\<lambda>l. l @ [CR]) ls"
proof (induction ls)
  case Nil
  then show ?case by (simp add: stream_lines.simps)
next
  case (Cons l ls)
  then have "takeWhile (\<lambda>c. c \<noteq> LF) (l @ CR # LF # wire_lines ls) = l @ [CR]"
    "dropWhile (\<lambda>c. c \<noteq> LF) (l @ CR # LF # wire_lines ls) = LF # wire_lines ls"
    by (auto simp: line_text_def takeWhile_append dropWhile_append)
  then show ?case using Cons by (subst stream_lines.simps) simp
qed

lemma smap_put_last: "(\<And>x. x \<in> smap_keys m \<Longrightarrow> x < k) \<Longrightarrow> smap_put k v m = m @ [(k, v)]"
proof (induction m rule: smap_put.induct)
  case (2 k v k' v' m)
  have "k' < k" using "2.prems" by simp
  then have "\<not> k < k'" "k \<noteq> k'" by auto
  then show ?case using 2 by simp
qed simp

lemma header_loop_step:
  "header_loop n headers ((l @ [CR]) # rest) =
     (if l = [] then Inr headers
      else case header_line n headers l of Inl e \<Rightarrow> Inl e | Inr h \<Rightarrow> header_loop (n + 1) h rest)"
  by simp

lemma head_lines_step:
  "head_lines ((l @ [CR]) # rest) = (case request_line l of
     Inl e \<Rightarrow> Inl e
   | Inr parsed \<Rightarrow> (case header_loop 0 [] rest of Inl e \<Rightarrow> Inl e | Inr h \<Rightarrow> Inr (parsed\<lparr>req_headers := h\<rparr>)))"
  by (simp add: head_lines_def)

lemma header_line_render:
  assumes "header_ok (k, v)" "\<And>x. x \<in> smap_keys headers \<Longrightarrow> x < k" "n < 64"
  shows "header_line n headers (k @ '': '' @ v) = Inr (headers @ [(k, v)])"
proof -
  obtain c u where k: "k = c # u" "header_name_char c" "list_all header_name_char k"
    using assms(1) by (cases k) (auto simp: header_ok_def valid_header_name_def)
  have colon: "CHR '':'' \<notin> set k"
    using k(3) by (auto simp: list_all_iff header_name_char_def is_lower_alpha_def is_upper_alpha_def is_digit_def)
  have "\<not> is_ows c" using k(2)
    by (auto simp: is_ows_def header_name_char_def is_lower_alpha_def is_upper_alpha_def is_digit_def)
  moreover have "find_char (CHR '':'') (k @ CHR '':'' # '' '' @ v) = Some (length k)"
    using colon by (rule find_char_hit)
  moreover have "trim_ows (CHR '' '' # v) = v"
    using assms(1) by (simp add: header_ok_def trim_ows_def is_ows_def)
  moreover have "map_of headers k = None" using assms(2) by (fastforce simp: map_of_eq_None_iff)
  ultimately show ?thesis using assms k(1)
    by (simp add: header_line_def header_ok_def Let_def smap_put_last)
qed

lemma header_loop_render:
  "list_all header_ok hs \<Longrightarrow> smap_ok (headers @ hs) \<Longrightarrow> length headers = n \<Longrightarrow> length (headers @ hs) \<le> 64 \<Longrightarrow>
    header_loop n headers (map (\<lambda>h. (case h of (k, v) \<Rightarrow> k @ '': '' @ v) @ [CR]) hs) = Inr (headers @ hs)"
proof (induction hs arbitrary: n headers)
  case (Cons h hs)
  obtain k v where h: "h = (k, v)" by fastforce
  have "header_line n headers (k @ '': '' @ v) = Inr (headers @ [(k, v)])"
    using Cons.prems h by (intro header_line_render) (auto simp: smap_ok_def sorted_wrt_append)
  then show ?case using Cons.IH [of "headers @ [h]" "n + 1"] Cons.prems h
    unfolding list.map prod.case header_loop_step by simp
qed simp

lemma request_line_render:
  assumes "head_ok r"
  shows "request_line (req_method r @ '' '' @ req_target r @ '' '' @ req_version r) = Inr (r\<lparr>req_headers := []\<rparr>)"
proof -
  have m: "CHR '' '' \<notin> set (req_method r)"
    using assms by (auto simp: head_ok_def valid_method_def is_upper_alpha_def list_all_iff)
  have t: "CHR '' '' \<notin> set (req_target r)" using assms by (auto simp: head_ok_def valid_target_def list_all_iff)
  have v: "find_char (CHR '' '') (req_version r) = None"
    using assms unfolding find_char_None by (auto simp: head_ok_def)
  show ?thesis using find_char_hit [OF m] find_char_hit [OF t] v assms
    by (cases r) (simp add: request_line_def head_ok_def)
qed

lemma head_texts_lines:
  assumes "head_ok r"
  shows "list_all line_text (head_texts r)"
proof -
  have ctl: "is_ctl CR" "is_ctl LF" by (simp_all add: is_ctl_def)
  have "CR \<notin> set (req_method r)" "LF \<notin> set (req_method r)" "req_method r \<noteq> []"
    using assms by (auto simp: head_ok_def valid_method_def is_upper_alpha_def list_all_iff)
  moreover have "CR \<notin> set (req_target r)" "LF \<notin> set (req_target r)"
    using assms ctl by (auto simp: head_ok_def valid_target_def list_all_iff)
  moreover have "CR \<notin> set (req_version r)" "LF \<notin> set (req_version r)" using assms by (auto simp: head_ok_def)
  moreover have "line_text (k @ '': '' @ v)" if "(k, v) \<in> set (req_headers r)" for k v
  proof -
    have "header_ok (k, v)" using that assms by (auto simp: head_ok_def list_all_iff)
    then have "list_all header_name_char k" "\<not> list_ex is_ctl v" by (auto simp: header_ok_def valid_header_name_def)
    then show ?thesis using ctl
      by (auto simp: line_text_def list_all_iff list_ex_iff header_name_char_def is_lower_alpha_def is_upper_alpha_def is_digit_def)
  qed
  ultimately show ?thesis by (auto simp: head_texts_def line_text_def list_all_iff)
qed

lemma parse_rendered_head:
  assumes "head_ok r" "length (render_request_head r) \<le> max_head"
  shows "parse_request_head (render_request_head r @ body) max_head = HeadOk r (length (render_request_head r))"
proof -
  let ?ls = "head_texts r"
  have ls: "?ls \<noteq> []" "list_all line_text ?ls" using assms head_texts_lines by (auto simp: head_texts_def)
  have len: "2 \<le> length (wire_lines ?ls)" by (simp add: head_texts_def)
  then have take: "take (length (wire_lines ?ls) - 2 + 2) (render_request_head r @ body) = wire_lines ?ls"
    by (simp add: render_request_head_def)
  have "header_loop 0 [] (map (\<lambda>l. l @ [CR]) (map (\<lambda>(k, v). k @ '': '' @ v) (req_headers r))) = Inr (req_headers r)"
    using header_loop_render [of "req_headers r" "[]" 0] assms by (simp add: head_ok_def comp_def)
  then have "head_lines (map (\<lambda>l. l @ [CR]) ?ls) = Inr r"
    using request_line_render [of r] assms unfolding head_texts_def list.map head_lines_step by simp
  moreover have "find_sub BLANK (render_request_head r @ body) = Some (length (wire_lines ?ls) - 2)"
    using find_BLANK_lines [OF ls, of body] by (simp add: render_request_head_def)
  ultimately show ?thesis
    using assms len take stream_lines_wire [OF ls(2)] by (simp add: parse_request_head_def render_request_head_def)
qed

text \<open>
  C27. Heads are read back exactly: a request with a valid method, target and version and at most 64
  distinct, lower-case, trimmed headers free of control characters, written out line by line and
  followed by any bytes, is accepted as that request; and every accepted request has that form.
\<close>

theorem request_head_roundtrip:
  "(head_ok r \<and> length (render_request_head r) \<le> max_head \<longrightarrow>
      parse_request_head (render_request_head r @ body) max_head = HeadOk r (length (render_request_head r))) \<and>
   (parse_request_head data max_head = HeadOk r n \<longrightarrow> head_ok r)"
  using parse_rendered_head parse_request_head_ok by blast

definition get_request :: Request where
  "get_request = \<lparr>req_method = ''POST'', req_target = ''/x'', req_version = ''HTTP/1.1'',
     req_headers = [(''content-length'', ''2''), (''host'', ''a b'')], req_body = []\<rparr>"

lemma get_request_ok: "head_ok get_request"
  by code_simp

theorem request_head_roundtrip_witness:
  "parse_request_head (render_request_head get_request @ ''{}'') 80 = HeadOk get_request (length (render_request_head get_request))"
proof -
  have "length (render_request_head get_request) \<le> 80" by code_simp
  then show ?thesis using request_head_roundtrip [of get_request 80 "''{}''"] get_request_ok by blast
qed

theorem head_verdict_stable_witness:
  "parse_request_head ((''GET / HTTP/1.1'' @ BLANK) @ ''later'') 40 = parse_request_head (''GET / HTTP/1.1'' @ BLANK) 40"
proof -
  have "parse_request_head (''GET / HTTP/1.1'' @ BLANK) 40
      = HeadOk \<lparr>req_method = ''GET'', req_target = ''/'', req_version = ''HTTP/1.1'', req_headers = [], req_body = []\<rparr> 18"
    by code_simp
  then show ?thesis using head_verdict_stable [of "''GET / HTTP/1.1'' @ BLANK" 40 "''later''"] by simp
qed

section \<open>The declared length\<close>

lemma length_digits_number_acc:
  "list_all is_digit cs \<Longrightarrow> length_digits acc cs =
    (case number_acc (2 ^ 64 - 1) acc cs of Some v \<Rightarrow> Inr v | None \<Rightarrow> Inl (413, ''request body exceeds limit''))"
  by (induction cs arbitrary: acc) (simp_all add: digit_val_def Let_def)

lemma length_digits_only: "length_digits acc cs = Inr n \<Longrightarrow> list_all is_digit cs"
  by (induction acc cs rule: length_digits.induct) (simp_all split: if_splits)

lemma length_digits_exact:
  assumes "v \<noteq> []"
  shows "length_digits 0 v = Inr n \<longleftrightarrow> list_all is_digit v \<and> n = dec_val v \<and> n < 2 ^ 64"
proof (cases "list_all is_digit v")
  case True
  then show ?thesis using length_digits_number_acc [OF True, of 0] number_acc_dec_val [OF True assms, of "2 ^ 64 - 1"]
    by (cases "dec_val v \<le> 2 ^ 64 - 1") auto
next
  case False
  then show ?thesis using length_digits_only by blast
qed

text \<open>
  A body length is accepted exactly when there is no \<open>Transfer-Encoding\<close> and either no
  \<open>Content-Length\<close>, which means zero, or one that consists of decimal digits only and whose value
  neither overflows 64 bits nor exceeds the limit; the length is then that value.
\<close>

theorem content_length_exact:
  "content_length_for r max_body = Inr n \<longleftrightarrow>
     map_of (req_headers r) ''transfer-encoding'' = None \<and>
     (case map_of (req_headers r) ''content-length'' of
        None \<Rightarrow> n = 0
      | Some v \<Rightarrow> v \<noteq> [] \<and> list_all is_digit v \<and> n = dec_val v \<and> n < 2 ^ 64 \<and> n \<le> max_body)"
proof (cases "map_of (req_headers r) ''content-length''")
  case (Some v)
  then have "content_length_for r max_body = Inr n \<longleftrightarrow> map_of (req_headers r) ''transfer-encoding'' = None \<and>
      v \<noteq> [] \<and> length_digits 0 v = Inr n \<and> n \<le> max_body"
    by (cases "length_digits 0 v") (auto simp: content_length_for_def)
  then show ?thesis using Some length_digits_exact [of v n] by auto
qed (auto simp: content_length_for_def)

lemma content_length_status: "content_length_for r max_body = Inl (s, e) \<Longrightarrow> s \<in> {400, 413} \<and> e \<noteq> []"
proof -
  have "length_digits acc v = Inl (s, e) \<Longrightarrow> s \<in> {400, 413} \<and> e \<noteq> []" for acc v
    by (induction acc v rule: length_digits.induct) (auto split: if_splits)
  then show "content_length_for r max_body = Inl (s, e) \<Longrightarrow> s \<in> {400, 413} \<and> e \<noteq> []"
    by (auto simp: content_length_for_def split: sum.splits if_splits option.splits)
qed

section \<open>The framing of a response\<close>

lemma response_lines:
  "serialize_response r = wire_lines
     ([''HTTP/1.1 '' @ int_dec (resp_status r) @ '' '' @ reason_phrase (resp_status r),
       ''Content-Type: '' @ resp_content_type r, ''Content-Length: '' @ nat_dec (length (resp_body r)),
       ''Connection: close''] @ (if resp_allow r \<noteq> [] then [''Allow: '' @ resp_allow r] else [])) @
     CR # LF # resp_body r"
  by (simp add: serialize_response_def)

lemma line_text_prefix: "l \<noteq> [] \<Longrightarrow> line_text (l @ s) \<longleftrightarrow> CR \<notin> set l \<and> LF \<notin> set l \<and> CR \<notin> set s \<and> LF \<notin> set s"
  by (auto simp: line_text_def)

lemma digits_no_eol: "CR \<notin> set (nat_dec n)" "LF \<notin> set (nat_dec n)" "CR \<notin> set (int_dec i)" "LF \<notin> set (int_dec i)"
proof -
  have d: "\<not> is_digit CR" "\<not> is_digit LF" by (simp_all add: is_digit_def)
  then show "CR \<notin> set (nat_dec n)" "LF \<notin> set (nat_dec n)" "CR \<notin> set (int_dec i)" "LF \<notin> set (int_dec i)"
    by (auto simp: int_dec_def dest: nat_dec_mem)
qed

text \<open>
  A response cannot be split: when its content type and its \<open>Allow\<close> value carry no line break, the
  first blank line on the wire ends the head, the bytes after it are exactly the body, and the
  head announces the length of that body.
\<close>

theorem response_framed:
  assumes "CR \<notin> set (resp_content_type r)" "LF \<notin> set (resp_content_type r)"
    "CR \<notin> set (resp_allow r)" "LF \<notin> set (resp_allow r)"
  shows "\<exists>stop. find_sub BLANK (serialize_response r) = Some stop \<and>
     drop (stop + 4) (serialize_response r) = resp_body r \<and>
     (''Content-Length: '' @ nat_dec (length (resp_body r))) @ [CR] \<in> set (stream_lines (take (stop + 2) (serialize_response r)))"
proof -
  define ls where "ls =
     [''HTTP/1.1 '' @ int_dec (resp_status r) @ '' '' @ reason_phrase (resp_status r),
       ''Content-Type: '' @ resp_content_type r, ''Content-Length: '' @ nat_dec (length (resp_body r)),
       ''Connection: close''] @ (if resp_allow r \<noteq> [] then [''Allow: '' @ resp_allow r] else [])"
  have wire: "serialize_response r = wire_lines ls @ CR # LF # resp_body r" unfolding ls_def by (rule response_lines)
  have reason: "CR \<notin> set (reason_phrase i)" "LF \<notin> set (reason_phrase i)" for i
    by (simp_all add: reason_phrase_def)
  have ls: "ls \<noteq> []" "list_all line_text ls"
    using assms by (simp_all add: ls_def line_text_def digits_no_eol reason)
  have len: "2 \<le> length (wire_lines ls)" by (simp add: ls_def)
  have "find_sub BLANK (serialize_response r) = Some (length (wire_lines ls) - 2)"
    unfolding wire by (rule find_BLANK_lines [OF ls])
  moreover have "drop (length (wire_lines ls) - 2 + 4) (serialize_response r) = resp_body r"
    using len by (simp add: wire)
  moreover have "take (length (wire_lines ls) - 2 + 2) (serialize_response r) = wire_lines ls" using len by (simp add: wire)
  moreover have "(''Content-Length: '' @ nat_dec (length (resp_body r))) @ [CR] \<in> set (stream_lines (wire_lines ls))"
    unfolding stream_lines_wire [OF ls(2)] set_map by (rule imageI) (simp add: ls_def)
  ultimately show ?thesis by metis
qed

theorem response_framed_witness:
  "\<exists>stop. find_sub BLANK (serialize_response (new_Response\<lparr>resp_status := 200, resp_body := BLANK\<rparr>)) = Some stop \<and>
     drop (stop + 4) (serialize_response (new_Response\<lparr>resp_status := 200, resp_body := BLANK\<rparr>)) = BLANK"
  using response_framed [of "new_Response\<lparr>resp_status := 200, resp_body := BLANK\<rparr>"] by (auto simp: new_Response_def)

end
