(* ===== verification/Server_Laws.thy ===== *)
theory Server_Laws
  imports Server Http_Laws
begin

text \<open>
  The laws of the socket layer. The accept thread and the handler threads are a step relation
  over the shared pool, the connections in the handlers' hands and the connections closed so
  far; its invariant gives the bound on concurrent connections and the exactly-once closing.
\<close>

declare split_paired_All [simp del] split_paired_Ex [simp del]

section \<open>Reads and writes\<close>

lemma recv_loop_bounds:
  "recv_loop cap es = (r, got, es') \<Longrightarrow> length got \<le> cap \<and> (r = IoOk \<longrightarrow> cap = 0 \<or> got \<noteq> []) \<and> (r \<noteq> IoOk \<longrightarrow> got = [])"
  by (induction cap es rule: recv_loop.induct) (auto split: if_splits)

lemma read_some_bounds:
  "read_some cap es = (r, got, es') \<Longrightarrow> length got \<le> cap \<and> (r = IoOk \<longleftrightarrow> got \<noteq> [])"
  by (auto simp: read_some_def split: if_splits dest: recv_loop_bounds)

lemma write_all_prefix:
  "write_all es data = (r, sent) \<Longrightarrow> (\<exists>rest. data = sent @ rest) \<and> (r = IoOk \<longleftrightarrow> sent = data)"
proof (induction es data arbitrary: r sent rule: write_all.induct)
  case (3 n es c data)
  show ?case
  proof (cases "n = 0")
    case True
    then show ?thesis using "3.prems" by simp
  next
    case False
    let ?D = "c # data"
    obtain r1 s1 where w: "write_all es (drop n ?D) = (r1, s1)" by fastforce
    then have eq: "r = r1" "sent = take n ?D @ s1" using "3.prems" False by auto
    obtain rest where "drop n ?D = s1 @ rest" "r1 = IoOk \<longleftrightarrow> s1 = drop n ?D" using "3.IH" [OF False w] by blast
    moreover have "?D = take n ?D @ drop n ?D" by (rule append_take_drop_id [symmetric])
    ultimately show ?thesis unfolding eq by (metis append_assoc same_append_eq)
  qed
qed auto

section \<open>The listening socket\<close>

text \<open>
  Opening the listener is all or nothing: on any failure the socket is left as it was, the
  descriptor is closed if it had been created, and the error says why; on success the socket was
  closed before, nothing is closed, and the port is the one the kernel reports as bound, so a
  request for port 0 yields the real port.
\<close>

theorem listen_open_exact:
  "case listen_open addr port backlog nt ls of
     (Inl e, ls', closed) \<Rightarrow> e \<noteq> [] \<and> ls' = ls \<and>
       closed = (case net_socket nt of
         Inl _ \<Rightarrow> []
       | Inr fd \<Rightarrow> (if listen_is_open ls \<or> addr = [] \<or> backlog \<le> 0 \<or> bind_family addr nt = None then [] else [fd]))
   | (Inr _, ls', closed) \<Rightarrow> \<not> listen_is_open ls \<and> closed = [] \<and> net_socket nt = Inr (ls_fd ls') \<and>
       (\<exists>fam. net_getsockname nt = Inr (fam, ls_port ls') \<and> fam \<noteq> OtherFamily)"
  by (auto simp: listen_open_def Let_def port_from_def split: option.splits sum.splits prod.splits family.splits)

section \<open>The accept loop and the handlers\<close>

text \<open>The threads: handlers that wait for work, connections being served, whether the accept
  thread still runs; the connections closed so far.\<close>

record pool_system =
  ps_pool :: pool
  ps_waiting :: nat
  ps_serving :: "int list"
  ps_accepting :: bool
  ps_closed :: "int list"

inductive pool_step :: "pool_system \<Rightarrow> pool_system \<Rightarrow> bool" where
  accepts: "ps_accepting x \<Longrightarrow>
    (\<And>conn. ev = Accepted conn \<Longrightarrow> conn \<notin> set (p_queued (ps_pool x)) \<union> set (ps_serving x) \<union> set (ps_closed x)) \<Longrightarrow>
    acceptor_round ev (ps_pool x) = (go, refused, p) \<Longrightarrow>
    pool_step x (x\<lparr>ps_pool := p, ps_accepting := go,
      ps_closed := (case refused of None \<Rightarrow> ps_closed x | Some (conn, _) \<Rightarrow> conn # ps_closed x)\<rparr>)"
| takes: "0 < ps_waiting x \<Longrightarrow> p_queued (ps_pool x) \<noteq> [] \<Longrightarrow> handler_take (ps_pool x) = (conn, p) \<Longrightarrow>
    pool_step x (x\<lparr>ps_pool := p, ps_waiting := ps_waiting x - 1, ps_serving := conn # ps_serving x\<rparr>)"
| serves: "conn \<in> set (ps_serving x) \<Longrightarrow>
    pool_step x (x\<lparr>ps_pool := handler_release (ps_pool x), ps_waiting := ps_waiting x + 1,
      ps_serving := remove1 conn (ps_serving x), ps_closed := conn # ps_closed x\<rparr>)"
| exits: "0 < ps_waiting x \<Longrightarrow> handler_exits (ps_pool x) \<Longrightarrow> pool_step x (x\<lparr>ps_waiting := ps_waiting x - 1\<rparr>)"
| stops: "pool_step x (x\<lparr>ps_pool := server_shutdown_begin (ps_pool x)\<rparr>)"

text \<open>A pool just started with \<open>n\<close> handlers.\<close>

definition started :: "nat \<Rightarrow> pool_system \<Rightarrow> bool" where
  "started n x \<longleftrightarrow> 0 < n \<and> p_idle (ps_pool x) = n \<and> p_queued (ps_pool x) = [] \<and> \<not> p_stopping (ps_pool x) \<and>
     ps_waiting x = n \<and> ps_serving x = [] \<and> ps_closed x = []"

definition pool_inv :: "nat \<Rightarrow> pool_system \<Rightarrow> bool" where
  "pool_inv n x \<longleftrightarrow>
     p_idle (ps_pool x) + length (p_queued (ps_pool x)) + length (ps_serving x) = n \<and>
     ps_waiting x + length (ps_serving x) \<le> n \<and>
     (ps_waiting x + length (ps_serving x) < n \<longrightarrow> p_stopping (ps_pool x) \<and> p_queued (ps_pool x) = []) \<and>
     distinct (p_queued (ps_pool x) @ ps_serving x @ ps_closed x)"

lemma pool_inv_started: "started n x \<Longrightarrow> pool_inv n x"
  by (simp add: started_def pool_inv_def)

lemmas pool_defs = accept_connection_def handler_take_def handler_release_def handler_exits_def handler_ready_def
  server_shutdown_begin_def

lemma pool_inv_step:
  assumes "pool_step x y" "pool_inv n x"
  shows "pool_inv n y"
  using assms(1)
proof cases
  case (accepts ev go refused p)
  with assms(2) show ?thesis
    by (cases ev) (auto simp: pool_inv_def pool_defs split: if_splits)
next
  case (takes conn p)
  with assms(2) show ?thesis
    by (cases "p_queued (ps_pool x)") (auto simp: pool_inv_def pool_defs)
next
  case (serves conn)
  then have "length (ps_serving x) = Suc (length (remove1 conn (ps_serving x)))"
    using length_pos_if_in_set [OF serves(2)] by (simp add: length_remove1)
  with serves assms(2) show ?thesis
    by (auto simp: pool_inv_def pool_defs dest: notin_set_remove1)
qed (use assms(2) in \<open>auto simp: pool_inv_def pool_defs split: if_splits\<close>)

interpretation pool_sys: step_system pool_step "pool_inv n" for n
  by unfold_locales (rule pool_inv_step)

text \<open>
  C20. The pool is bounded and loses nothing (ADR-0013): however accepts, handlers and shutdown
  interleave, at most as many connections are queued or served as there are handlers; every
  queued connection has a handler waiting for it; a connection is queued, served or closed, in one
  place only and closed at most once; and when the last handler has returned the queue is empty,
  so shutdown drops no accepted connection.
\<close>

theorem pool_safety:
  assumes "pool_step\<^sup>*\<^sup>* x y" "started n x"
  shows "length (p_queued (ps_pool y)) + length (ps_serving y) \<le> n \<and>
     length (p_queued (ps_pool y)) \<le> ps_waiting y \<and>
     distinct (p_queued (ps_pool y) @ ps_serving y @ ps_closed y) \<and>
     (ps_waiting y = 0 \<and> ps_serving y = [] \<longrightarrow> p_queued (ps_pool y) = [])"
proof -
  have inv: "pool_inv n y" by (rule pool_sys.inv_reach [OF assms(1) pool_inv_started [OF assms(2)]])
  have n: "0 < n" using assms(2) by (simp add: started_def)
  have "length (p_queued (ps_pool y)) \<le> ps_waiting y"
    using inv by (cases "p_queued (ps_pool y) = []") (auto simp: pool_inv_def)
  then show ?thesis using inv n by (auto simp: pool_inv_def)
qed

definition ps0 :: pool_system where
  "ps0 = \<lparr>ps_pool = new_pool\<lparr>p_idle := 1, p_running := True\<rparr>, ps_waiting = 1, ps_serving = [], ps_accepting = True, ps_closed = []\<rparr>"

definition ps1 :: pool_system where
  "ps1 = ps0\<lparr>ps_pool := snd (accept_connection 7 (ps_pool ps0))\<rparr>"

definition ps2 :: pool_system where
  "ps2 = ps1\<lparr>ps_pool := snd (accept_connection 8 (ps_pool ps1)), ps_closed := [8]\<rparr>"

lemma ps_run: "pool_step\<^sup>*\<^sup>* ps0 ps2"
proof -
  have "pool_step ps0 ps1"
    using accepts [of ps0 "Accepted 7" True None "snd (accept_connection 7 (ps_pool ps0))"]
    by (simp add: ps1_def ps0_def accept_connection_def new_pool_def)
  moreover have "pool_step ps1 ps2"
    using accepts [of ps1 "Accepted 8" True "Some (8, kServiceUnavailable)" "snd (accept_connection 8 (ps_pool ps1))"]
    by (simp add: ps2_def ps1_def ps0_def accept_connection_def new_pool_def)
  ultimately show ?thesis by (meson converse_rtranclp_into_rtranclp r_into_rtranclp)
qed

theorem pool_safety_witness:
  "length (p_queued (ps_pool ps2)) + length (ps_serving ps2) \<le> 1 \<and> p_queued (ps_pool ps2) = [7] \<and> ps_closed ps2 = [8]"
proof -
  have "started 1 ps0" by (simp add: started_def ps0_def new_pool_def)
  from pool_safety [OF ps_run this]
  show ?thesis by (simp add: ps2_def ps1_def ps0_def accept_connection_def new_pool_def)
qed

section \<open>The saturation response\<close>

text \<open>
  The fixed answer to a saturated server announces 58 bytes but carries a body of 59, so a client
  that honours \<open>Content-Length\<close> reads a truncated JSON document.
\<close>

theorem unavailable_misframed:
  "\<exists>stop. find_sub BLANK kServiceUnavailable = Some stop \<and>
     ''Content-Length: 58'' @ [CR] \<in> set (stream_lines (take (stop + 2) kServiceUnavailable)) \<and>
     length (drop (stop + 4) kServiceUnavailable) = 59"
proof -
  have "find_sub BLANK kServiceUnavailable = Some 103" by code_simp
  moreover have "list_ex (\<lambda>l. l = ''Content-Length: 58'' @ [CR]) (stream_lines (take 105 kServiceUnavailable))" by code_simp
  moreover have "length (drop 107 kServiceUnavailable) = 59" by code_simp
  ultimately show ?thesis by (intro exI [of _ 103]) (simp add: list_ex_iff)
qed

end
