(* ===== verification/Service_Laws.thy ===== *)
theory Service_Laws
  imports Service Manager_Runs Manager_Frame Server_Laws
begin

text \<open>
  Laws of the daemon: start-up is all or nothing, several instances over one database, the stop
  signal and the watchdog.
\<close>

declare split_paired_All [simp del] split_paired_Ex [simp del]

section \<open>The lock and the world\<close>

lemma quiet_env: "quiet w \<longleftrightarrow> w_env w = (\<lambda>_ fs. fs)"
  by (auto simp: quiet_def fun_eq_iff)

lemma lock_file_unique: "lock_file_at path w a \<Longrightarrow> lock_file_at path w b \<Longrightarrow> a = b"
  by (auto simp: lock_file_at_def)

text \<open>What taking the lock leaves alone, whether it succeeds or not.\<close>

definition lock_frame :: "world \<Rightarrow> world \<Rightarrow> bool" where
  "lock_frame w w' \<longleftrightarrow> w_db w' = w_db w \<and> w_dbfile w' = w_dbfile w \<and> w_env w' = w_env w \<and>
     fs_roots (w_fs w') = fs_roots (w_fs w) \<and>
     (\<forall>d n ob. fs_at (w_fs w) d n = Some ob \<longrightarrow> fs_at (w_fs w') d n = Some ob)"

lemma lock_frame_refl [simp]: "lock_frame w w"
  and lock_frame_trans: "lock_frame u v \<Longrightarrow> lock_frame v w \<Longrightarrow> lock_frame u w"
  by (auto simp: lock_frame_def)

lemma open_root_frame: "open_root d w = (r, w') \<Longrightarrow> quiet w \<Longrightarrow> lock_frame w w'"
  by (auto simp: open_root_def sys_open_dir_def kcall_quiet lock_frame_def
      split: prod.splits sum.splits option.splits if_splits)

lemma fs_at_stat [simp]: "fs_at (fs\<lparr>fs_stat := st\<rparr>) = fs_at fs"
  by (simp add: fs_at_def fun_eq_iff)

lemma open_lock_file_frame: "open_lock_file fresh dir n w = (r, w') \<Longrightarrow> quiet w \<Longrightarrow> lock_frame w w'"
  by (auto simp: open_lock_file_def sys_openat_creat_def kcall_quiet lock_frame_def reject_bad_name_def
      split: prod.splits sum.splits option.splits if_splits)

lemma lock_frame_quiet: "lock_frame w w' \<Longrightarrow> quiet w \<Longrightarrow> quiet w'"
  by (simp add: lock_frame_def quiet_def)

lemma lock_frame_file: "lock_frame w w' \<Longrightarrow> lock_file_at path w ob \<Longrightarrow> lock_file_at path w' ob"
  by (auto simp: lock_frame_def lock_file_at_def)

lemma lock_acquire_frame:
  assumes "lock_acquire me path fresh err l lks w = (r, l', lks', w')" "quiet w"
  shows "lock_frame w w'"
proof (cases "l = None")
  case free: True
  show ?thesis
  proof (cases "lock_path_for_database path")
    case path: (Inr p)
    obtain d n where p: "p = (d, n)" by fastforce
    obtain rr dir w1 where root: "open_root d w = ((rr, dir), w1)" by (metis prod.collapse)
    obtain fr w2 where lk: "open_lock_file fresh dir n w1 = (fr, w2)" by fastforce
    have f1: "lock_frame w w1" by (rule open_root_frame [OF root assms(2)])
    have f2: "lock_frame w1 w2" by (rule open_lock_file_frame [OF lk lock_frame_quiet [OF f1 assms(2)]])
    have "w' \<in> {w1, w2}"
      using assms(1) free path p root lk by (auto simp: lock_acquire_def Let_def split: sum.splits option.splits if_splits)
    then show ?thesis using f1 lock_frame_trans [OF f1 f2] by blast
  qed (use assms free in \<open>simp add: lock_acquire_def\<close>)
qed (use assms in \<open>simp add: lock_acquire_def\<close>)

lemma store_open_fs:
  assumes "store_open path pa c w = (r, c', w')" "quiet w"
  shows "w_fs w' = w_fs w"
proof -
  obtain k w1 where k: "kcall w = (k, w1)" by fastforce
  obtain m w2 where m: "sql_call w1 = (m, w2)" by fastforce
  define w3 where "w3 = (if w_dbfile w2 then w2 else w2\<lparr>w_dbfile := True, w_db := empty_db\<rparr>)"
  obtain r4 w4 where i: "check_integrity path pa (k = None \<and> w_dbfile w1) w3 = (r4, w4)" by fastforce
  obtain r5 w5 where s: "apply_settings pa w4 = (r5, w5)" by fastforce
  obtain r6 w6 where h: "check_schema w5 = (r6, w6)" by fastforce
  have "w_fs w2 = w_fs w" using k assms(2) sql_call_ticked [OF m] by (auto simp: kcall_quiet tickedD)
  moreover have "w_fs w3 = w_fs w2" by (simp add: w3_def)
  moreover have "w_fs w5 = w_fs w3" "w_fs w4 = w_fs w3"
    using check_integrity_ticked [OF i] apply_settings_ticked [OF s] by (auto simp: tickedD)
  moreover have "w_fs w6 = w_fs w5" using check_schema_cases [OF h] by (auto dest: tickedD writtenD)
  moreover have "w' \<in> {w2, w4, w5, w6}"
    using assms k m i s h by (auto simp: store_open_def w3_def Let_def split: option.splits sum.splits)
  ultimately show ?thesis by auto
qed

lemma start_fs: "start pa m w = (res, m', w') \<Longrightarrow> quiet w \<Longrightarrow> w_fs w' = w_fs w"
  by (auto simp: start_def split: if_splits prod.splits sum.splits dest: store_open_fs)

section \<open>Start-up is all or nothing\<close>

lemma listen_open_cases:
  assumes "listen_open addr port backlog nt ls = (r, ls', closed)"
  shows "(\<exists>e. r = Inl e \<and> e \<noteq> [] \<and> ls' = ls) \<or> (\<exists>u. r = Inr u) \<and> closed = []"
  using assms
  by (auto simp: listen_open_def Let_def port_from_def split: option.splits sum.splits prod.splits family.splits if_splits)

text \<open>A service that holds nothing, and one that is up.\<close>

definition dormant :: "service \<Rightarrow> bool" where
  "dormant s \<longleftrightarrow> \<not> sd_running s \<and> sd_lock s = None \<and> sd_manager s = None \<and> log_sink \<notin> set (p_subscribers (sd_events s)) \<and>
     \<not> p_running (sd_server s) \<and> \<not> listen_is_open (p_listener (sd_server s)) \<and> p_wake (sd_server s) = None \<and>
     sd_watchdog s = None \<and> \<not> sd_dispatch s"

definition serving :: "Config \<Rightarrow> service \<Rightarrow> bool" where
  "serving cfg s \<longleftrightarrow> sd_running s \<and> sd_lock s \<noteq> None \<and>
     (\<exists>m. sd_manager s = Some m \<and> m_running m \<and> m_events m \<and> c_open (m_conn m) \<and> m_config m = cfg) \<and>
     log_sink \<in> set (p_subscribers (sd_events s)) \<and>
     p_running (sd_server s) \<and> p_idle (sd_server s) = jobs_workers cfg \<and>
     max_body_bytes (sd_http s) = http_max_body_bytes cfg \<and> sd_dispatch s"

lemma dormant_new: "dormant new_service"
  by (simp add: dormant_def new_service_def new_publisher_def new_pool_def new_ListenSocket_def listen_is_open_def)

lemma check_config_error: "check_config os cfg = Inl e \<Longrightarrow> e \<noteq> []"
  by (auto simp: check_config_def storage_path_is_local_def Let_def split: if_splits sum.splits option.splits)

lemma remove_subscribed:
  "log_sink \<notin> set (p_subscribers p) \<Longrightarrow> snd (unsubscribe_remove log_sink (p\<lparr>p_subscribers := p_subscribers p @ [log_sink]\<rparr>)) = p"
  by (simp add: unsubscribe_remove_def remove1_append)

lemma subscribe_fresh:
  "log_sink \<notin> set (p_subscribers p) \<Longrightarrow> subscribe log_sink p = (Inr (), p\<lparr>p_subscribers := p_subscribers p @ [log_sink]\<rparr>)"
  by (simp add: subscribe_def log_sink_def)

lemma store_part_errors:
  "exec_sql what w = (Inl e, w') \<Longrightarrow> e \<noteq> []"
  "query_value sql ans w = (Inl e, w') \<Longrightarrow> e \<noteq> []"
  by (auto simp: exec_sql_def query_value_def split: prod.splits option.splits)

lemma store_stage_errors:
  "check_integrity path pa existed w = (Inl e, w') \<Longrightarrow> e \<noteq> []"
  "apply_settings pa w = (Inl e, w') \<Longrightarrow> e \<noteq> []"
  "create_schema w = (Inl e, w') \<Longrightarrow> e \<noteq> []"
  "check_schema w = (Inl e, w') \<Longrightarrow> e \<noteq> []"
  by (auto simp: check_integrity_def apply_settings_def create_schema_def check_schema_def query_text_def query_int_def
      split: prod.splits sum.splits if_splits dest: store_part_errors)

lemma store_open_error: "store_open path pa c w = (Inl e, c', w') \<Longrightarrow> e \<noteq> []"
  by (auto simp: store_open_def Let_def split: prod.splits option.splits sum.splits dest: store_stage_errors)

lemma server_start_cases:
  assumes "server_start addr port opts True nt p = (r, p', closed)" "\<not> p_running p" "\<not> listen_is_open (p_listener p)"
  obtains (refused) e where "r = Inl e" "e \<noteq> []" "\<not> p_running p'" "\<not> listen_is_open (p_listener p')" "p_wake p' = p_wake p"
  | (started) n where "r = Inr n" "p_running p'" "p_idle p' = so_handlers opts" "closed = []"
      "\<not> p_stopping p'" "p_queued p' = p_queued p"
proof -
  obtain lr ls lc where lo: "listen_open addr port kDefaultBacklog nt (p_listener p) = (lr, ls, lc)" by (metis prod.collapse)
  note lo_spec = listen_open_cases [OF lo]
  show thesis
    using assms lo lo_spec by (auto simp: server_start_def listen_close_def listen_is_open_def
        split: if_splits sum.splits prod.splits intro: refused started)
qed

lemma start_new_manager:
  assumes "start pa (set_event_publisher True (new_manager path cfg)) w = (r, m, w')"
  obtains (refused) e where "r = Inl e" "e \<noteq> []"
  | (started) n where "r = Inr n" "m_running m" "m_events m" "c_open (m_conn m)" "m_config m = cfg"
proof -
  obtain rr c w1 where so: "store_open path pa closed_conn w = (rr, c, w1)" by (metis prod.collapse)
  show thesis
  proof (cases rr)
    case (Inl e)
    then show thesis using assms so refused [of e] store_open_error [OF so [unfolded Inl]]
      by (simp add: start_def set_event_publisher_def new_manager_def)
  next
    case (Inr x)
    then have "c_open c" using so by (auto simp: store_open_def open_conn_def Let_def split: prod.splits sum.splits option.splits)
    then show thesis using assms so Inr started by (auto simp: start_def set_event_publisher_def new_manager_def)
  qed
qed

lemma service_start_lock_cases:
  assumes "service_start_lock os cfg s lks w = (r, s', lks', w')" "dormant s"
  obtains (refused) e where "r = Inl e" "e \<noteq> []" "s' = s" "lks' = lks"
  | (taken) ob where "r = Inr ()" "s' = s\<lparr>sd_lock := Some ob\<rparr>" "lks ob = None" "lks' = lks(ob \<mapsto> os_pid os)"
proof (cases "check_config os cfg")
  case (Inl e)
  then show thesis using assms refused [of e] check_config_error [OF Inl] by (simp add: service_start_lock_def dormant_def)
next
  case (Inr u)
  obtain rr l lks1 w1 where a: "lock_acquire (os_pid os) (storage_database_path cfg) (os_lock_inode os) (os_lock_error os) (sd_lock s) lks w
      = (rr, l, lks1, w1)" by (metis prod.collapse)
  have out: "r = rr" "s' = s\<lparr>sd_lock := l\<rparr>" "lks' = lks1"
    using assms Inr a by (auto simp: service_start_lock_def dormant_def)
  from a show thesis
    by (cases rule: lock_acquire_cases) (use out refused taken in auto)
qed

lemma release_subscribed:
  assumes "log_sink \<notin> set (p_subscribers p)" "lks ob = None"
  shows "release_all (s\<lparr>sd_events := p\<lparr>p_subscribers := p_subscribers p @ [log_sink]\<rparr>, sd_lock := Some ob\<rparr>) (lks(ob \<mapsto> me)) =
    (s\<lparr>sd_events := p, sd_lock := None\<rparr>, lks)"
  using assms by (simp add: release_all_def lock_release_def remove_subscribed fun_upd_idem)

text \<open>The service between the log sink and the manager, while it holds the lock on \<open>ob\<close>.\<close>

definition wired :: "service \<Rightarrow> Config \<Rightarrow> objid \<Rightarrow> service" where
  "wired s cfg ob = s\<lparr>sd_events := (sd_events s)\<lparr>p_subscribers := p_subscribers (sd_events s) @ [log_sink]\<rparr>,
     sd_log_options := \<lparr>elo_minimum = logging_level cfg, elo_enabled = logging_enabled cfg\<rparr>, sd_lock := Some ob\<rparr>"

lemma service_start_log_dormant:
  "dormant s \<Longrightarrow> service_start_log cfg (s\<lparr>sd_lock := Some ob\<rparr>) lks = (Inr (), wired s cfg ob, lks)"
  by (simp add: service_start_log_def dormant_def subscribe_fresh wired_def)

lemma release_wired:
  assumes "dormant s" "lks ob = None"
  shows "release_all ((wired s cfg ob)\<lparr>sd_manager := None\<rparr>) (lks(ob \<mapsto> me)) =
      (s\<lparr>sd_log_options := \<lparr>elo_minimum = logging_level cfg, elo_enabled = logging_enabled cfg\<rparr>\<rparr>, lks)"
  using assms by (cases s) (simp add: release_all_def lock_release_def remove_subscribed fun_upd_idem dormant_def wired_def)

lemma service_start_manager_cases:
  assumes "service_start_manager os cfg (wired s cfg ob) (lks(ob \<mapsto> me)) w = (r, s', lks', w')" "dormant s" "lks ob = None"
  obtains (refused) e where "r = Inl e" "e \<noteq> []" "dormant s'" "sd_events s' = sd_events s" "lks' = lks"
  | (started) m where "r = Inr ()" "s' = (wired s cfg ob)\<lparr>sd_manager := Some m\<rparr>" "lks' = lks(ob \<mapsto> me)"
      "m_running m" "m_events m" "c_open (m_conn m)" "m_config m = cfg"
proof -
  obtain mr m w1 where st: "start (os_pragmas os) (set_event_publisher True (new_manager (storage_database_path cfg) cfg)) w = (mr, m, w1)"
    by (metis prod.collapse)
  note eq = assms(1) [unfolded service_start_manager_def st prod.case]
  from st show thesis
  proof (cases rule: start_new_manager)
    case (refused e)
    then show thesis using eq assms(2) by (intro that(1)) (auto simp: release_wired [where lks = lks and ob = ob, OF assms(2,3)] dormant_def)
  next
    case (started n)
    then show thesis using eq by (intro that(2) [of m]) auto
  qed
qed

lemma service_start_server_cases:
  assumes "service_start_server os cfg ((wired s cfg ob)\<lparr>sd_manager := Some m\<rparr>) (lks(ob \<mapsto> me)) = (r, fx, s', lks')"
    and "dormant s" "lks ob = None" "m_running m" "m_events m" "c_open (m_conn m)" "m_config m = cfg"
  obtains (refused) e where "r = Inl e" "e \<noteq> []" "dormant s'" "sd_events s' = sd_events s" "lks' = lks" "\<forall>a p. Sent a p \<notin> set fx"
  | (started) "r = Inr ()" "serving cfg s'" "lks' = lks(ob \<mapsto> me)" "sd_lock s' = Some ob" "fx = []" "sd_watchdog s' = None"
      "sd_events s' = (sd_events s)\<lparr>p_subscribers := p_subscribers (sd_events s) @ [log_sink]\<rparr>"
proof -
  obtain sr p closed where st: "server_start (http_bind cfg) (http_port cfg) (default_ServerOptions\<lparr>so_handlers := jobs_workers cfg\<rparr>)
      True (os_net os) (sd_server s) = (sr, p, closed)" by (metis prod.collapse)
  have srv: "sd_server (wired s cfg ob) = sd_server s" by (simp add: wired_def)
  have idle: "\<not> p_running (sd_server s)" "\<not> listen_is_open (p_listener (sd_server s))" using assms(2) by (simp_all add: dormant_def)
  from st idle show thesis
  proof (cases rule: server_start_cases)
    case (refused e)
    then show thesis using assms(1-3)
      by (intro that(1) [of e]) (auto simp: service_start_server_def service_stop_manager_def service_drop_manager_def srv st Let_def release_all_def lock_release_def
          wired_def remove_subscribed dormant_def fun_upd_idem)
  next
    case (started n)
    then show thesis using assms
      by (intro that(2)) (auto simp: service_start_server_def service_stop_manager_def service_drop_manager_def srv st Let_def serving_def wired_def dormant_def)
  qed
qed

lemma service_stop_serving:
  assumes "serving cfg s" "service_stop os s lks = (fx, s', lks')" "sd_lock s = Some ob"
  shows "dormant s' \<or> log_sink \<in> set (p_subscribers (sd_events s'))" "lks' = lks(ob := None)"
    "sd_events s' = snd (unsubscribe_remove log_sink (sd_events s))"
  using assms
  by (auto simp: service_stop_def serving_def service_stop_begin_def service_stop_server_def service_stop_manager_def
      service_drop_manager_def release_all_def lock_release_def server_shutdown_def server_shutdown_begin_def
      server_shutdown_finish_def close_wake_def close_wake_def listen_close_def listen_is_open_def dormant_def Let_def split: prod.splits if_splits)

lemma service_start_all:
  assumes "service_start os cfg s lks w = (r, fx, s', lks', w')" "dormant s"
  shows "case r of
      Inl e \<Rightarrow> e \<noteq> [] \<and> dormant s' \<and> lks' = lks \<and> sd_events s' = sd_events s \<and> (\<forall>a p. Sent a p \<notin> set fx)
    | Inr _ \<Rightarrow> serving cfg s' \<and> (\<exists>ob. sd_lock s' = Some ob \<and> lks ob = None \<and> lks' = lks(ob \<mapsto> os_pid os)) \<and>
        (case service_stop os' s' lks' of (fx', s'', lks'') \<Rightarrow> dormant s'' \<and> lks'' = lks \<and> sd_events s'' = sd_events s)"
proof -
  obtain r1 s1 lks1 w1 where a: "service_start_lock os cfg s lks w = (r1, s1, lks1, w1)" by (metis prod.collapse)
  note eq = assms(1) [unfolded service_start_def a prod.case]
  from a assms(2) show ?thesis
  proof (cases rule: service_start_lock_cases)
    case (refused e)
    then show ?thesis using eq assms(2) by auto
  next
    case lock: (taken ob)
    note logged = service_start_log_dormant [OF assms(2), of cfg ob]
    obtain r3 s3 lks3 w3 where b: "service_start_manager os cfg (wired s cfg ob) (lks(ob \<mapsto> os_pid os)) w1 = (r3, s3, lks3, w3)"
      by (metis prod.collapse)
    note eq2 = eq [unfolded lock sum.case logged b prod.case]
    from b assms(2) lock(3) show ?thesis
    proof (cases rule: service_start_manager_cases)
      case (refused e)
      then show ?thesis using eq2 by auto
    next
      case mgr: (started m)
      obtain r4 fx4 s4 lks4 where c: "service_start_server os cfg ((wired s cfg ob)\<lparr>sd_manager := Some m\<rparr>) (lks(ob \<mapsto> os_pid os))
          = (r4, fx4, s4, lks4)" by (metis prod.collapse)
      note eq3 = eq2 [unfolded mgr(1,2,3) sum.case prod.case c]
      from c assms(2) lock(3) mgr(4-7) show ?thesis
      proof (cases rule: service_start_server_cases)
        case (refused e)
        then show ?thesis using eq3 by auto
      next
        case started
        obtain fx5 s5 where d: "service_start_announce os cfg s4 = (fx5, s5)" by fastforce
        then have s5: "s5 = s4 \<or> s5 = s4\<lparr>sd_watchdog := Some (watchdog_interval_ms os)\<rparr>"
          by (auto simp: service_start_announce_def Let_def)
        have out: "r = Inr ()" "s' = s5" "lks' = lks(ob \<mapsto> os_pid os)" using eq3 started d by auto
        have s': "serving cfg s'" "sd_lock s' = Some ob"
          "sd_events s' = (sd_events s)\<lparr>p_subscribers := p_subscribers (sd_events s) @ [log_sink]\<rparr>"
          using s5 started out(2) by (auto simp: serving_def)
        obtain fx' s'' lks'' where stop: "service_stop os' s' lks' = (fx', s'', lks'')" by (metis prod.collapse)
        note st = service_stop_serving [OF s'(1) stop s'(2)]
        have new: "log_sink \<notin> set (p_subscribers (sd_events s))" using assms(2) by (simp add: dormant_def)
        have "sd_events s'' = sd_events s" using st(3) s'(3) remove_subscribed [OF new] by simp
        moreover from this st(1) new have "dormant s''" by simp
        moreover have "lks'' = lks" using st(2) out(3) lock(3) by (simp add: fun_upd_idem)
        ultimately show ?thesis using out(1,3) s' lock(3) stop by auto
      qed
    qed
  qed
qed

text \<open>
  C16. Start-up is all or nothing, and teardown undoes it (L2-CTL-020): a start that fails, at whichever
  stage, says why, tells the service manager nothing, and leaves the service holding nothing: no
  lock, no log subscription, no manager, no socket, so it can be started again. A start that
  succeeds leaves the service with the lock, the subscribed log sink, a running manager on an open
  store and a listening server with one handler per configured worker; and stopping it then gives
  everything back.
\<close>

theorem service_start_atomic:
  assumes "service_start os cfg s lks w = (r, fx, s', lks', w')" "dormant s"
  shows "case r of
      Inl e \<Rightarrow> e \<noteq> [] \<and> dormant s' \<and> lks' = lks \<and> sd_events s' = sd_events s \<and> (\<forall>a p. Sent a p \<notin> set fx)
    | Inr _ \<Rightarrow> serving cfg s' \<and> (\<exists>ob. sd_lock s' = Some ob \<and> lks ob = None \<and> lks' = lks(ob \<mapsto> os_pid os)) \<and>
        (case service_stop os' s' lks' of (fx', s'', lks'') \<Rightarrow> dormant s'' \<and> lks'' = lks \<and> sd_events s'' = sd_events s)"
  using assms by (rule service_start_all)

text \<open>A start on a small configuration.\<close>

definition ex_os :: os_env where
  "ex_os = \<lparr>os_pid = 42, os_statfs = (\<lambda>_. Inr 0xEF53), os_lock_inode = (3, 77), os_lock_error = None, os_pragmas = healthy,
     os_net = \<lparr>net_pton4 = (\<lambda>_. True), net_pton6 = (\<lambda>_. False), net_socket = Inr 5, net_reuseaddr = None, net_bind = None,
        net_listen = None, net_getsockname = Inr (Inet, 80), net_socketpair = Inr (6, 7)\<rparr>,
     os_getenv = (\<lambda>_. None), os_notify_socket = True, os_clock = 9\<rparr>"

definition ex_config :: Config where
  "ex_config = small_config\<lparr>storage_database_path := ''/in/db''\<rparr>"

definition ex_locked :: "unit res \<times> SingletonLock \<times> locks \<times> world" where
  "ex_locked = lock_acquire 42 ''/in/db'' (3, 77) None None (\<lambda>_. None) ex_world"

definition ex_managed :: "nat res \<times> manager \<times> world" where
  "ex_managed = start healthy (set_event_publisher True (new_manager ''/in/db'' ex_config)) (snd (snd (snd ex_locked)))"

lemma ex_start_calls: "check_config ex_os ex_config = Inr ()" "fst ex_locked = Inr ()" "fst ex_managed = Inr 2"
proof -
  have "rfind_char (CHR ''/'') ''/in/db'' = Some 3" by code_simp
  then show "check_config ex_os ex_config = Inr ()"
    by (simp add: check_config_def ex_config_def small_config_def ex_os_def storage_path_is_local_def is_network_filesystem_magic_def)
  show "fst ex_locked = Inr ()" by code_simp
  show "fst ex_managed = Inr 2" by code_simp
qed

definition ex_started :: "unit res \<times> effect list \<times> service \<times> locks \<times> world" where
  "ex_started = service_start ex_os ex_config new_service (\<lambda>_. None) ex_world"

lemma ex_started_ok: "fst ex_started = Inr ()"
proof -
  obtain l lks w where a: "ex_locked = (Inr (), l, lks, w)" using ex_start_calls(2) by (metis prod.collapse)
  obtain m w' where b: "ex_managed = (Inr 2, m, w')" using ex_start_calls(3) by (metis prod.collapse)
  have os: "os_pid ex_os = 42" "os_lock_inode ex_os = (3, 77)" "os_lock_error ex_os = None" "os_pragmas ex_os = healthy"
    "storage_database_path ex_config = ''/in/db''" by (simp_all add: ex_os_def ex_config_def)
  have lk: "service_start_lock ex_os ex_config new_service (\<lambda>_. None) ex_world = (Inr (), new_service\<lparr>sd_lock := l\<rparr>, lks, w)"
    using a ex_start_calls(1) by (simp add: service_start_lock_def new_service_def os ex_locked_def)
  have lg: "service_start_log ex_config (new_service\<lparr>sd_lock := l\<rparr>) lks =
      (Inr (), fst (snd (service_start_log ex_config (new_service\<lparr>sd_lock := l\<rparr>) lks)), lks)"
    by (simp add: service_start_log_def subscribe_def new_service_def new_publisher_def log_sink_def)
  have mg: "service_start_manager ex_os ex_config s lks w = (Inr (), s\<lparr>sd_manager := Some m\<rparr>, lks, w')" for s
    using b by (simp add: service_start_manager_def os ex_managed_def a)
  have sv: "fst (service_start_server ex_os ex_config s lks) = Inr ()" if "sd_server s = new_pool" for s
    using that by (simp add: service_start_server_def server_start_def new_pool_def default_ServerOptions_def ex_config_def
        small_config_def ex_os_def listen_open_def new_ListenSocket_def listen_is_open_def bind_family_def kDefaultBacklog_def
        port_from_def Let_def)
  let ?s3 = "(fst (snd (service_start_log ex_config (new_service\<lparr>sd_lock := l\<rparr>) lks)))\<lparr>sd_manager := Some m\<rparr>"
  have "fst (service_start_server ex_os ex_config ?s3 lks) = Inr ()"
    by (rule sv) (simp add: service_start_log_def subscribe_def new_service_def new_publisher_def log_sink_def)
  then obtain fx s4 lks4 where "service_start_server ex_os ex_config ?s3 lks = (Inr (), fx, s4, lks4)" by (metis prod.collapse)
  then show ?thesis by (subst ex_started_def, subst service_start_def, simp only: lk prod.case sum.case, subst lg)
     (simp add: mg service_start_announce_def Let_def)
qed

theorem service_start_atomic_witness:
  "serving ex_config (fst (snd (snd ex_started)))"
proof -
  obtain r fx s lks w where e: "ex_started = (r, fx, s, lks, w)" by (metis prod.collapse)
  then have r: "r = Inr ()" using ex_started_ok by (metis fst_conv)
  have "service_start ex_os ex_config new_service (\<lambda>_. None) ex_world = (r, fx, s, lks, w)" using e by (simp add: ex_started_def)
  from service_start_atomic [OF this dormant_new, of ex_os] show ?thesis by (simp add: r e)
qed

text \<open>Starting the manager queues nothing: jobs recorded by an earlier run are not taken up again, so a
  manager that is shut down before the socket is open has nothing to finish.\<close>

theorem start_queues_nothing:
  assumes "start pa (set_event_publisher ev (new_manager path cfg)) w = (r, m, w')"
  shows "m_runnable m = [] \<and> m_waiting m = [] \<and> m_requests m = Map.empty \<and> m_active m = {}"
  using assms by (auto simp: start_def set_event_publisher_def new_manager_def split: if_splits prod.splits sum.splits)

section \<open>The stop signal\<close>

inductive sig_step :: "signals \<Rightarrow> signals \<Rightarrow> bool" where
  waits: "sig_step g (wait_step g)"
| arrives: "sig_step g (signal_arrives s g)"

definition sig_inv :: "signals \<Rightarrow> bool" where
  "sig_inv g \<longleftrightarrow> sg_blocked g = {SIGINT, SIGTERM} \<and> sg_handled g = {SIGINT, SIGTERM} \<and> \<not> sg_killed g \<and>
     (case sg_waiter g of
        Testing \<Rightarrow> True
      | Suspending \<Rightarrow> \<not> sg_stop g
      | Suspended \<Rightarrow> \<not> sg_stop g \<and> sg_pending g = {}
      | Returned_to_main \<Rightarrow> sg_stop g)"

lemma all_signals: "s \<in> {SIGINT, SIGTERM}"
  by (cases s) simp_all

lemma sig_inv_step: "sig_step g h \<Longrightarrow> sig_inv g \<Longrightarrow> sig_inv h"
  by (induction rule: sig_step.induct)
    (use all_signals in \<open>auto simp: sig_inv_def wait_step_def signal_arrives_def deliver_signals_def on_stop_signal_def
       split: waiter.splits if_splits\<close>)

interpretation sig_sys: step_system sig_step sig_inv
  by unfold_locales (rule sig_inv_step)

lemma wait_step_returned: "sg_waiter g = Returned_to_main \<Longrightarrow> wait_step g = g"
  by (simp add: wait_step_def)

lemma three_waits: "sig_inv g \<Longrightarrow> sg_stop g \<or> sg_pending g \<noteq> {} \<Longrightarrow> sg_waiter (wait_step (wait_step (wait_step g))) = Returned_to_main"
  by (cases "sg_waiter g")
    (use all_signals in \<open>auto simp: sig_inv_def wait_step_def deliver_signals_def on_stop_signal_def split: waiter.splits\<close>)

text \<open>
  C37. No stop signal is lost and none kills the process (L2-CTL-017): once the handlers are installed,
  whatever the order in which signals arrive and the main thread runs, the default action of a stop signal
  is never taken, the thread never sleeps while a stop is requested or pending, and it stops waiting
  only for a stop; and wherever it is when a signal arrives, it returns from \<open>wait_for_stop_signal\<close>
  within three of its steps, with the stop requested.
\<close>

theorem stop_signal_not_lost:
  assumes "install_signal_handlers sa initial_signals = (Inr u, g0)" "sig_step\<^sup>*\<^sup>* g0 g"
  shows "\<not> sg_killed g \<and>
     (sg_waiter g = Suspended \<longrightarrow> \<not> sg_stop g \<and> sg_pending g = {}) \<and>
     (sg_waiter g = Returned_to_main \<longrightarrow> sg_stop g) \<and>
     (let h = wait_step (wait_step (wait_step (signal_arrives s g)))
      in sg_waiter h = Returned_to_main \<and> sg_stop h \<and> \<not> sg_killed h)"
proof -
  have "sig_inv g0"
    using assms(1) by (auto simp: install_signal_handlers_def initial_signals_def sig_inv_def Let_def split: option.splits if_splits)
  from sig_sys.inv_reach [OF assms(2) this] have inv: "sig_inv g" .
  let ?a = "signal_arrives s g"
  have a: "sig_inv ?a" by (rule sig_inv_step [OF sig_step.arrives inv])
  have "sg_stop ?a \<or> sg_pending ?a \<noteq> {}"
    using inv all_signals [of s] by (auto simp: sig_inv_def signal_arrives_def deliver_signals_def on_stop_signal_def)
  then have h: "sg_waiter (wait_step (wait_step (wait_step ?a))) = Returned_to_main" by (rule three_waits [OF a])
  have "sig_inv (wait_step (wait_step (wait_step ?a)))"
    by (intro sig_inv_step [OF sig_step.waits] a)
  then show ?thesis using inv h by (auto simp: sig_inv_def Let_def)
qed

theorem stop_signal_not_lost_witness:
  "let h = wait_step (wait_step (wait_step (signal_arrives SIGTERM
     (wait_step (initial_signals\<lparr>sg_pipe_ignored := True, sg_handled := {SIGTERM, SIGINT}, sg_blocked := {SIGINT, SIGTERM}\<rparr>)))))
   in sg_waiter h = Returned_to_main \<and> sg_stop h \<and> \<not> sg_killed h"
proof -
  let ?g = "initial_signals\<lparr>sg_pipe_ignored := True, sg_handled := {SIGTERM, SIGINT}, sg_blocked := {SIGINT, SIGTERM}\<rparr>"
  have "install_signal_handlers \<lparr>sa_pipe = None, sa_int = None, sa_term = None, sa_mask_failed = False\<rparr> initial_signals = (Inr (), ?g)"
    by (simp add: install_signal_handlers_def initial_signals_def)
  moreover have "sig_step\<^sup>*\<^sup>* ?g (wait_step ?g)" by (rule r_into_rtranclp) (rule sig_step.waits)
  ultimately show ?thesis using stop_signal_not_lost by blast
qed

section \<open>The watchdog\<close>

lemma slice_of_nat:
  assumes "0 < unat i" "unat i + 100 \<le> 2 ^ 32" "100 * k < unat i"
  shows "watchdog_slice i (of_nat (100 * k)) =
    (if (unat i + 99) div 100 = Suc k then (True, 0) else (False, of_nat (100 * Suc k)))"
proof -
  have w: "of_nat (100 * k) + kSliceMs = (of_nat (100 * Suc k) :: 32 word)" by (simp add: kSliceMs_def)
  have u: "unat (of_nat (100 * Suc k) :: 32 word) = 100 * Suc k"
    using assms by (simp only: unat_of_nat) (simp add: mod_less)
  have "i \<le> of_nat (100 * Suc k) \<longleftrightarrow> unat i \<le> 100 * Suc k" by (simp only: word_le_nat_alt u)
  also have "\<dots> \<longleftrightarrow> (unat i + 99) div 100 = Suc k" using assms(3) by (auto simp: div_nat_eqI)
  finally show ?thesis unfolding watchdog_slice_def Let_def w by simp
qed

lemma run_watchdog_from:
  assumes "0 < unat i" "unat i + 100 \<le> 2 ^ 32" "100 * k < unat i"
  shows "run_watchdog n i (of_nat (100 * k)) = (n + k) div ((unat i + 99) div 100)"
  using assms(3)
proof (induction n arbitrary: k)
  case 0
  then have "k < (unat i + 99) div 100" by (simp add: less_eq_div_iff_mult_less_eq Suc_le_eq [symmetric] del: Suc_le_eq)
  then show ?case by simp
next
  case (Suc n)
  let ?p = "(unat i + 99) div 100"
  have lt: "k < ?p" using Suc.prems by (simp add: less_eq_div_iff_mult_less_eq Suc_le_eq [symmetric] del: Suc_le_eq)
  show ?case
  proof (cases "?p = Suc k")
    case True
    then have "run_watchdog (Suc n) i (of_nat (100 * k)) = Suc (run_watchdog n i 0)"
      using slice_of_nat [OF assms(1,2) Suc.prems] by simp
    also have "run_watchdog n i 0 = n div ?p" using Suc.IH [of 0] assms(1) by simp
    also have "Suc (n div ?p) = (Suc n + k) div ?p" using True div_add_self1 [of "Suc k" n] by (simp add: add.commute)
    finally show ?thesis .
  next
    case False
    with lt have "Suc k < ?p" by simp
    then have "100 * Suc k < unat i" by (simp add: less_eq_div_iff_mult_less_eq Suc_le_eq [symmetric] del: Suc_le_eq)
    from Suc.IH [OF this] False slice_of_nat [OF assms(1,2) Suc.prems] show ?thesis by simp
  qed
qed

lemma strtol_nat_dec: "strtol (nat_dec n) = Some (if n < 2 ^ 63 then Some (int n) else None, [])"
proof -
  obtain c cs where d: "nat_dec n = c # cs" by (cases "nat_dec n") simp_all
  have c: "is_digit c" using nat_dec_mem [of c n] by (simp add: d)
  then have no: "\<not> is_space c" "c \<noteq> CHR ''-''" "c \<noteq> CHR ''+''" by (auto simp: is_digit_def is_space_def)
  have tk: "takeWhile is_digit (nat_dec n) = nat_dec n" "dropWhile is_digit (nat_dec n) = []"
    by (auto simp: takeWhile_eq_all_conv dropWhile_eq_Nil_conv dest: nat_dec_mem)
  have "dropWhile is_space (nat_dec n) = nat_dec n" using no(1) by (simp add: d)
  moreover have "hd (nat_dec n) \<noteq> CHR ''-''" "hd (nat_dec n) \<noteq> CHR ''+''" using no by (simp_all add: d)
  ultimately show ?thesis by (simp add: strtol_def Let_def tk del: takeWhile_eq_all_conv dropWhile_eq_Nil_conv)
qed

lemma watchdog_interval_value:
  assumes "os_getenv os ''WATCHDOG_USEC'' = Some (nat_dec u)" "os_getenv os ''WATCHDOG_PID'' \<in> {None, Some (nat_dec (os_pid os))}"
    and "0 < u" "u < 2 ^ 63" "os_pid os < 2 ^ 63"
  shows "watchdog_interval_ms os = of_nat (max 1 (u div 2000))"
proof -
  have w: "whole_long (nat_dec n) = Some (int n)" if "n < 2 ^ 63" for n
    using that by (simp add: whole_long_def strtol_nat_dec)
  have half: "int u div 1000 div 2 = int (u div 2000)" by (simp add: zdiv_int div_mult2_eq [symmetric] zdiv_zmult2_eq [symmetric])
  show ?thesis
    using assms by (auto simp: watchdog_interval_ms_def w half max_def not_le Let_def)
qed

text \<open>
  The watchdog is on time (L2-CTL-012): when the service manager asks for an interval of \<open>u\<close>
  microseconds, addressed to this process, the thread pings every \<open>p\<close> slices of 100 ms exactly, where
  \<open>p\<close> is half the interval rounded up to a slice; and for every interval from 100 ms on, the time
  between two pings does not exceed it.
\<close>

theorem watchdog_on_time:
  assumes "os_getenv os ''WATCHDOG_USEC'' = Some (nat_dec u)" "os_getenv os ''WATCHDOG_PID'' \<in> {None, Some (nat_dec (os_pid os))}"
    and "0 < u" "u div 2000 + 100 \<le> 2 ^ 32" "os_pid os < 2 ^ 63" and "p = (max 1 (u div 2000) + 99) div 100"
  shows "run_watchdog n (watchdog_interval_ms os) 0 = n div p \<and> 0 < p \<and> (100000 \<le> u \<longrightarrow> p * 100 * 1000 \<le> u)"
proof -
  have "u < 2 ^ 63" using assms(4) by simp
  note iv = watchdog_interval_value [OF assms(1-3) this assms(5)]
  have un: "unat (watchdog_interval_ms os) = max 1 (u div 2000)"
    using assms(4) unfolding iv by (simp only: unat_of_nat) (simp add: mod_less max_def)
  have "run_watchdog n (watchdog_interval_ms os) (of_nat (100 * 0)) = (n + 0) div p"
    unfolding assms(6) by (subst run_watchdog_from) (use assms(4) in \<open>auto simp: un max_def\<close>)
  moreover have "0 < p" by (simp add: assms(6) div_greater_zero_iff max_def)
  moreover have "p * 100 * 1000 \<le> u" if "100000 \<le> u"
  proof -
    have "p * 100 \<le> max 1 (u div 2000) + 99" unfolding assms(6) by (rule div_times_less_eq_dividend)
    moreover have "p \<le> 1" if "u div 2000 \<le> 100" 
      using div_le_mono [of "max 1 (u div 2000) + 99" 199 100] that by (simp add: assms(6))
    ultimately show ?thesis using that by (cases "u div 2000 \<le> 100") (auto simp: max_def)
  qed
  ultimately show ?thesis by simp
qed

theorem watchdog_on_time_witness:
  "run_watchdog 301 (watchdog_interval_ms (ex_os\<lparr>os_getenv := (\<lambda>_. None)(''WATCHDOG_USEC'' := Some (nat_dec 30000000))\<rparr>)) 0 = 2"
  using watchdog_on_time [of "ex_os\<lparr>os_getenv := (\<lambda>_. None)(''WATCHDOG_USEC'' := Some (nat_dec 30000000))\<rparr>" 30000000 150 301]
  by (simp add: ex_os_def)

section \<open>The command line\<close>

text \<open>
  A run with \<open>--check\<close> creates nothing and changes nothing (L2-CTL-019), whatever the configuration: it
  exits with 0 exactly when the configuration loads and passes the check. A run that exits without
  \<open>--check\<close> leaves a dormant service dormant and the locks as they were.
\<close>

theorem main_leaves_no_trace:
  assumes "main_start os read_file sa argv0 args x = (Exit code out msg, fx, y)" "dormant (pr_service x)"
  shows "dormant (pr_service y) \<and> pr_locks y = pr_locks x \<and>
     (\<forall>config_path. parse_args args ([], False) = Some (config_path, True) \<longrightarrow>
        y = x \<and> fx = [] \<and>
        (code = 0 \<longleftrightarrow> config_path \<noteq> [] \<and>
           (\<exists>config. load_config_file config_path (read_file config_path) = Inr config \<and> check_config os config = Inr ())))"
proof (intro conjI allI impI)
  note eq = assms(1) [unfolded main_start_def]
  have start: "dormant s' \<and> lks' = pr_locks x"
    if "service_start os config (pr_service x) (pr_locks x) (pr_world x) = (Inl e, fx', s', lks', w')" for config e fx' s' lks' w'
    using service_start_all [OF that assms(2)] by simp
  show "dormant (pr_service y)" "pr_locks y = pr_locks x"
    using eq assms(2) start by (auto simp: usage_def split: option.splits prod.splits if_splits sum.splits)
  fix config_path assume p: "parse_args args ([], False) = Some (config_path, True)"
  show "y = x" "fx = []"
    using eq p by (auto simp: usage_def split: if_splits sum.splits)
  show "code = 0 \<longleftrightarrow> config_path \<noteq> [] \<and>
      (\<exists>config. load_config_file config_path (read_file config_path) = Inr config \<and> check_config os config = Inr ())"
    using eq p by (auto simp: usage_def split: if_splits sum.splits)
qed

end
