(* ===== verification/Manager_Statements.thy ===== *)
theory Manager_Statements
  imports Manager_Runs Manager_Frame
begin

text \<open>
  The manager's threads, statement by statement. In the theory \<open>Manager_Laws\<close> the unlocked part of a
  worker's round and of a cancellation is one step. Here each of their calls is a step of its own,
  and \<open>update_state\<close> is two, its SELECT and its UPDATE, so that the statements of
  different threads on their own connections interleave in every way the code allows. The invariants that hold in
  all these interleavings are proved first, then the one that needs a job to be in the hands of
  one thread at a time, and the race that shows why.
\<close>

declare split_paired_All [simp del] split_paired_Ex [simp del]

section \<open>The statements of one thread\<close>

text \<open>What the thread that has the job \<open>k\<close> in its hands does next, with any arguments and on any
  connection: a call of the file layer, a query, a write, or one of the two statements of
  \<open>update_state\<close>. Beside the world: the job that an update has decided on and not yet written.\<close>

inductive own_op :: "string \<Rightarrow> world \<times> Job option \<Rightarrow> world \<times> Job option \<Rightarrow> bool" for k where
  opens_root: "open_root p w = (res, w') \<Longrightarrow> own_op k (w, None) (w', None)"
| classifies: "classify d n w = (res, w') \<Longrightarrow> own_op k (w, None) (w', None)"
| opens_file: "open_regular d n fi w = (res, w') \<Longrightarrow> own_op k (w, None) (w', None)"
| moves: "move_within sd sn dd dn st w = (res, w') \<Longrightarrow> own_op k (w, None) (w', None)"
| publishes_file: "publish d n nn w = (res, w') \<Longrightarrow> own_op k (w, None) (w', None)"
| loads: "load k c w = (res, w') \<Longrightarrow> own_op k (w, None) (w', None)"
| loads_retry: "load_retry_state k c w = (res, w') \<Longrightarrow> own_op k (w, None) (w', None)"
| attempts: "record_attempt k due msg c w = (res, w') \<Longrightarrow> own_op k (w, None) (w', None)"
| marks: "mark_needs_attention k msg c w = (res, w') \<Longrightarrow> own_op k (w, None) (w', None)"
| decides: "update_check k t now msg c w = (Inr job, w') \<Longrightarrow> own_op k (w, None) (w', Some job)"
| refuses: "update_check k t now msg c w = (Inl e, w') \<Longrightarrow> own_op k (w, None) (w', None)"
| writes: "update_write k job c w = (res, w') \<Longrightarrow> own_op k (w, Some job) (w', None)"

inductive_cases own_opE: "own_op k a b"

definition own_run :: "string \<Rightarrow> world \<Rightarrow> world \<Rightarrow> bool" where
  "own_run k w w' \<longleftrightarrow> (own_op k)\<^sup>*\<^sup>* (w, None) (w', None)"

lemma own_run_op: "own_op k (w, None) (w', None) \<Longrightarrow> own_run k w w'"
  unfolding own_run_def by blast

lemma own_run_update: "update_state k t now msg c w = (r, w') \<Longrightarrow> own_run k w w'"
proof -
  assume u: "update_state k t now msg c w = (r, w')"
  obtain cr w1 where c: "update_check k t now msg c w = (cr, w1)" by fastforce
  show ?thesis
  proof (cases cr)
    case (Inl e)
    then show ?thesis using u c own_op.refuses [of k t now msg c w e w1] by (auto simp: update_state_def intro: own_run_op)
  next
    case (Inr job)
    then have "own_op k (w, None) (w1, Some job)" "own_op k (w1, Some job) (w', None)"
      using u c by (auto simp: update_state_def intro: own_op.decides own_op.writes)
    then show ?thesis unfolding own_run_def by (meson converse_rtranclp_into_rtranclp r_into_rtranclp)
  qed
qed

interpretation stmts: engine_frame k "own_run k" for k
proof
  show "own_run k w w" for w by (simp add: own_run_def)
  show "own_run k u v \<Longrightarrow> own_run k v w \<Longrightarrow> own_run k u w" for u v w unfolding own_run_def by (rule rtranclp_trans)
qed (blast intro: own_run_op own_run_update own_op.intros)+

text \<open>So a worker's round and a cancellation are runs of such statements.\<close>

lemmas worker_statements = stmts.R_worker_record
lemmas cancel_statements = stmts.R_cancel_durable

section \<open>The two statements of an update\<close>

text \<open>The update that was decided is a legal step from what the row holds now.\<close>

definition due_update :: "world \<Rightarrow> string \<Rightarrow> Job \<Rightarrow> bool" where
  "due_update w k job \<longleftrightarrow> (\<exists>r s t now msg. db_find w (c_str k) = Some r \<and> r_state r = JobState_to_string s \<and>
     transition_ok s t msg \<and> job = snd (Job_transition t now msg (job_of_row r s)))"

lemma due_update_row: "db_find w' (c_str k) = db_find w (c_str k) \<Longrightarrow> due_update w' k job = due_update w k job"
  by (simp add: due_update_def)

definition written_row :: "Job \<Rightarrow> row \<Rightarrow> row" where
  "written_row job r = r\<lparr>r_state := JobState_to_string (job_state job), r_updated_at_ms := updated_at_ms job,
     r_finished_at_ms := finished_at_ms job, r_error := c_str (job_error job)\<rparr>"

lemma update_check_ticked: "update_check k t now msg c w = (res, w') \<Longrightarrow> ticked w w'"
  by (auto simp: update_check_def split: prod.splits sum.splits option.splits if_splits bool.splits dest: load_ticked)

lemma update_check_due:
  assumes "update_check k t now msg c w = (Inr job, w')"
  shows "due_update w k job"
proof -
  obtain lr w1 where l: "load k c w = (lr, w1)" by fastforce
  then obtain j where j: "lr = Inr (Some j)" "transition_ok (job_state j) t msg" "job = snd (Job_transition t now msg j)"
    using assms by (auto simp: update_check_def transition_refused split: prod.splits sum.splits option.splits if_splits bool.splits)
      (metis fst_conv snd_conv transition_result)+
  from load_found [OF l [unfolded j(1)]] obtain r s where "db_find w (c_str k) = Some r" "r_state r = JobState_to_string s" "j = job_of_row r s"
    by (auto simp: abs_job_def bind_eq_Some_conv job_tokens.dec_Some_iff)
  then show ?thesis using j(2,3) by (auto simp: due_update_def job_of_row_def)
qed

lemma update_write_cases:
  assumes "update_write k job c w = (res, w')"
  obtains (same) "ticked w w'"
  | (stored) r where "db_find w (c_str k) = Some r" "row_replaced (c_str k) (written_row job r) w w'"
proof -
  obtain m w1 where p: "sql_call w = (m, w1)" by fastforce
  note t = sql_call_ticked [OF p]
  have kk: "keeps_key (written_row job)" by (simp add: keeps_key_def written_row_def)
  show thesis
  proof (cases m)
    case None
    obtain ur w2 where u: "sql_update_job (c_str k) (written_row job) c w1 = (ur, w2)" by fastforce
    have "w' = w2"
      using assms p None u by (auto simp: update_write_def written_row_def [abs_def] split: sum.splits)
    with u t kk show thesis by (elim sql_update_job_cases) (auto intro: same stored)
  qed (use assms p t same in \<open>auto simp: update_write_def\<close>)
qed

lemma written_transition:
  "transition_ok s t msg \<Longrightarrow> written_row (snd (Job_transition t now msg (job_of_row r s))) r = transition_row t now msg r"
  by (simp add: transition_accepted written_row_def transition_row_def job_of_row_def)

section \<open>What every statement keeps\<close>

text \<open>A record is never lost, and its id, paths and time of creation stay.\<close>

definition same_job :: "Job \<Rightarrow> Job \<Rightarrow> bool" where
  "same_job j j' \<longleftrightarrow> job_id j' = job_id j \<and> source_path j' = source_path j \<and> dest_path j' = dest_path j \<and>
     created_at_ms j' = created_at_ms j"

definition jobs_kept :: "world \<Rightarrow> world \<Rightarrow> bool" where
  "jobs_kept w w' \<longleftrightarrow> (\<forall>k j. abs_job w k = Some j \<longrightarrow> (\<exists>j'. abs_job w' k = Some j' \<and> same_job j j')) \<and>
     seq_le (db_seq (w_db w)) (db_seq (w_db w'))"

definition store_sound :: "world \<Rightarrow> world \<Rightarrow> bool" where
  "store_sound w w' \<longleftrightarrow> (db_wf (w_db w) \<longrightarrow> w_dbfile w \<longrightarrow> db_wf (w_db w') \<and> w_dbfile w' \<and> jobs_kept w w')"

lemma jobs_kept_refl [simp]: "jobs_kept w w"
  by (simp add: jobs_kept_def same_job_def)

lemma same_job_trans: "same_job a b \<Longrightarrow> same_job b c \<Longrightarrow> same_job a c"
  and evolves_same: "job_evolves a b \<Longrightarrow> same_job a b"
  by (simp_all add: same_job_def job_evolves_def)

lemma jobs_kept_trans: "jobs_kept u v \<Longrightarrow> jobs_kept v w \<Longrightarrow> jobs_kept u w"
  unfolding jobs_kept_def by (meson same_job_trans seq_le_trans)

lemma records_jobs_kept: "records_kept w w' \<Longrightarrow> jobs_kept w w'"
  unfolding records_kept_def jobs_kept_def by (meson evolves_same)

lemma store_safe_sound: "store_safe w w' \<Longrightarrow> store_sound w w'"
  by (auto simp: store_safe_def store_sound_def intro: records_jobs_kept)

lemma recorded_jobs_kept: "jobs_kept w w' \<Longrightarrow> recorded w k \<Longrightarrow> recorded w' k"
  by (auto simp: recorded_def jobs_kept_def)

lemma update_write_sound:
  assumes "update_write k job c w = (r, w')"
  shows "store_sound w w'"
  using assms
proof (cases rule: update_write_cases)
  case (stored r)
  have st: "JobState_from_string (r_state (written_row job r)) = Some (job_state job)"
    by (simp add: written_row_def job_tokens.dec_enc)
  note ab = abs_job_replaced [OF stored(2) st]
  have "same_job j (job_of_row (written_row job r) (job_state job))" if "abs_job w (c_str k) = Some j" for j
    using that stored(1) by (auto simp: abs_job_def same_job_def job_of_row_def written_row_def)
  then have "jobs_kept w w'" using stored(2) by (auto simp: jobs_kept_def ab row_replaced_def same_job_def)
  then show ?thesis using stored(2) by (simp add: store_sound_def row_replaced_def)
qed (simp add: store_safe_sound store_safe_ticked)

text \<open>A statement other than the UPDATE of an update moves no record, and that one does not either if its
  decision still holds; a statement for the job \<open>k\<close> touches no row but the one of \<open>k\<close>.\<close>

lemma own_op_safe:
  assumes "own_op k (w, v) (w', v')" and "\<And>job. v = Some job \<Longrightarrow> due_update w k job"
  shows "store_safe w w'"
  using assms(1)
proof cases
  case (writes job c r)
  from writes(3) show ?thesis
  proof (cases rule: update_write_cases)
    case (stored r)
    obtain s t now msg where d: "r_state r = JobState_to_string s" "transition_ok s t msg"
        "job = snd (Job_transition t now msg (job_of_row r s))"
      using assms(2) writes(1) stored(1) by (auto simp: due_update_def)
    have "row_replaced (c_str k) (transition_row t now msg r) w w'"
      using stored(2) by (simp only: d(3) written_transition [OF d(2)])
    from store_safe_replaced [OF this records_kept_transition [OF this stored(1) d(1,2)]] show ?thesis .
  qed (rule store_safe_ticked)
qed (blast intro: fsops_safe store_safe_ticked load_ticked load_retry_state_ticked update_check_ticked
    record_attempt_safe mark_needs_attention_safe)+

lemma own_op_sound: "own_op k (w, v) (w', v') \<Longrightarrow> store_sound w w'"
proof -
  assume op: "own_op k (w, v) (w', v')"
  show ?thesis
  proof (cases v)
    case None
    with op show ?thesis by (intro store_safe_sound own_op_safe [OF op]) simp_all
  next
    case (Some job)
    with op show ?thesis by (auto elim!: own_opE intro: update_write_sound)
  qed
qed

lemma fsops_db:
  "open_root p w = (r1, w') \<Longrightarrow> w_db w' = w_db w"
  "classify d n w = (r2, w') \<Longrightarrow> w_db w' = w_db w"
  "open_regular d n fi w = (r3, w') \<Longrightarrow> w_db w' = w_db w"
  "move_within sd sn dd dn st w = (r4, w') \<Longrightarrow> w_db w' = w_db w"
  "publish d n nn w = (r5, w') \<Longrightarrow> w_db w' = w_db w"
  by (auto simp: open_root_def classify_def open_regular_def move_within_def publish_def Let_def
      split: prod.splits option.splits sum.splits if_splits MoveStrategy.splits dest!: sys_same)

lemma own_op_rows:
  assumes "own_op k (w, v) (w', v')" and "key \<noteq> c_str k"
  shows "db_find w' key = db_find w key"
proof -
  have t: "ticked w w' \<Longrightarrow> db_find w' key = db_find w key" by (simp add: db_find_ticked)
  have d: "w_db w' = w_db w \<Longrightarrow> db_find w' key = db_find w key" by (simp add: db_find_def)
  have r: "row_replaced (c_str k) r w w' \<Longrightarrow> db_find w' key = db_find w key" for r using assms(2) by (simp add: row_replaced_def)
  from assms(1) show ?thesis
    by cases (blast intro: t d r fsops_db load_ticked load_retry_state_ticked update_check_ticked
        elim: record_attempt_cases mark_needs_attention_cases update_write_cases)+
qed

lemma own_op_due:
  assumes "own_op k (w, v) (w', Some job)"
  shows "v = None \<and> due_update w' k job"
  using assms
proof cases
  case (decides t now msg c)
  have "db_find w' (c_str k) = db_find w (c_str k)" by (rule db_find_ticked [OF update_check_ticked [OF decides(2)]])
  from due_update_row [OF this, of job] update_check_due [OF decides(2)] decides(1) show ?thesis by simp
qed

section \<open>The machine\<close>

text \<open>The tasks that issue statements of their own, and their job. The system of the theory
  \<open>Manager_Laws\<close> is accompanied by the list of its open tasks, each with the update it has decided on.\<close>

fun opened :: "task \<Rightarrow> bool" where
  "opened (Working _ _ _ _ _) = True"
| "opened (Cancelling _ _) = True"
| "opened _ = False"

fun cancelling :: "task \<Rightarrow> bool" where
  "cancelling (Cancelling _ _) = True"
| "cancelling _ = False"

fun row_of :: "task \<Rightarrow> string" where
  "row_of (Working k _ _ _ _) = k"
| "row_of (Cancelling k _) = k"
| "row_of _ = []"

abbreviation open_tasks :: "system \<Rightarrow> task list" where
  "open_tasks x \<equiv> filter opened (sy_tasks x)"

type_synonym updates = "(task \<times> Job option) list"

text \<open>Every step of the system but the two that do a whole unlocked part at once; a single statement of an open
  task; the end of an open task, with any result. Commands share one connection and hold the
  store mutex: no cancellation issues a statement while another is inside an update.\<close>

inductive stmt_step :: "system \<times> updates \<Rightarrow> system \<times> updates \<Rightarrow> bool" where
  sections: "mgr_step x y \<Longrightarrow> open_tasks y = open_tasks x \<Longrightarrow> stmt_step (x, zs) (y, zs)"
| begins: "mgr_step x y \<Longrightarrow> open_tasks y = t # open_tasks x \<Longrightarrow> stmt_step (x, zs) (y, (t, None) # zs)"
| states: "zs = zl @ (t, v) # zr \<Longrightarrow> own_op (row_of t) (sy_world x, v) (w, v') \<Longrightarrow>
    cancelling t \<longrightarrow> (\<forall>z \<in> set (zl @ zr). cancelling (fst z) \<longrightarrow> snd z = None) \<Longrightarrow>
    stmt_step (x, zs) (x\<lparr>sy_world := w\<rparr>, zl @ (t, v') # zr)"
| work_ends: "sy_tasks x = l @ Working k req st now c # r \<Longrightarrow> zs = zl @ (Working k req st now c, None) # zr \<Longrightarrow>
    map fst zl = filter opened l \<Longrightarrow>
    stmt_step (x, zs) (x\<lparr>sy_tasks := l @ Settling k due # r\<rparr>, zl @ zr)"
| cancel_decided: "sy_tasks x = l @ Cancelling k was # r \<Longrightarrow> zs = zl @ (Cancelling k was, None) # zr \<Longrightarrow>
    map fst zl = filter opened l \<Longrightarrow>
    stmt_step (x, zs) (x\<lparr>sy_tasks := l @ CancelEnding k was out # r\<rparr>, zl @ zr)"

definition stmt_inv :: "world \<Rightarrow> system \<times> updates \<Rightarrow> bool" where
  "stmt_inv w0 s \<longleftrightarrow> (case s of (x, zs) \<Rightarrow> map fst zs = open_tasks x \<and> book_inv x \<and>
     db_wf (w_db (sy_world x)) \<and> w_dbfile (sy_world x) \<and> jobs_kept w0 (sy_world x) \<and>
     (\<forall>k \<in> known (sy_mgr x). recorded (sy_world x) k) \<and>
     (\<forall>k req. Publishing k req True \<in> set (sy_tasks x) \<longrightarrow> recorded (sy_world x) k))"

lemma stmt_inv_mgr:
  assumes "mgr_step x y" and "stmt_inv w0 (x, zs)" and "map fst zs' = open_tasks y"
  shows "stmt_inv w0 (y, zs')"
proof -
  have x: "book_inv x" "db_wf (w_db (sy_world x))" "w_dbfile (sy_world x)" "jobs_kept w0 (sy_world x)"
    using assms(2) by (simp_all add: stmt_inv_def)
  have s: "db_wf (w_db (sy_world y))" "w_dbfile (sy_world y)" "jobs_kept (sy_world x) (sy_world y)"
    using store_safe_sound [OF mgr_step_safe [OF assms(1)]] x by (simp_all add: store_sound_def)
  have old: "k \<in> known (sy_mgr x) \<or> Publishing k req True \<in> set (sy_tasks x) \<Longrightarrow> recorded (sy_world y) k" for k req
    using assms(2) by (intro recorded_jobs_kept [OF s(3)]) (auto simp: stmt_inv_def)
  have "recorded (sy_world y) k" if "k \<in> known (sy_mgr y)" for k
    using mgr_step_known [OF assms(1) x(1) that] old by blast
  moreover have "recorded (sy_world y) k" if "Publishing k req True \<in> set (sy_tasks y)" for k req
    using mgr_step_publishing [OF assms(1) that] old by blast
  moreover have "jobs_kept w0 (sy_world y)" using x(4) s(3) by (rule jobs_kept_trans)
  ultimately show ?thesis using s(1,2) book_inv_step [OF assms(1) x(1)] assms(3) by (auto simp: stmt_inv_def)
qed

lemma stmt_inv_world:
  assumes "store_sound (sy_world x) w" and "stmt_inv w0 (x, zs)" and "map fst zs' = map fst zs"
  shows "stmt_inv w0 (x\<lparr>sy_world := w\<rparr>, zs')"
proof -
  have s: "db_wf (w_db w)" "w_dbfile w" "jobs_kept (sy_world x) w"
    using assms(1,2) by (simp_all add: store_sound_def stmt_inv_def)
  have "jobs_kept w0 w" using assms(2) s(3) by (auto simp: stmt_inv_def intro: jobs_kept_trans)
  then show ?thesis
    using assms(2,3) s recorded_jobs_kept [OF s(3)] by (auto simp: stmt_inv_def book_inv_def)
qed

lemma stmt_inv_step:
  assumes "stmt_step a b" and "stmt_inv w0 a"
  shows "stmt_inv w0 b"
  using assms
proof cases
  case (sections x y zs)
  then show ?thesis using assms(2) stmt_inv_mgr [OF sections(3), of w0 zs zs] by (simp add: stmt_inv_def)
next
  case (begins x y t zs)
  then show ?thesis using assms(2) stmt_inv_mgr [OF begins(3), of w0 zs "(t, None) # zs"] by (simp add: stmt_inv_def)
next
  case (states zs zl t v zr x w v')
  then show ?thesis using assms(2) stmt_inv_world [OF own_op_sound [OF states(4)], of w0 zs "zl @ (t, v') # zr"] by simp
qed (use assms(2) in \<open>auto simp: stmt_inv_def book_inv_def\<close>)

interpretation stmt_sys: step_system stmt_step "stmt_inv w0" for w0
  by unfold_locales (rule stmt_inv_step)

text \<open>Nothing is left out: a step of the theory \<open>Manager_Laws\<close> is a run of this machine.\<close>

definition settled :: "system \<Rightarrow> updates \<Rightarrow> bool" where
  "settled x zs \<longleftrightarrow> map fst zs = open_tasks x \<and> (\<forall>z \<in> set zs. snd z = None)"

lemma stmt_own_run:
  assumes "(own_op (row_of t))\<^sup>*\<^sup>* (sy_world x, v) (w, v')" and "\<forall>z \<in> set (zl @ zr). snd z = None"
  shows "stmt_step\<^sup>*\<^sup>* (x, zl @ (t, v) # zr) (x\<lparr>sy_world := w\<rparr>, zl @ (t, v') # zr)"
  using assms(1)
proof (induction "(w, v')" arbitrary: w v' rule: rtranclp_induct)
  case (step b)
  obtain w1 v1 where b: "b = (w1, v1)" by fastforce
  from step.hyps(3) [OF b] have "stmt_step\<^sup>*\<^sup>* (x, zl @ (t, v) # zr) (x\<lparr>sy_world := w1\<rparr>, zl @ (t, v1) # zr)" .
  moreover have "stmt_step (x\<lparr>sy_world := w1\<rparr>, zl @ (t, v1) # zr) (x\<lparr>sy_world := w\<rparr>, zl @ (t, v') # zr)"
    using stmt_step.states [of "zl @ (t, v1) # zr" zl t v1 zr "x\<lparr>sy_world := w1\<rparr>" w v'] step.hyps(2) assms(2) b by simp
  ultimately show ?case by (rule rtranclp.rtrancl_into_rtrancl)
qed simp

lemma settled_split:
  assumes "settled x zs" and "sy_tasks x = l @ t # r" and "opened t"
  obtains zl zr where "zs = zl @ (t, None) # zr" "map fst zl = filter opened l" "\<forall>z \<in> set (zl @ zr). snd z = None"
    "map fst zr = filter opened r"
proof -
  have "map fst zs = filter opened l @ t # filter opened r" using assms by (simp add: settled_def)
  then obtain zl z zr where z: "zs = zl @ z # zr" "map fst zl = filter opened l" "fst z = t" "map fst zr = filter opened r"
    by (auto simp: map_eq_append_conv map_eq_Cons_conv)
  moreover have "snd z = None" "\<forall>z \<in> set (zl @ zr). snd z = None" using assms(1) z(1) by (auto simp: settled_def)
  ultimately show thesis using that [of zl zr] by (cases z) simp
qed

lemma mgr_step_open:
  "mgr_step x y \<Longrightarrow> length (open_tasks x) \<le> length (open_tasks y) \<Longrightarrow>
     open_tasks y = open_tasks x \<or> (\<exists>t. open_tasks y = t # open_tasks x)"
  by (elim mgr_stepE) (simp_all split: sum.splits option.splits)

lemma stmt_simulates:
  assumes "mgr_step x y" and "settled x zs"
  shows "\<exists>zs'. stmt_step\<^sup>*\<^sup>* (x, zs) (y, zs') \<and> settled y zs'"
proof -
  have locked: ?thesis if "open_tasks y = open_tasks x"
    using stmt_step.sections [OF assms(1) that, of zs] assms(2) that unfolding settled_def by (metis r_into_rtranclp)
  have starting: ?thesis if "open_tasks y = t # open_tasks x" for t
    using stmt_step.begins [OF assms(1) that, of zs] assms(2) that
    by (intro exI [of _ "(t, None) # zs"]) (auto simp: settled_def)
  have grows: ?thesis if "length (open_tasks x) \<le> length (open_tasks y)"
    using mgr_step_open [OF assms(1) that] locked starting by blast
  from assms(1) show ?thesis
  proof cases
    case (works l k req st now c r due out e w)
    obtain zl zr where z: "zs = zl @ (Working k req st now c, None) # zr" "map fst zl = filter opened l"
        "\<forall>z \<in> set (zl @ zr). snd z = None" "map fst zr = filter opened r"
      using settled_split [OF assms(2) works(2)] by (metis opened.simps(1))
    have run: "stmt_step\<^sup>*\<^sup>* (x, zs) (x\<lparr>sy_world := w\<rparr>, zs)"
      using stmt_own_run [OF _ z(3), of "Working k req st now c" x None w None] worker_statements [OF works(3)]
      by (simp add: own_run_def z(1))
    also have "stmt_step (x\<lparr>sy_world := w\<rparr>, zs) (y, zl @ zr)"
      using stmt_step.work_ends [of "x\<lparr>sy_world := w\<rparr>" l k req st now c r zs zl zr due] works z(1,2) by simp
    finally show ?thesis using z works by (intro exI [of _ "zl @ zr"]) (simp add: settled_def)
  next
    case (cancel_writes l k was r out e w)
    obtain zl zr where z: "zs = zl @ (Cancelling k was, None) # zr" "map fst zl = filter opened l"
        "\<forall>z \<in> set (zl @ zr). snd z = None" "map fst zr = filter opened r"
      using settled_split [OF assms(2) cancel_writes(2)] by (metis opened.simps(2))
    have run: "stmt_step\<^sup>*\<^sup>* (x, zs) (x\<lparr>sy_world := w\<rparr>, zs)"
      using stmt_own_run [OF _ z(3), of "Cancelling k was" x None w None] cancel_statements [OF cancel_writes(3)]
      by (simp add: own_run_def z(1))
    also have "stmt_step (x\<lparr>sy_world := w\<rparr>, zs) (y, zl @ zr)"
      using stmt_step.cancel_decided [of "x\<lparr>sy_world := w\<rparr>" l k was r zs zl zr out] cancel_writes z(1,2) by simp
    finally show ?thesis using z cancel_writes by (intro exI [of _ "zl @ zr"]) (simp add: settled_def)
  qed (rule grows, simp split: sum.splits option.splits)+
qed

text \<open>The behaviour of the other processes stays as it is.\<close>

lemma own_op_env: "own_op k (w, v) (w', v') \<Longrightarrow> env_kept w w'"
  by (erule own_opE) (blast intro: fsops_env store_env env_basic update_check_ticked elim: update_write_cases)+

lemma stmt_step_env: "stmt_step a b \<Longrightarrow> env_kept (sy_world (fst a)) (sy_world (fst b))"
  by (induction rule: stmt_step.induct) (simp_all add: mgr_step_env own_op_env)

section \<open>One thread per job\<close>

text \<open>No worker has the row of a job in its hands that another open task has too; several
  cancellations may. Under this condition a decided update still holds when it is written.\<close>

definition row_apart :: "task \<Rightarrow> task \<Rightarrow> bool" where
  "row_apart t u \<longleftrightarrow> (c_str (row_of t) = c_str (row_of u) \<longrightarrow> cancelling t \<and> cancelling u)"

definition calm_step :: "system \<times> updates \<Rightarrow> system \<times> updates \<Rightarrow> bool" where
  "calm_step a b \<longleftrightarrow> stmt_step a b \<and> sorted_wrt row_apart (open_tasks (fst b))"

definition clear :: "task \<times> Job option \<Rightarrow> task \<times> Job option \<Rightarrow> bool" where
  "clear a b \<longleftrightarrow> (c_str (row_of (fst a)) = c_str (row_of (fst b)) \<longrightarrow>
     cancelling (fst a) \<and> cancelling (fst b) \<and> (snd a = None \<or> snd b = None))"

definition calm_inv :: "world \<Rightarrow> system \<times> updates \<Rightarrow> bool" where
  "calm_inv w0 s \<longleftrightarrow> stmt_inv w0 s \<and> (case s of (x, zs) \<Rightarrow> records_kept w0 (sy_world x) \<and> sorted_wrt clear zs \<and>
     (\<forall>t job. (t, Some job) \<in> set zs \<longrightarrow> due_update (sy_world x) (row_of t) job))"

text \<open>Outside the statements of open tasks no row changes that is there.\<close>

lemma record_intent_rows:
  "record_intent job old c w = (res, w') \<Longrightarrow> db_find w key = Some r \<Longrightarrow> db_find w' key = Some r"
  by (erule record_intent_cases) (auto simp: db_find_def tickedD writtenD row_find_append)

lemma mgr_step_rows:
  assumes "mgr_step x y" and "w_dbfile (sy_world x)" and "length (open_tasks x) \<le> length (open_tasks y)"
    and "db_find (sy_world x) key = Some r"
  shows "db_find (sy_world y) key = Some r"
proof -
  have d: "db_jobs (w_db w) = db_jobs (w_db (sy_world x)) \<Longrightarrow> db_find w key = Some r" for w
    using assms(4) by (simp add: db_find_def)
  have t: "ticked (sy_world x) w \<Longrightarrow> db_find w key = Some r" for w using assms(4) by (simp add: db_find_ticked)
  from assms(1) show ?thesis
  proof cases
    case (starts pa res m w)
    then show ?thesis using assms(2,4)
      by (auto simp: start_def with_schema_def split: if_splits prod.splits sum.splits dest!: store_open_cases intro: d)
  next
    case (allocates n w)
    then show ?thesis using assms(4) by (auto dest!: next_sequence_cases simp: writtenD intro: t d)
  next
    case (works l k req st now c r' due out e w)
    then show ?thesis using assms(3) by simp
  next
    case (cancel_writes l k was r' out e w)
    then show ?thesis using assms(3) by simp
  qed (use assms(4) in \<open>auto dest: record_intent_rows load_ticked retry_check_ticked intro: t\<close>)
qed

lemma due_update_mgr:
  assumes "mgr_step x y" and "w_dbfile (sy_world x)" and "length (open_tasks x) \<le> length (open_tasks y)"
    and "due_update (sy_world x) k job"
  shows "due_update (sy_world y) k job"
  using assms(4) mgr_step_rows [OF assms(1-3)] unfolding due_update_def by blast

lemma stmt_inv_kept:
  assumes "mgr_step x y" and "stmt_inv w0 (x, zs)" and "records_kept w0 (sy_world x)"
  shows "records_kept w0 (sy_world y)" "w_dbfile (sy_world x)"
  using mgr_step_safe [OF assms(1)] assms(2,3) by (auto simp: store_safe_def stmt_inv_def intro: records_kept_trans)

lemma calm_states:
  assumes inv: "calm_inv w0 (x, zl @ (t, v) # zr)" and op: "own_op (row_of t) (sy_world x, v) (w, v')"
    and mutex: "cancelling t \<longrightarrow> (\<forall>z \<in> set (zl @ zr). cancelling (fst z) \<longrightarrow> snd z = None)"
    and b: "stmt_inv w0 (x\<lparr>sy_world := w\<rparr>, zl @ (t, v') # zr)"
  shows "calm_inv w0 (x\<lparr>sy_world := w\<rparr>, zl @ (t, v') # zr)"
proof -
  have c: "sorted_wrt clear (zl @ (t, v) # zr)" and due: "(u, Some job) \<in> set (zl @ (t, v) # zr) \<Longrightarrow> due_update (sy_world x) (row_of u) job" for u job
    using inv unfolding calm_inv_def prod.case by blast+
  have "store_safe (sy_world x) w" by (rule own_op_safe [OF op]) (use due in auto)
  then have kept: "records_kept w0 w" using inv by (auto simp: calm_inv_def stmt_inv_def store_safe_def intro: records_kept_trans)
  have other: "snd z = None" if z: "z \<in> set (zl @ zr)" "c_str (row_of (fst z)) = c_str (row_of t)" for z
  proof -
    have "clear z (t, v) \<or> clear (t, v) z" using c z(1) by (auto simp: sorted_wrt_append)
    then have "cancelling t \<and> cancelling (fst z)" using z(2) by (auto simp: clear_def)
    then show ?thesis using mutex z(1) by blast
  qed
  have "due_update w (row_of u) job" if u: "(u, Some job) \<in> set (zl @ (t, v') # zr)" for u job
  proof (cases "(u, Some job) \<in> set (zl @ zr)")
    case True
    then have "c_str (row_of u) \<noteq> c_str (row_of t)" using other by fastforce
    then have "db_find w (c_str (row_of u)) = db_find (sy_world x) (c_str (row_of u))" by (rule own_op_rows [OF op])
    from due_update_row [OF this] due [of u job] True show ?thesis by auto
  next
    case False
    with u have "u = t" "v' = Some job" by auto
    then show ?thesis using own_op_due op by blast
  qed
  moreover have "sorted_wrt clear (zl @ (t, v') # zr)"
    using c other by (fastforce simp: sorted_wrt_append clear_def)
  ultimately show ?thesis using b kept by (simp add: calm_inv_def)
qed

lemma calm_inv_step:
  assumes "calm_step a b" and "calm_inv w0 a"
  shows "calm_inv w0 b"
proof -
  have st: "stmt_step a b" and sole: "sorted_wrt row_apart (open_tasks (fst b))" and inv: "stmt_inv w0 a"
    using assms by (simp_all add: calm_step_def calm_inv_def)
  have b: "stmt_inv w0 b" by (rule stmt_inv_step [OF st inv])
  from st show ?thesis
  proof cases
    case (sections x y zs)
    have "records_kept w0 (sy_world y)" "w_dbfile (sy_world x)"
      using stmt_inv_kept [OF sections(3), of w0 zs] assms(2) sections(1) by (simp_all add: calm_inv_def)
    then show ?thesis using assms(2) b sections due_update_mgr [OF sections(3)] by (auto simp: calm_inv_def)
  next
    case (begins x y t zs)
    have "records_kept w0 (sy_world y)" "w_dbfile (sy_world x)"
      using stmt_inv_kept [OF begins(3), of w0 zs] assms(2) begins(1) by (simp_all add: calm_inv_def)
    moreover have "map fst zs = open_tasks x" using inv begins(1) by (simp add: stmt_inv_def)
    then have "\<forall>z \<in> set zs. clear (t, None) z"
      using sole begins(2,4) by (auto simp: row_apart_def clear_def simp flip: \<open>map fst zs = open_tasks x\<close>)
    ultimately show ?thesis using assms(2) b begins due_update_mgr [OF begins(3)] by (auto simp: calm_inv_def)
  next
    case (states zs zl t v zr x w v')
    with calm_states [of w0 x zl t v zr w v'] assms(2) b show ?thesis by simp
  qed (use assms(2) b in \<open>auto simp: calm_inv_def sorted_wrt_append\<close>)
qed

interpretation calm_sys: step_system calm_step "calm_inv w0" for w0
  by unfold_locales (rule calm_inv_step)

section \<open>A race\<close>

text \<open>The window of \<open>cancel_race_double_dispatch\<close>: the job is being cancelled, and a worker has it. Both
  read QUEUED; the cancellation writes FAILED, then the worker writes RENAMING.\<close>

definition race_worker :: task where "race_worker = Working ''j9'' mv_request RenameNoReplace 9 open_conn"
definition race_cancel :: task where "race_cancel = Cancelling ''j9'' True"

definition ru1 :: "Job res \<times> world" where "ru1 = update_check ''j9'' Renaming 6 [] open_conn rw2"
definition ru2 :: "Job res \<times> world" where
  "ru2 = update_check ''j9'' Failed 6 ''cancelled by operator'' (m_conn cm4) (snd ru1)"
definition ru3 :: "unit res \<times> world" where "ru3 = update_write ''j9'' (projr (fst ru2)) (m_conn cm4) (snd ru2)"
definition ru4 :: "unit res \<times> world" where "ru4 = update_write ''j9'' (projr (fst ru1)) open_conn (snd ru3)"

lemma race_updates:
  "update_check ''j9'' Renaming 6 [] open_conn rw2 = (Inr (projr (fst ru1)), snd ru1)"
  "update_check ''j9'' Failed 6 ''cancelled by operator'' (m_conn cm4) (snd ru1) = (Inr (projr (fst ru2)), snd ru2)"
  "fst ru3 = Inr ()" "fst ru4 = Inr ()"
  "durable_state (snd ru3) ''j9'' = Some Failed" "durable_state (snd ru4) ''j9'' = Some Renaming"
proof -
  have "\<not> isl (fst ru1)" "\<not> isl (fst ru2)" by code_simp+
  then show "update_check ''j9'' Renaming 6 [] open_conn rw2 = (Inr (projr (fst ru1)), snd ru1)"
    "update_check ''j9'' Failed 6 ''cancelled by operator'' (m_conn cm4) (snd ru1) = (Inr (projr (fst ru2)), snd ru2)"
    by (simp_all add: prod_eq_iff flip: ru1_def ru2_def)
  show "fst ru3 = Inr ()" "fst ru4 = Inr ()" by code_simp+
  show "durable_state (snd ru3) ''j9'' = Some Failed" "durable_state (snd ru4) ''j9'' = Some Renaming" by code_simp+
qed

lemma race_statements:
  "stmt_step\<^sup>*\<^sup>* (sys cm4 rw2 [race_worker, race_cancel], [(race_worker, None), (race_cancel, None)])
     (sys cm4 (snd ru3) [race_worker, race_cancel], [(race_worker, Some (projr (fst ru1))), (race_cancel, None)])"
  "stmt_step (sys cm4 (snd ru3) [race_worker, race_cancel], [(race_worker, Some (projr (fst ru1))), (race_cancel, None)])
     (sys cm4 (snd ru4) [race_worker, race_cancel], [(race_worker, None), (race_cancel, None)])"
proof -
  let ?s = "\<lambda>w. sys cm4 w [race_worker, race_cancel]" and ?a = "projr (fst ru1)" and ?b = "projr (fst ru2)"
  have worker: "own_op ''j9'' (w, v) (w', v') \<Longrightarrow> stmt_step (?s w, [(race_worker, v), (race_cancel, u)]) (?s w', [(race_worker, v'), (race_cancel, u)])" for w v w' v' u
    using stmt_step.states [of "[(race_worker, v), (race_cancel, u)]" "[]" race_worker v "[(race_cancel, u)]" "?s w" w' v']
    by (simp add: race_worker_def sys_def)
  have cancel: "own_op ''j9'' (w, v) (w', v') \<Longrightarrow> stmt_step (?s w, [(race_worker, u), (race_cancel, v)]) (?s w', [(race_worker, u), (race_cancel, v')])" for w v w' v' u
    using stmt_step.states [of "[(race_worker, u), (race_cancel, v)]" "[(race_worker, u)]" race_cancel v "[]" "?s w" w' v']
    by (simp add: race_worker_def race_cancel_def sys_def)
  have "stmt_step (?s rw2, [(race_worker, None), (race_cancel, None)]) (?s (snd ru1), [(race_worker, Some ?a), (race_cancel, None)])"
    by (rule worker [OF own_op.decides [OF race_updates(1)]])
  moreover have "stmt_step (?s (snd ru1), [(race_worker, Some ?a), (race_cancel, None)]) (?s (snd ru2), [(race_worker, Some ?a), (race_cancel, Some ?b)])"
    by (rule cancel [OF own_op.decides [OF race_updates(2)]])
  moreover have "stmt_step (?s (snd ru2), [(race_worker, Some ?a), (race_cancel, Some ?b)]) (?s (snd ru3), [(race_worker, Some ?a), (race_cancel, None)])"
    by (rule cancel [OF own_op.writes [where res = "fst ru3" and c = "m_conn cm4"]]) (simp add: ru3_def)
  ultimately show "stmt_step\<^sup>*\<^sup>* (?s rw2, [(race_worker, None), (race_cancel, None)]) (?s (snd ru3), [(race_worker, Some ?a), (race_cancel, None)])"
    by (meson converse_rtranclp_into_rtranclp r_into_rtranclp)
  show "stmt_step (?s (snd ru3), [(race_worker, Some ?a), (race_cancel, None)]) (?s (snd ru4), [(race_worker, None), (race_cancel, None)])"
    by (rule worker [OF own_op.writes [where res = "fst ru4" and c = open_conn]]) (simp add: ru4_def)
qed

lemma race_reaches:
  "stmt_step\<^sup>*\<^sup>* (fresh_system ''/db'' small_config mv_world, [])
     (sys cm4 rw2 [race_worker, race_cancel], [(race_worker, None), (race_cancel, None)])"
proof -
  have sec: "stmt_step (x, zs) (y, zs)" if "mgr_step x y" "open_tasks y = open_tasks x" for x y zs
    using that by (rule stmt_step.sections)
  have "stmt_step\<^sup>*\<^sup>* (sys rm0 mv_world [], []) (sys rm1 rw1 [], [])" by (rule r_into_rtranclp, rule sec [OF submit_run(1)]) simp
  also have "stmt_step (sys rm1 rw1 [], []) (sys rm2 rw1 [Recording ''j9'' mv_request 5 []], [])" by (rule sec [OF submit_run(2)]) simp
  also have "stmt_step (sys rm2 rw1 [Recording ''j9'' mv_request 5 []], []) (sys rm2 rw2 [Publishing ''j9'' mv_request True], [])"
    by (rule sec [OF submit_run(3)]) simp
  also have "stmt_step (sys rm2 rw2 [Publishing ''j9'' mv_request True], []) (sys rm3 rw2 [], [])" by (rule sec [OF submit_run(4)]) simp
  also have "stmt_step (sys rm3 rw2 [], []) (sys cm1 rw2 [race_cancel], [(race_cancel, None)])"
    unfolding race_cancel_def by (rule stmt_step.begins [OF sys_steps(7) [OF race_guards(1)]]) simp
  also have "stmt_step (sys cm1 rw2 [race_cancel], [(race_cancel, None)]) (sys cm2 rw2 [race_cancel], [(race_cancel, None)])"
    by (rule sec [OF sys_steps(5) [OF race_guards(2)]]) simp
  also have "stmt_step (sys cm2 rw2 [race_cancel], [(race_cancel, None)]) (sys cm3 rw2 [race_cancel], [(race_cancel, None)])"
    by (rule sec [OF sys_steps(6) [OF race_guards(3)]]) simp
  also have "stmt_step (sys cm3 rw2 [race_cancel], [(race_cancel, None)]) (sys cm4 rw2 [race_worker, race_cancel], [(race_worker, None), (race_cancel, None)])"
    unfolding race_worker_def by (rule stmt_step.begins [OF sys_steps(10) [OF _ race_guards(4)]]) (simp_all add: race_guards(5))
  finally show ?thesis by (simp only: fresh_sys)
qed

section \<open>Properties\<close>

text \<open>C5. Statement by statement, whatever the interleaving of commands and workers and whatever calls fail
  (L2-JOB-013): the table stays well formed; no durable record is lost, and the id, the
  paths and the time of creation of each stay; every job the manager knows, and so every job a
  worker can be given, has its intent recorded durably; an id being submitted is claimed by
  exactly one command and is not yet known; and only known jobs are queued, waiting, paused
  or active. As long as no worker holds a job that another worker or an undecided cancellation
  holds too, records also only move forward along the legal transitions and a finished record never changes;
  without this restriction they do not (\<open>cancelled_job_revived\<close>). The steps are the manager's critical
  sections and the single statements of the unlocked parts (\<open>stmt_simulates\<close>).\<close>

theorem manager_run_safety:
  assumes "stmt_step\<^sup>*\<^sup>* (fresh_system path cfg w, []) (y, zs)" and "db_wf (w_db w)" and "w_dbfile w"
  shows "db_wf (w_db (sy_world y)) \<and> jobs_kept w (sy_world y) \<and>
    (\<forall>k. m_requests (sy_mgr y) k \<noteq> None \<longrightarrow> (\<exists>j. abs_job (sy_world y) (c_str k) = Some j)) \<and>
    distinct (of_tasks claim_of y) \<and> set (of_tasks claim_of y) = m_pending (sy_mgr y) \<and>
    (\<forall>k \<in> m_pending (sy_mgr y). m_requests (sy_mgr y) k = None) \<and>
    (\<forall>k \<in> dispatched (sy_mgr y). m_requests (sy_mgr y) k \<noteq> None) \<and>
    (calm_step\<^sup>*\<^sup>* (fresh_system path cfg w, []) (y, zs) \<longrightarrow> records_kept w (sy_world y))"
proof -
  let ?s = "(fresh_system path cfg w, [])"
  have "open_tasks (fresh_system path cfg w) = []" by (simp add: fresh_system_def)
  then have s: "stmt_inv w ?s" "calm_inv w ?s"
    using fresh_inv(1) [OF assms(2,3), of path cfg]
    by (auto simp: stmt_inv_def calm_inv_def mgr_inv_def rec_inv_def fresh_system_def)
  have inv: "stmt_inv w (y, zs)" by (rule stmt_sys.inv_reach [OF assms(1) s(1)])
  then have b: "book_inv y" by (simp add: stmt_inv_def)
  have "dispatched (sy_mgr y) \<subseteq> known (sy_mgr y)" "m_pending (sy_mgr y) \<inter> known (sy_mgr y) = {}"
    using b by (simp_all add: book_inv_def)
  moreover have "\<forall>k \<in> known (sy_mgr y). \<exists>j. abs_job (sy_world y) (c_str k) = Some j"
    using inv by (simp add: stmt_inv_def recorded_def)
  moreover have "calm_step\<^sup>*\<^sup>* ?s (y, zs) \<longrightarrow> records_kept w (sy_world y)"
    using calm_sys.inv_reach [OF _ s(2)] by (auto simp: calm_inv_def)
  ultimately show ?thesis using b inv
    unfolding book_inv_def stmt_inv_def known_iff by (simp add: subset_eq disjoint_iff)
qed

theorem manager_run_safety_witness:
  "\<exists>y zs j. stmt_step\<^sup>*\<^sup>* (fresh_system ''/db'' small_config mv_world, []) (y, zs) \<and> m_requests (sy_mgr y) ''j9'' \<noteq> None \<and>
     abs_job (sy_world y) ''j9'' = Some j \<and> jobs_kept mv_world (sy_world y)"
proof -
  have run: "stmt_step\<^sup>*\<^sup>* (fresh_system ''/db'' small_config mv_world, [])
      (sys cm4 (snd ru4) [race_worker, race_cancel], [(race_worker, None), (race_cancel, None)])"
    using race_reaches race_statements by (meson rtranclp.rtrancl_into_rtrancl rtranclp_trans)
  have "db_wf (w_db mv_world)" "w_dbfile mv_world" using demo_world_facts(1) by simp_all
  note safe = manager_run_safety [OF run this]
  have "c_str ''j9'' = ''j9''" "m_requests cm4 ''j9'' \<noteq> None" by code_simp+
  moreover from this safe obtain j where "abs_job (snd ru4) ''j9'' = Some j" by auto
  ultimately show ?thesis using run safe
    by (intro exI [of _ "sys cm4 (snd ru4) [race_worker, race_cancel]"]) auto
qed

text \<open>The restriction is needed: there is a run without any failing call in which a job is cancelled
  durably, its record FAILED and finished, and the next statement, of the worker that has the job
  too, makes the record RENAMING.\<close>

theorem cancelled_job_revived:
  "\<exists>a b. stmt_step\<^sup>*\<^sup>* (fresh_system ''/db'' small_config mv_world, []) a \<and> stmt_step a b \<and> fault_free mv_world \<and>
     durable_state (sy_world (fst a)) ''j9'' = Some Failed \<and> durable_state (sy_world (fst b)) ''j9'' = Some Renaming"
proof -
  have "stmt_step\<^sup>*\<^sup>* (fresh_system ''/db'' small_config mv_world, [])
      (sys cm4 (snd ru3) [race_worker, race_cancel], [(race_worker, Some (projr (fst ru1))), (race_cancel, None)])"
    by (rule rtranclp_trans [OF race_reaches race_statements(1)])
  moreover have "fault_free mv_world" by simp
  ultimately show ?thesis using race_statements(2) race_updates(5,6) by fastforce
qed

end
