(* ===== verification/Service_Runs.thy ===== *)
theory Service_Runs
  imports Service_Laws Manager_Statements
begin

text \<open>
  Several instances of the daemon over one machine: each starts and stops in the pieces of the theory
  \<open>Service\<close>, its manager's threads take steps whenever there is a manager, statement by statement as
  in the theory \<open>Manager_Statements\<close>, and a process may die at any point, which frees its locks. All
  instances are configured with the same database, which is the one the world has.
\<close>

declare split_paired_All [simp del] split_paired_Ex [simp del]

section \<open>The machine\<close>

datatype stage = Down | Locked Config | Wired Config | Managed Config | Opened Config | Up | Draining | Unbound | Ending

text \<open>The tasks of an instance's threads, and the updates they have decided on.\<close>

type_synonym threads = "task list \<times> updates"

definition no_tasks :: threads where
  "no_tasks = ([], [])"

definition running :: "manager \<Rightarrow> world \<Rightarrow> threads \<Rightarrow> system \<times> updates" where
  "running m w ts = (sys m w (fst ts), snd ts)"

record machine =
  mc_service :: "nat \<Rightarrow> service"
  mc_stage :: "nat \<Rightarrow> stage"
  mc_tasks :: "nat \<Rightarrow> threads"
  mc_locks :: locks
  mc_world :: world

definition at_instance :: "nat \<Rightarrow> service \<Rightarrow> stage \<Rightarrow> threads \<Rightarrow> locks \<Rightarrow> world \<Rightarrow> machine \<Rightarrow> machine" where
  "at_instance i s st ts lks w x =
     \<lparr>mc_service = (mc_service x)(i := s), mc_stage = (mc_stage x)(i := st), mc_tasks = (mc_tasks x)(i := ts),
      mc_locks = lks, mc_world = w\<rparr>"

definition after :: "unit res \<Rightarrow> stage \<Rightarrow> stage" where
  "after r st = (case r of Inl _ \<Rightarrow> Down | Inr _ \<Rightarrow> st)"

definition free_locks :: "nat \<Rightarrow> locks \<Rightarrow> locks" where
  "free_locks i lks = (\<lambda>ob. if lks ob = Some i then None else lks ob)"

inductive svc_step :: "string \<Rightarrow> machine \<Rightarrow> machine \<Rightarrow> bool" for path where
  locks: "mc_stage x i = Down \<Longrightarrow> os_pid os = i \<Longrightarrow> storage_database_path cfg = path \<Longrightarrow>
    service_start_lock os cfg (mc_service x i) (mc_locks x) (mc_world x) = (r, s, lks, w) \<Longrightarrow>
    svc_step path x (at_instance i s (after r (Locked cfg)) no_tasks lks w x)"
| logs: "mc_stage x i = Locked cfg \<Longrightarrow> service_start_log cfg (mc_service x i) (mc_locks x) = (r, s, lks) \<Longrightarrow>
    svc_step path x (at_instance i s (after r (Wired cfg)) no_tasks lks (mc_world x) x)"
| manages: "mc_stage x i = Wired cfg \<Longrightarrow>
    service_start_manager os cfg (mc_service x i) (mc_locks x) (mc_world x) = (r, s, lks, w) \<Longrightarrow>
    svc_step path x (at_instance i s (after r (Managed cfg)) no_tasks lks w x)"
| opens: "mc_stage x i = Managed cfg \<Longrightarrow> service_start_server os cfg (mc_service x i) (mc_locks x) = (r, fx, s, lks) \<Longrightarrow>
    (\<exists>u. r = Inr u) \<or> mc_tasks x i = no_tasks \<Longrightarrow>
    svc_step path x (at_instance i s (after r (Opened cfg)) (mc_tasks x i) lks (mc_world x) x)"
| announces: "mc_stage x i = Opened cfg \<Longrightarrow> service_start_announce os cfg (mc_service x i) = (fx, s) \<Longrightarrow>
    svc_step path x (at_instance i s Up (mc_tasks x i) (mc_locks x) (mc_world x) x)"
| works: "sd_manager (mc_service x i) = Some m \<Longrightarrow>
    stmt_step (running m (mc_world x) (mc_tasks x i)) (running m' w ts) \<Longrightarrow>
    svc_step path x (at_instance i ((mc_service x i)\<lparr>sd_manager := Some m'\<rparr>) (mc_stage x i) ts (mc_locks x) w x)"
| stop_begins: "mc_stage x i = Up \<Longrightarrow> service_stop_begin os (mc_service x i) = (fx, s) \<Longrightarrow>
    svc_step path x (at_instance i s Draining (mc_tasks x i) (mc_locks x) (mc_world x) x)"
| server_stops: "mc_stage x i = Draining \<Longrightarrow> service_stop_server (mc_service x i) = (fx, s) \<Longrightarrow>
    svc_step path x (at_instance i s Unbound (mc_tasks x i) (mc_locks x) (mc_world x) x)"
| manager_stops: "mc_stage x i = Unbound \<Longrightarrow>
    svc_step path x (at_instance i (service_stop_manager (mc_service x i)) Unbound (mc_tasks x i) (mc_locks x) (mc_world x) x)"
| manager_goes: "mc_stage x i = Unbound \<Longrightarrow> mc_tasks x i = no_tasks \<Longrightarrow>
    svc_step path x (at_instance i (service_drop_manager (mc_service x i)) Ending no_tasks (mc_locks x) (mc_world x) x)"
| releases: "mc_stage x i = Ending \<Longrightarrow> release_all (mc_service x i) (mc_locks x) = (s, lks) \<Longrightarrow>
    svc_step path x (at_instance i s Down no_tasks lks (mc_world x) x)"
| dies: "svc_step path x (at_instance i new_service Down no_tasks (free_locks i (mc_locks x)) (mc_world x) x)"

section \<open>The invariant\<close>

fun has_manager :: "stage \<Rightarrow> bool" where
  "has_manager (Managed _) = True"
| "has_manager (Opened _) = True"
| "has_manager Up = True"
| "has_manager Draining = True"
| "has_manager Unbound = True"
| "has_manager _ = False"

fun has_socket :: "stage \<Rightarrow> bool" where
  "has_socket (Opened _) = True"
| "has_socket Up = True"
| "has_socket Draining = True"
| "has_socket _ = False"

fun has_sink :: "stage \<Rightarrow> bool" where
  "has_sink Down = False"
| "has_sink (Locked _) = False"
| "has_sink _ = True"

text \<open>What the fields of a service are at each stage.\<close>

definition stage_ok :: "stage \<Rightarrow> service \<Rightarrow> bool" where
  "stage_ok st s \<longleftrightarrow> (sd_lock s = None \<longleftrightarrow> st = Down) \<and> (sd_manager s = None \<longleftrightarrow> \<not> has_manager st) \<and>
     (p_running (sd_server s) \<longleftrightarrow> has_socket st) \<and> (sd_running s \<longleftrightarrow> has_socket st \<and> st \<noteq> Draining) \<and>
     p_subscribers (sd_events s) = (if has_sink st then [log_sink] else [])"

definition world_ok :: "world \<Rightarrow> world \<Rightarrow> bool" where
  "world_ok w0 w \<longleftrightarrow> quiet w \<and> db_wf (w_db w) \<and> w_dbfile w \<and> jobs_kept w0 w"

text \<open>The locks of the kernel and of the services agree, and everyone who holds one holds the lock
  file of the database.\<close>

definition locks_ok :: "string \<Rightarrow> machine \<Rightarrow> bool" where
  "locks_ok path x \<longleftrightarrow> (\<forall>i ob. sd_lock (mc_service x i) = Some ob \<longleftrightarrow> mc_locks x ob = Some i) \<and>
     (\<forall>i ob. sd_lock (mc_service x i) = Some ob \<longrightarrow> lock_file_at path (mc_world x) ob)"

definition svc_inv :: "string \<Rightarrow> world \<Rightarrow> machine \<Rightarrow> bool" where
  "svc_inv path w0 x \<longleftrightarrow> world_ok w0 (mc_world x) \<and> locks_ok path x \<and> (\<forall>i. stage_ok (mc_stage x i) (mc_service x i)) \<and>
     (\<forall>i m. sd_manager (mc_service x i) = Some m \<longrightarrow> stmt_inv w0 (running m (mc_world x) (mc_tasks x i)))"

lemma one_holder_only:
  assumes "locks_ok path x" "sd_lock (mc_service x i) \<noteq> None" "sd_lock (mc_service x j) \<noteq> None"
  shows "i = j"
proof -
  obtain a b where "sd_lock (mc_service x i) = Some a" "sd_lock (mc_service x j) = Some b" using assms(2,3) by auto
  with assms(1) show ?thesis unfolding locks_ok_def by (metis lock_file_unique option.inject)
qed

lemma manager_holds: "stage_ok st s \<Longrightarrow> sd_manager s \<noteq> None \<Longrightarrow> sd_lock s \<noteq> None"
  by (auto simp: stage_ok_def)

lemma stmt_inv_same_db:
  "w_db w' = w_db w \<Longrightarrow> w_dbfile w' = w_dbfile w \<Longrightarrow> stmt_inv w0 (running m w ts) \<Longrightarrow> stmt_inv w0 (running m w' ts)"
  using abs_job_db [of w' w] by (auto simp: stmt_inv_def running_def book_inv_def recorded_def jobs_kept_def)

text \<open>A step of instance \<open>i\<close> in general: what it has to establish.\<close>

lemma svc_inv_instance:
  assumes "svc_inv path w0 x" and "stage_ok st s" and "locks_ok path (at_instance i s st ts lks w x)" and "world_ok w0 w"
    and "\<And>m. sd_manager s = Some m \<Longrightarrow> stmt_inv w0 (running m w ts)"
    and "(\<exists>ob. sd_lock (mc_service x i) = Some ob) \<or> w_db w = w_db (mc_world x) \<and> w_dbfile w = w_dbfile (mc_world x)"
  shows "svc_inv path w0 (at_instance i s st ts lks w x)"
proof -
  have others: "stmt_inv w0 (running m w (mc_tasks x j))" if j: "j \<noteq> i" "sd_manager (mc_service x j) = Some m" for j m
  proof -
    have "sd_lock (mc_service x j) \<noteq> None" using assms(1) j(2) manager_holds by (auto simp: svc_inv_def)
    then have "sd_lock (mc_service x i) = None" using one_holder_only j(1) assms(1) by (metis svc_inv_def)
    then have "w_db w = w_db (mc_world x)" "w_dbfile w = w_dbfile (mc_world x)" using assms(6) by simp_all
    then show ?thesis using assms(1) j(2) by (auto simp: svc_inv_def intro: stmt_inv_same_db)
  qed
  show ?thesis
    unfolding svc_inv_def
  proof (intro conjI allI impI)
    fix j m assume "sd_manager (mc_service (at_instance i s st ts lks w x) j) = Some m"
    then show "stmt_inv w0 (running m (mc_world (at_instance i s st ts lks w x)) (mc_tasks (at_instance i s st ts lks w x) j))"
      using assms(5) others [of j m] by (cases "j = i") (simp_all add: at_instance_def)
  qed (use assms(1-4) in \<open>simp_all add: at_instance_def svc_inv_def\<close>)
qed

section \<open>The locks\<close>

lemma locks_same:
  assumes "locks_ok path x" "sd_lock s = sd_lock (mc_service x i)"
    "\<And>ob. lock_file_at path (mc_world x) ob \<Longrightarrow> lock_file_at path w ob"
  shows "locks_ok path (at_instance i s st ts (mc_locks x) w x)"
  using assms by (auto simp: locks_ok_def at_instance_def)

lemma locks_taken:
  assumes "locks_ok path x" "sd_lock (mc_service x i) = None" "mc_locks x ob = None" "sd_lock s = Some ob" "lock_file_at path w ob"
    "\<And>ob. lock_file_at path (mc_world x) ob \<Longrightarrow> lock_file_at path w ob"
  shows "locks_ok path (at_instance i s st ts ((mc_locks x)(ob \<mapsto> i)) w x)"
proof -
  have "mc_locks x ob' \<noteq> Some i" for ob' using assms(1,2) by (metis locks_ok_def option.distinct(1))
  then show ?thesis using assms by (auto simp: locks_ok_def at_instance_def)
qed

lemma locks_freed:
  assumes "locks_ok path x" "sd_lock s = None"
    "\<And>ob. lock_file_at path (mc_world x) ob \<Longrightarrow> lock_file_at path w ob"
  shows "locks_ok path (at_instance i s st ts (free_locks i (mc_locks x)) w x)"
  using assms by (auto simp: locks_ok_def at_instance_def free_locks_def)

lemma free_locks_held:
  assumes "locks_ok path x" "sd_lock (mc_service x i) = Some ob"
  shows "(mc_locks x)(ob := None) = free_locks i (mc_locks x)"
  using assms by (auto simp: free_locks_def fun_eq_iff locks_ok_def) (metis option.inject)+

lemma lock_file_fs: "w_fs w' = w_fs w \<Longrightarrow> lock_file_at path w' = lock_file_at path w"
  by (auto simp: lock_file_at_def fun_eq_iff)

lemma world_ok_lock: "world_ok w0 w \<Longrightarrow> lock_frame w w' \<Longrightarrow> world_ok w0 w'"
  using lock_frame_quiet [of w w'] abs_job_db [of w' w] by (auto simp: world_ok_def lock_frame_def jobs_kept_def)

lemma start_lock_result:
  assumes "service_start_lock os cfg s lks w = (r, s', lks', w')" "stage_ok Down s" "quiet w"
  obtains (refused) e where "r = Inl e" "s' = s" "lks' = lks" "lock_frame w w'"
  | (taken) ob where "r = Inr ()" "s' = s\<lparr>sd_lock := Some ob\<rparr>" "lks ob = None" "lks' = lks(ob \<mapsto> os_pid os)"
      "lock_file_at (storage_database_path cfg) w' ob" "lock_frame w w'"
proof -
  have idle: "\<not> sd_running s" "sd_lock s = None" using assms(2) by (auto simp: stage_ok_def)
  show thesis
  proof (cases "check_config os cfg")
    case (Inl e)
    then show thesis using assms(1) idle by (intro refused [of e]) (auto simp: service_start_lock_def)
  next
    case (Inr u)
    obtain rr l lks1 w1 where a: "lock_acquire (os_pid os) (storage_database_path cfg) (os_lock_inode os) (os_lock_error os) None lks w
        = (rr, l, lks1, w1)" by (metis prod.collapse)
    have out: "r = rr" "s' = s\<lparr>sd_lock := l\<rparr>" "lks' = lks1" "w' = w1"
      using assms(1) Inr a idle by (auto simp: service_start_lock_def)
    note fr = lock_acquire_frame [OF a assms(3)]
    from a show thesis
    proof (cases rule: lock_acquire_cases)
      case (refused e)
      then show thesis using out fr idle(2) that(1) [of e] by (cases s) simp
    next
      case (taken d n dir w2 fd)
      have env: "w_env w = (\<lambda>_ fs. fs)" using assms(3) by (simp add: quiet_env)
      from lock_acquire_file [OF a [unfolded taken(1,3)] env] show thesis
        using taken out fr by (intro that(2) [of fd]) simp_all
    qed
  qed
qed

section \<open>Preservation\<close>

lemma fresh_manager_inv:
  assumes "world_ok w0 w"
  shows "stmt_inv w0 (running (set_event_publisher True (new_manager path cfg)) w no_tasks)"
proof -
  let ?m = "set_event_publisher True (new_manager path cfg)"
  have "known ?m = {}" by (simp add: known_def set_event_publisher_def new_manager_def del: known_simps)
  moreover have "m_runnable ?m = []" "m_waiting ?m = []" "m_paused ?m = {}" "m_active ?m = {}" "m_pending ?m = {}"
    by (simp_all add: set_event_publisher_def new_manager_def)
  ultimately show ?thesis
    using assms by (simp add: world_ok_def stmt_inv_def running_def no_tasks_def book_inv_def dispatched_def)
qed

lemma world_ok_step:
  assumes "stmt_step (running m w ts) (running m' w' ts')" "stmt_inv w0 (running m w ts)" "world_ok w0 w"
  shows "stmt_inv w0 (running m' w' ts')" "world_ok w0 w'"
proof -
  show inv: "stmt_inv w0 (running m' w' ts')" by (rule stmt_sys.inv_step [OF assms(2,1)])
  have "env_kept w w'" using stmt_step_env [OF assms(1)] by (simp add: running_def)
  from env_kept_quiet [OF this] assms(3) inv show "world_ok w0 w'" by (simp add: world_ok_def stmt_inv_def running_def)
qed

lemma start_world:
  assumes "start pa (set_event_publisher True (new_manager path cfg)) w = (r, m, w')" "world_ok w0 w"
  shows "stmt_inv w0 (running m w' no_tasks)" "world_ok w0 w'" "w_fs w' = w_fs w"
proof -
  have "stmt_step (running (set_event_publisher True (new_manager path cfg)) w no_tasks) (running m w' no_tasks)"
    unfolding running_def by (rule stmt_step.sections [OF sys_steps(1) [OF assms(1)]]) simp
  from world_ok_step [OF this fresh_manager_inv [OF assms(2)] assms(2)]
  show "stmt_inv w0 (running m w' no_tasks)" "world_ok w0 w'" by simp_all
  show "w_fs w' = w_fs w" using start_fs [OF assms(1)] assms(2) by (simp add: world_ok_def)
qed

lemma release_all_result:
  assumes "release_all s lks = (s', lks')" "sd_lock s = Some ob"
  shows "lks' = lks(ob := None)" "sd_lock s' = None" "sd_manager s' = sd_manager s" "sd_server s' = sd_server s"
    "sd_running s' = sd_running s" "p_subscribers (sd_events s') = remove1 log_sink (p_subscribers (sd_events s))"
  using assms by (auto simp: release_all_def lock_release_def unsubscribe_remove_def)

lemma after_simps [simp]: "after (Inl e) st = Down" "after (Inr u) st = st"
  by (simp_all add: after_def)

text \<open>A failure path, and the end of \<open>stop\<close>: everything is given back.\<close>

lemma svc_inv_released:
  assumes "svc_inv path w0 x" "sd_lock (mc_service x i) = Some ob" "sd_lock s0 = Some ob" "release_all s0 (mc_locks x) = (s, lks)"
    and "sd_manager s0 = None" "\<not> p_running (sd_server s0)" "\<not> sd_running s0"
    and "p_subscribers (sd_events s0) = [log_sink]" and "world_ok w0 w" and "w_fs w = w_fs (mc_world x)"
  shows "svc_inv path w0 (at_instance i s Down ts lks w x)"
proof -
  note rel = release_all_result [OF assms(4,3)]
  have lo: "locks_ok path x" using assms(1) by (simp add: svc_inv_def)
  have lks: "lks = free_locks i (mc_locks x)" using rel(1) free_locks_held [OF lo assms(2)] by simp
  have "locks_ok path (at_instance i s Down ts lks w x)"
    unfolding lks by (rule locks_freed [OF lo rel(2)]) (simp add: lock_file_fs [OF assms(10)])
  moreover have "stage_ok Down s" using rel assms(5-8) by (simp add: stage_ok_def)
  ultimately show ?thesis
    by (intro svc_inv_instance [OF assms(1)]) (use assms rel in simp_all)
qed

text \<open>A step of one instance that touches neither locks nor the world.\<close>

lemma svc_inv_local:
  assumes "svc_inv path w0 x" "stage_ok st s" "sd_lock s = sd_lock (mc_service x i)"
    and "\<And>m. sd_manager s = Some m \<Longrightarrow> stmt_inv w0 (running m (mc_world x) ts)"
  shows "svc_inv path w0 (at_instance i s st ts (mc_locks x) (mc_world x) x)"
  by (intro svc_inv_instance [OF assms(1,2)] locks_same)
    (use assms(1,3,4) in \<open>simp_all add: svc_inv_def\<close>)

lemma stage_holds: "svc_inv path w0 x \<Longrightarrow> mc_stage x i \<noteq> Down \<Longrightarrow> \<exists>ob. sd_lock (mc_service x i) = Some ob"
  by (auto simp: svc_inv_def stage_ok_def)

lemma locks_inv:
  assumes "svc_inv path w0 x" "mc_stage x i = Down" "os_pid os = i" "storage_database_path cfg = path"
    "service_start_lock os cfg (mc_service x i) (mc_locks x) (mc_world x) = (r, s, lks, w)"
  shows "svc_inv path w0 (at_instance i s (after r (Locked cfg)) no_tasks lks w x)"
proof -
  have ok: "stage_ok Down (mc_service x i)" "quiet (mc_world x)" "locks_ok path x" "world_ok w0 (mc_world x)"
    using assms(1,2) by (auto simp: svc_inv_def world_ok_def) (metis)
  from assms(5) ok(1,2) show ?thesis
  proof (cases rule: start_lock_result)
    case (refused e)
    have "locks_ok path (at_instance i s Down no_tasks (mc_locks x) w x)"
      by (rule locks_same [OF ok(3)]) (use refused lock_frame_file in auto)
    then show ?thesis
      using refused ok by (intro svc_inv_instance [OF assms(1)])
        (auto simp: stage_ok_def lock_frame_def intro: world_ok_lock)
  next
    case (taken ob)
    have "locks_ok path (at_instance i s (Locked cfg) no_tasks ((mc_locks x)(ob \<mapsto> i)) w x)"
      by (rule locks_taken [OF ok(3)]) (use taken assms(4) ok(1) lock_frame_file in \<open>auto simp: stage_ok_def\<close>)
    then show ?thesis
      using taken ok assms(3) by (intro svc_inv_instance [OF assms(1)])
        (auto simp: stage_ok_def lock_frame_def intro: world_ok_lock)
  qed
qed

lemma logs_inv:
  assumes "svc_inv path w0 x" "mc_stage x i = Locked cfg" "service_start_log cfg (mc_service x i) (mc_locks x) = (r, s, lks)"
  shows "svc_inv path w0 (at_instance i s (after r (Wired cfg)) no_tasks lks (mc_world x) x)"
proof -
  have ok: "stage_ok (Locked cfg) (mc_service x i)" using assms(1,2) unfolding svc_inv_def by metis
  then have "r = Inr ()" "lks = mc_locks x" "stage_ok (Wired cfg) s" "sd_lock s = sd_lock (mc_service x i)" "sd_manager s = None"
    using assms(3) by (auto simp: service_start_log_def stage_ok_def subscribe_def log_sink_def Let_def)
  then show ?thesis using svc_inv_local [OF assms(1), of "Wired cfg" s i no_tasks] by simp
qed

lemma manages_inv:
  assumes "svc_inv path w0 x" "mc_stage x i = Wired cfg"
    "service_start_manager os cfg (mc_service x i) (mc_locks x) (mc_world x) = (r, s, lks, w)"
  shows "svc_inv path w0 (at_instance i s (after r (Managed cfg)) no_tasks lks w x)"
proof -
  have ok: "stage_ok (Wired cfg) (mc_service x i)" "world_ok w0 (mc_world x)" "locks_ok path x"
    using assms(1,2) unfolding svc_inv_def by metis+
  obtain ob where ob: "sd_lock (mc_service x i) = Some ob" using stage_holds [OF assms(1)] assms(2) by fastforce
  obtain mr m w1 where st: "start (os_pragmas os) (set_event_publisher True (new_manager (storage_database_path cfg) cfg)) (mc_world x)
      = (mr, m, w1)" by (metis prod.collapse)
  note sw = start_world [OF st ok(2)]
  show ?thesis
  proof (cases mr)
    case (Inl e)
    obtain s1 lks1 where rel: "release_all ((mc_service x i)\<lparr>sd_manager := None\<rparr>) (mc_locks x) = (s1, lks1)" by fastforce
    have "r = Inl e" "s = s1" "lks = lks1" "w = w1" using assms(3) by (simp_all add: service_start_manager_def st Inl rel)
    with svc_inv_released [OF assms(1) ob _ rel, of w1] ok(1) ob sw show ?thesis by (simp add: stage_ok_def)
  next
    case (Inr n)
    then have out: "r = Inr ()" "s = (mc_service x i)\<lparr>sd_manager := Some m\<rparr>" "lks = mc_locks x" "w = w1"
      using assms(3) by (simp_all add: service_start_manager_def st)
    have "locks_ok path (at_instance i s (Managed cfg) no_tasks (mc_locks x) w1 x)"
      by (rule locks_same [OF ok(3)]) (simp_all add: out lock_file_fs [OF sw(3)])
    then show ?thesis
      using out ok(1) ob sw by (intro svc_inv_instance [OF assms(1)]) (auto simp: stage_ok_def)
  qed
qed

lemma opens_inv:
  assumes "svc_inv path w0 x" "mc_stage x i = Managed cfg"
    "service_start_server os cfg (mc_service x i) (mc_locks x) = (r, fx, s, lks)" "(\<exists>u. r = Inr u) \<or> mc_tasks x i = no_tasks"
  shows "svc_inv path w0 (at_instance i s (after r (Opened cfg)) (mc_tasks x i) lks (mc_world x) x)"
proof -
  have ok: "stage_ok (Managed cfg) (mc_service x i)" "world_ok w0 (mc_world x)"
    and minv: "sd_manager (mc_service x i) = Some m \<Longrightarrow> stmt_inv w0 (running m (mc_world x) (mc_tasks x i))" for m
    using assms(1,2) unfolding svc_inv_def by metis+
  obtain ob where ob: "sd_lock (mc_service x i) = Some ob" using stage_holds [OF assms(1)] assms(2) by fastforce
  define s1 where "s1 = (mc_service x i)\<lparr>sd_http := (sd_http (mc_service x i))\<lparr>max_body_bytes := http_max_body_bytes cfg\<rparr>, sd_dispatch := True\<rparr>"
  obtain sr p closed where st: "server_start (http_bind cfg) (http_port cfg) (default_ServerOptions\<lparr>so_handlers := jobs_workers cfg\<rparr>)
      True (os_net os) (sd_server s1) = (sr, p, closed)" by (metis prod.collapse)
  have run: "p_running p \<longleftrightarrow> (\<exists>n. sr = Inr n)"
    using st ok(1) by (auto simp: server_start_def listen_close_def s1_def stage_ok_def split: if_splits sum.splits prod.splits)
  show ?thesis
  proof (cases sr)
    case (Inl e)
    obtain s2 lks2 where rel: "release_all ((service_drop_manager (service_stop_manager (s1\<lparr>sd_server := p\<rparr>)))\<lparr>sd_dispatch := False\<rparr>) (mc_locks x) = (s2, lks2)"
      by fastforce
    have "r = Inl e" "s = s2" "lks = lks2"
      using assms(3) by (simp_all add: service_start_server_def s1_def [symmetric] st Inl rel Let_def)
    with svc_inv_released [OF assms(1) ob _ rel] ok ob run Inl show ?thesis
      by (simp add: stage_ok_def s1_def service_drop_manager_def service_stop_manager_def)
  next
    case (Inr n)
    then have out: "r = Inr ()" "s = s1\<lparr>sd_server := p, sd_running := True\<rparr>" "lks = mc_locks x"
      using assms(3) by (simp_all add: service_start_server_def s1_def [symmetric] st Let_def)
    have "stage_ok (Opened cfg) s" using ok(1) run Inr by (simp add: out stage_ok_def s1_def)
    then show ?thesis
      using svc_inv_local [OF assms(1), of "Opened cfg" s i "mc_tasks x i"] minv by (simp add: out s1_def)
  qed
qed

text \<open>The steps that keep lock and world.\<close>

lemma local_steps:
  "stage_ok (Opened cfg) s \<Longrightarrow> service_start_announce os cfg s = (fx, s') \<Longrightarrow>
     stage_ok Up s' \<and> sd_lock s' = sd_lock s \<and> sd_manager s' = sd_manager s"
  "stage_ok Up s \<Longrightarrow> service_stop_begin os s = (fx, s') \<Longrightarrow>
     stage_ok Draining s' \<and> sd_lock s' = sd_lock s \<and> sd_manager s' = sd_manager s"
  "stage_ok Draining s \<Longrightarrow> service_stop_server s = (fx, s') \<Longrightarrow>
     stage_ok Unbound s' \<and> sd_lock s' = sd_lock s \<and> sd_manager s' = sd_manager s"
  by (auto simp: service_start_announce_def service_stop_begin_def service_stop_server_def server_shutdown_def
      server_shutdown_begin_def server_shutdown_finish_def close_wake_def stage_ok_def Let_def split: prod.splits if_splits)

lemma quiet_inv:
  assumes "svc_inv path w0 x" "stage_ok st s \<and> sd_lock s = sd_lock (mc_service x i) \<and> sd_manager s = sd_manager (mc_service x i)"
  shows "svc_inv path w0 (at_instance i s st (mc_tasks x i) (mc_locks x) (mc_world x) x)"
  by (intro svc_inv_local [OF assms(1)]) (use assms in \<open>auto simp: svc_inv_def\<close>)

lemma works_inv:
  assumes "svc_inv path w0 x" "sd_manager (mc_service x i) = Some m" "stmt_step (running m (mc_world x) (mc_tasks x i)) (running m' w ts)"
    "\<And>ob. lock_file_at path (mc_world x) ob \<Longrightarrow> lock_file_at path w ob"
  shows "svc_inv path w0 (at_instance i ((mc_service x i)\<lparr>sd_manager := Some m'\<rparr>) (mc_stage x i) ts (mc_locks x) w x)"
proof -
  have ok: "world_ok w0 (mc_world x)" "locks_ok path x" "stmt_inv w0 (running m (mc_world x) (mc_tasks x i))"
    "stage_ok (mc_stage x i) (mc_service x i)"
    using assms(1,2) by (auto simp: svc_inv_def)
  note ws = world_ok_step [OF assms(3) ok(3,1)]
  have "sd_lock (mc_service x i) \<noteq> None" using manager_holds [OF ok(4)] assms(2) by simp
  moreover have "stage_ok (mc_stage x i) ((mc_service x i)\<lparr>sd_manager := Some m'\<rparr>)" using ok(4) assms(2) by (simp add: stage_ok_def)
  ultimately show ?thesis
    by (intro svc_inv_instance [OF assms(1)] locks_same [OF ok(2)]) (use ws assms(4) in auto)
qed

lemma manager_stops_inv:
  assumes "svc_inv path w0 x" "mc_stage x i = Unbound"
  shows "svc_inv path w0 (at_instance i (service_stop_manager (mc_service x i)) Unbound (mc_tasks x i) (mc_locks x) (mc_world x) x)"
proof -
  have st: "stage_ok Unbound (mc_service x i)" "world_ok w0 (mc_world x)" using assms unfolding svc_inv_def by metis+
  have "stmt_inv w0 (running (shutdown_begin m) (mc_world x) (mc_tasks x i))" if "sd_manager (mc_service x i) = Some m" for m
  proof -
    have "mgr_step (sys m (mc_world x) ts) (sys (shutdown_begin m) (mc_world x) ts)" for ts
      using mgr_step.stops [of "sys m (mc_world x) ts"] by simp
    then have "stmt_step (running m (mc_world x) (mc_tasks x i)) (running (shutdown_begin m) (mc_world x) (mc_tasks x i))"
      unfolding running_def by (rule stmt_step.sections) simp
    moreover have "stmt_inv w0 (running m (mc_world x) (mc_tasks x i))" using assms(1) that by (simp add: svc_inv_def)
    ultimately show ?thesis by (rule world_ok_step(1) [OF _ _ st(2)])
  qed
  then show ?thesis
    by (intro svc_inv_local [OF assms(1)]) (use st(1) in \<open>auto simp: stage_ok_def service_stop_manager_def\<close>)
qed

lemma releases_inv:
  assumes "svc_inv path w0 x" "mc_stage x i = Ending" "release_all (mc_service x i) (mc_locks x) = (s, lks)"
  shows "svc_inv path w0 (at_instance i s Down no_tasks lks (mc_world x) x)"
proof -
  have st: "stage_ok Ending (mc_service x i)" "world_ok w0 (mc_world x)" using assms(1,2) unfolding svc_inv_def by metis+
  obtain ob where "sd_lock (mc_service x i) = Some ob" using stage_holds [OF assms(1)] assms(2) by fastforce
  with svc_inv_released [OF assms(1) this this assms(3)] st show ?thesis by (simp add: stage_ok_def)
qed

lemma dies_inv:
  assumes "svc_inv path w0 x"
  shows "svc_inv path w0 (at_instance i new_service Down no_tasks (free_locks i (mc_locks x)) (mc_world x) x)"
proof -
  have "locks_ok path (at_instance i new_service Down no_tasks (free_locks i (mc_locks x)) (mc_world x) x)"
    by (rule locks_freed) (use assms in \<open>simp_all add: svc_inv_def new_service_def\<close>)
  then show ?thesis
    by (intro svc_inv_instance [OF assms])
      (use assms in \<open>simp_all add: svc_inv_def stage_ok_def new_service_def new_pool_def new_publisher_def\<close>)
qed

lemma stage_at: "svc_inv path w0 x \<Longrightarrow> mc_stage x i = st \<Longrightarrow> stage_ok st (mc_service x i)"
  by (auto simp: svc_inv_def)

text \<open>A step after which the lock file of the database has still its name.\<close>

definition lock_kept :: "string \<Rightarrow> machine \<Rightarrow> machine \<Rightarrow> bool" where
  "lock_kept path x y \<longleftrightarrow> svc_step path x y \<and>
     (\<forall>ob. lock_file_at path (mc_world x) ob \<longrightarrow> lock_file_at path (mc_world y) ob)"

lemma svc_inv_step:
  assumes "lock_kept path x y" "svc_inv path w0 x"
  shows "svc_inv path w0 y"
proof -
  have step: "svc_step path x y" and lock: "lock_file_at path (mc_world x) ob \<Longrightarrow> lock_file_at path (mc_world y) ob" for ob
    using assms(1) by (simp_all add: lock_kept_def)
  from step show ?thesis
  proof cases
    case (works i m m' w ts)
    with works_inv [OF assms(2) works(2,3)] lock show ?thesis by (simp add: at_instance_def)
  next
    case (announces i cfg os fx s)
    with local_steps(1) [OF stage_at [OF assms(2) announces(2)]] show ?thesis by (simp add: quiet_inv [OF assms(2)])
  next
    case (stop_begins i os fx s)
    with local_steps(2) [OF stage_at [OF assms(2) stop_begins(2)]] show ?thesis by (simp add: quiet_inv [OF assms(2)])
  next
    case (server_stops i fx s)
    with local_steps(3) [OF stage_at [OF assms(2) server_stops(2)]] show ?thesis by (simp add: quiet_inv [OF assms(2)])
  next
    case (manager_goes i)
    with stage_at [OF assms(2) manager_goes(2)] show ?thesis
      by (simp only:) (intro svc_inv_local [OF assms(2)], auto simp: stage_ok_def service_drop_manager_def)
  qed (simp_all add: locks_inv [OF assms(2)] logs_inv [OF assms(2)] manages_inv [OF assms(2)] opens_inv [OF assms(2)]
      manager_stops_inv [OF assms(2)] releases_inv [OF assms(2)] dies_inv [OF assms(2)])
qed

interpretation svc_sys: step_system "lock_kept path" "svc_inv path w0" for path w0
  by unfold_locales (rule svc_inv_step)

text \<open>No instance has been started yet.\<close>

definition all_down :: "world \<Rightarrow> machine" where
  "all_down w = \<lparr>mc_service = (\<lambda>_. new_service), mc_stage = (\<lambda>_. Down), mc_tasks = (\<lambda>_. no_tasks), mc_locks = (\<lambda>_. None), mc_world = w\<rparr>"

lemma all_down_inv: "quiet w \<Longrightarrow> db_wf (w_db w) \<Longrightarrow> w_dbfile w \<Longrightarrow> svc_inv path w (all_down w)"
  by (simp add: svc_inv_def all_down_def world_ok_def locks_ok_def stage_ok_def new_service_def new_pool_def new_publisher_def
      jobs_kept_def)

text \<open>
  C6. One instance at a time works on a database, across starts, failed starts, stops and deaths
  (L2-CTL-008, L2-CTL-020), for an existing store on a machine where no other process interferes and as
  long as no job moves the lock file away: in every run in which the file \<open><database>.lock\<close> keeps its
  name, however many instances start and stop, however the statements of their managers' threads
  interleave and whenever a process dies, no two of them hold the lock; an instance has a manager, and
  with it threads on the store, only while it holds the lock, and accepts connections only while
  it has a manager; the running manager's books are consistent with the store, and no durable record
  is ever lost. Nothing in the program refuses the lock file as the source of a job.
\<close>

theorem service_run_safety:
  assumes "(lock_kept path)\<^sup>*\<^sup>* (all_down w0) x" and "quiet w0" "db_wf (w_db w0)" "w_dbfile w0"
  shows "(sd_lock (mc_service x i) \<noteq> None \<and> sd_lock (mc_service x j) \<noteq> None \<longrightarrow> i = j) \<and>
     (\<forall>m. sd_manager (mc_service x i) = Some m \<longrightarrow>
        sd_lock (mc_service x i) \<noteq> None \<and> stmt_inv w0 (running m (mc_world x) (mc_tasks x i))) \<and>
     (p_running (sd_server (mc_service x i)) \<longrightarrow> sd_manager (mc_service x i) \<noteq> None) \<and>
     jobs_kept w0 (mc_world x)"
proof -
  have inv: "svc_inv path w0 x" by (rule svc_sys.inv_reach [OF assms(1) all_down_inv [OF assms(2-4)]])
  then have ok: "locks_ok path x" "stage_ok (mc_stage x i) (mc_service x i)" by (simp_all add: svc_inv_def)
  have "has_socket st \<Longrightarrow> has_manager st" for st by (cases st) simp_all
  then have "p_running (sd_server (mc_service x i)) \<longrightarrow> sd_manager (mc_service x i) \<noteq> None"
    using ok(2) by (auto simp: stage_ok_def)
  then show ?thesis
    using inv one_holder_only [OF ok(1)] manager_holds [OF ok(2)] by (auto simp: svc_inv_def world_ok_def)
qed

text \<open>An existing store, and one instance that takes the lock.\<close>

definition lock_world :: world where
  "lock_world = ex_world\<lparr>w_dbfile := True\<rparr>"

lemma lock_world_facts: "quiet lock_world" "db_wf (w_db lock_world)" "w_dbfile lock_world"
  by (simp_all add: lock_world_def ex_world_def quiet_def empty_db_def db_wf_def)

theorem service_run_safety_witness:
  "\<exists>x. (lock_kept ''/in/db'')\<^sup>*\<^sup>* (all_down lock_world) x \<and> sd_lock (mc_service x 42) = Some (3, 77) \<and> jobs_kept lock_world (mc_world x)"
proof -
  obtain r l lks w where a: "lock_acquire 42 ''/in/db'' (3, 77) None None (\<lambda>_. None) lock_world = (r, l, lks, w)"
    by (metis prod.collapse)
  have "fst (lock_acquire 42 ''/in/db'' (3, 77) None None (\<lambda>_. None) lock_world) = Inr ()"
    "fst (snd (lock_acquire 42 ''/in/db'' (3, 77) None None (\<lambda>_. None) lock_world)) = Some (3, 77)" by code_simp+
  then have r: "r = Inr ()" "l = Some (3, 77)" using a by simp_all
  have os: "os_pid ex_os = 42" "os_lock_inode ex_os = (3, 77)" "os_lock_error ex_os = None"
    "storage_database_path ex_config = ''/in/db''" by (simp_all add: ex_os_def ex_config_def)
  have "service_start_lock ex_os ex_config new_service (\<lambda>_. None) lock_world = (r, new_service\<lparr>sd_lock := l\<rparr>, lks, w)"
    using a ex_start_calls(1) by (simp add: service_start_lock_def new_service_def os)
  then have "svc_step ''/in/db'' (all_down lock_world)
      (at_instance 42 (new_service\<lparr>sd_lock := l\<rparr>) (after r (Locked ex_config)) no_tasks lks w (all_down lock_world))"
    by (intro svc_step.locks [OF _ os(1,4)]) (simp_all add: all_down_def)
  moreover have "lock_file_at ''/in/db'' lock_world ob \<Longrightarrow> lock_file_at ''/in/db'' w ob" for ob
    using lock_frame_file [OF lock_acquire_frame [OF a lock_world_facts(1)]] by blast
  ultimately have run: "(lock_kept ''/in/db'')\<^sup>*\<^sup>* (all_down lock_world)
      (at_instance 42 (new_service\<lparr>sd_lock := l\<rparr>) (after r (Locked ex_config)) no_tasks lks w (all_down lock_world))"
    by (intro r_into_rtranclp) (simp add: lock_kept_def at_instance_def all_down_def)
  from service_run_safety [OF run lock_world_facts] run show ?thesis
    by (intro exI conjI) (auto simp: at_instance_def r)
qed

end
