(* ===== verification/Shutdown.thy ===== *)
theory Shutdown
  imports Manager_Runs
begin

text \<open>
  What follows \<open>shutdown\<close> (\<open>cpp/src/manager.cpp\<close>): intake is closed, the workers go on until the queue is
  empty and then return. And what \<open>wait_idle\<close> tells.
\<close>

declare split_paired_All [simp del] split_paired_Ex [simp del]

section \<open>The rounds of the workers\<close>

inductive work_step :: "system \<Rightarrow> system \<Rightarrow> bool" where
  took: "m_runnable (sy_mgr x) \<noteq> [] \<Longrightarrow> worker_take (sy_mgr x) = ((k, req, st), m) \<Longrightarrow>
    work_step x (x\<lparr>sy_mgr := m, sy_tasks := Working k req st now c # sy_tasks x\<rparr>)"
| worked: "sy_tasks x = l @ Working k req st now c # r \<Longrightarrow>
    worker_record (m_config (sy_mgr x)) k req st now c (sy_world x) = ((due, out, e), w) \<Longrightarrow>
    work_step x (x\<lparr>sy_world := w, sy_tasks := l @ Settling k due # r\<rparr>)"
| settled: "sy_tasks x = l @ Settling k due # r \<Longrightarrow>
    work_step x (x\<lparr>sy_mgr := worker_settle k due (sy_mgr x), sy_tasks := l @ r\<rparr>)"

lemma work_step_mgr: "work_step x y \<Longrightarrow> mgr_step x y"
  by (auto elim!: work_step.cases intro: takes works settles)

fun task_load :: "task \<Rightarrow> nat" where
  "task_load (Working _ _ _ _ _) = 2"
| "task_load (Settling _ _) = 1"
| "task_load _ = 0"

definition load_left :: "system \<Rightarrow> nat" where
  "load_left x = 3 * length (m_runnable (sy_mgr x)) + sum_list (map task_load (sy_tasks x))"

lemma work_step_load: "work_step x y \<Longrightarrow> load_left y < load_left x"
proof (induction rule: work_step.induct)
  case (took x k req st m now c)
  then show ?case by (cases "m_runnable (sy_mgr x)") (auto simp: load_left_def worker_take_def Let_def)
qed (auto simp: load_left_def worker_settle_def Let_def split: option.splits)

interpretation work_runs: falling_steps work_step load_left
  by unfold_locales (rule work_step_load)

section \<open>A manager that is stopping\<close>

text \<open>Steps of a manager that is not started again.\<close>

definition stop_step :: "system \<Rightarrow> system \<Rightarrow> bool" where
  "stop_step x y \<longleftrightarrow> mgr_step x y \<and> \<not> m_running (sy_mgr y)"

fun worker_task :: "task \<Rightarrow> bool" where
  "worker_task (Working _ _ _ _ _) = True"
| "worker_task (Settling _ _) = True"
| "worker_task _ = False"

definition draining :: "system \<Rightarrow> bool" where
  "draining x \<longleftrightarrow> m_stopping (sy_mgr x) \<and> \<not> m_running (sy_mgr x) \<and> list_all worker_task (sy_tasks x) \<and> excl_inv x"

text \<open>No step but a round of a worker touches the queue, and none opens the intake.\<close>

lemma stop_step_cases:
  assumes "draining x" "stop_step x y"
  shows "work_step x y \<or> m_runnable (sy_mgr y) = m_runnable (sy_mgr x) \<and> sy_tasks y = sy_tasks x \<and>
    m_active (sy_mgr y) = m_active (sy_mgr x)"
proof -
  have d: "\<not> m_running (sy_mgr x)" "list_all worker_task (sy_tasks x)" using assms(1) by (simp_all add: draining_def)
  have s: "mgr_step x y" "\<not> m_running (sy_mgr y)" using assms(2) by (simp_all add: stop_step_def)
  from s(1) show ?thesis
  proof cases
    case (takes k req st m now c)
    then show ?thesis using took by blast
  next
    case (works l k req st now c r due out e w)
    then show ?thesis using worked by blast
  next
    case (settles l k due r)
    then show ?thesis using settled by blast
  qed (use d s(2) in \<open>auto simp: section_defs Let_def split: if_splits prod.splits sum.splits\<close>)
qed

lemma stop_step_draining:
  assumes "draining x" "stop_step x y"
  shows "draining y"
proof -
  have d: "\<not> m_running (sy_mgr x)" "list_all worker_task (sy_tasks x)" "m_stopping (sy_mgr x)" "excl_inv x"
    using assms(1) by (simp_all add: draining_def)
  have s: "mgr_step x y" "\<not> m_running (sy_mgr y)" using assms(2) by (simp_all add: stop_step_def)
  from s(1) have "m_paused (sy_mgr y) = m_paused (sy_mgr x)" "m_stopping (sy_mgr y)" "list_all worker_task (sy_tasks y)"
    by (cases; use d s(2) in \<open>auto simp: section_defs Let_def split: if_splits prod.splits sum.splits option.splits\<close>)+
  then show ?thesis using s d excl_sys.inv_step [of x y] by (simp add: draining_def orderly_def)
qed

interpretation stop_sys: step_system stop_step draining
  by unfold_locales (rule stop_step_draining)

lemma work_step_stop: "draining x \<Longrightarrow> work_step x y \<Longrightarrow> stop_step x y"
  by (auto simp: stop_step_def draining_def work_step_mgr elim!: work_step.cases)
     (auto simp: worker_take_def worker_settle_def Let_def split: option.splits)

text \<open>As long as there is a job in the queue or in a worker's hands, a worker can go on.\<close>

lemma drained:
  assumes "draining x" "\<And>y. \<not> work_step x y"
  shows "m_runnable (sy_mgr x) = [] \<and> sy_tasks x = []"
proof
  show "m_runnable (sy_mgr x) = []" using took [of x] assms(2) by (metis prod.collapse)
  show "sy_tasks x = []"
  proof (cases "sy_tasks x")
    case (Cons t r)
    then have "worker_task t" using assms(1) by (simp add: draining_def)
    then show ?thesis
    proof (cases t)
      case (Working k req st now c)
      then show ?thesis using worked [of x "[]" k req st now c r] Cons assms(2) by (metis append_Nil prod.collapse)
    next
      case (Settling k due)
      then show ?thesis using settled [of x "[]" k due r] Cons assms(2) by simp
    qed simp_all
  qed simp
qed


text \<open>A manager that stops with one job in the queue.\<close>

definition stop_manager :: manager where
  "stop_manager = (new_manager ''/db'' small_config)\<lparr>m_stopping := True, m_requests := [''j1'' \<mapsto> mv_request], m_runnable := [''j1'']\<rparr>"

lemma stop_manager_draining: "draining (sys stop_manager mv_world [])" "mgr_inv mv_world (sys stop_manager mv_world [])"
  using mv_durable demo_world_facts(1)
  by (auto simp: draining_def excl_inv_def book_inv_def mgr_inv_def rec_inv_def known_def dispatched_def holders_def waits_def
      stop_manager_def new_manager_def smap_ok_def recorded_def durable_state_def)


section \<open>Waiting for the manager to be idle\<close>

lemma wait_idle_loop_exact:
  "wait_idle_loop polled n waited timeout = (r, k) \<Longrightarrow>
    (r \<longleftrightarrow> (\<exists>i. n \<le> i \<and> i < k \<and> idle (polled i))) \<and> n < k \<and> int k \<le> int n + max 0 (timeout - waited) + 2"
proof (induction polled n waited timeout rule: wait_idle_loop.induct)
  case (1 polled n waited timeout)
  note prem = "1.prems" [unfolded wait_idle_loop.simps [of polled n waited timeout]]
  show ?case
  proof (cases "idle (polled n)")
    case True
    then show ?thesis using prem by auto
  next
    case False
    show ?thesis
    proof (cases "waited \<ge> timeout")
      case True
      then show ?thesis using prem False by (auto simp: less_Suc_eq intro: exI [of _ "Suc n"])
    next
      case late: False
      then have "wait_idle_loop polled (n + 1) (waited + kPollMs) timeout = (r, k)" using prem False by simp
      note ih = "1.IH" [OF False late this]
      have "n \<le> i \<and> idle (polled i) \<longleftrightarrow> n + 1 \<le> i \<and> idle (polled i)" for i
        using False by (cases "i = n") auto
      then have "(\<exists>i. n \<le> i \<and> i < k \<and> idle (polled i)) \<longleftrightarrow> (\<exists>i. n + 1 \<le> i \<and> i < k \<and> idle (polled i))" by blast
      then show ?thesis using ih late by (simp add: kPollMs_def)
    qed
  qed
qed

text \<open>
  \<open>wait_idle\<close> ends after at most \<open>timeout_ms + 2\<close> looks, and answers true exactly when one of them found the
  manager idle.
\<close>

theorem wait_idle_exact:
  assumes "wait_idle polled timeout = (r, k)"
  shows "(r \<longleftrightarrow> (\<exists>i < k. idle (polled i))) \<and> int k \<le> max 0 timeout + 2"
  using wait_idle_loop_exact [OF assms [unfolded wait_idle_def]] by auto

end
