(* ===== verification/Router_Laws.thy ===== *)
theory Router_Laws
  imports Router Manager_Runs
begin

text \<open>
  What the routes do. Every request the router serves is a run of the manager's own steps, so the
  invariants of the manager carry over to the REST interface; requests that are not posted
  change nothing; and an accepted submission is durable before it is acknowledged.
\<close>

declare split_paired_All [simp del] split_paired_Ex [simp del]

section \<open>Commands as runs\<close>

lemma run_record:
  assumes "record_intent (submit_job k req now) old (m_conn m) w = (res, w')"
  shows "mgr_step\<^sup>*\<^sup>* (sys m w (Recording k req now old # t)) (sys (submit_publish k req (\<exists>u. res = Inr u) m) w' t)"
proof -
  have "mgr_step (sys m w (Recording k req now old # t)) (sys m w' (Publishing k req (\<exists>u. res = Inr u) # t))"
    using records [of "sys m w (Recording k req now old # t)" "[]" k req now old t res w'] assms by (simp add: sys_def)
  moreover have "mgr_step (sys m w' (Publishing k req b # t)) (sys (submit_publish k req b m) w' t)" for b
    using publishes [of "sys m w' (Publishing k req b # t)" "[]" k req b t] by (simp add: sys_def)
  ultimately show ?thesis by (meson converse_rtranclp_into_rtranclp r_into_rtranclp)
qed

lemma run_submit:
  assumes "submit k req now ts m w = (r, evs, m', w')"
  shows "mgr_step\<^sup>*\<^sup>* (sys m w t) (sys m' w' t)"
proof (cases "submit_claim k m")
  case (Inr m1)
  obtain res w1 where rec: "record_intent (submit_job k req now) [] (m_conn m1) w = (res, w1)" by fastforce
  have "mgr_step (sys m w t) (sys m1 w (Recording k req now [] # t))" by (rule sys_steps(2) [OF Inr])
  moreover have "sys m' w' t = sys (submit_publish k req (\<exists>u. res = Inr u) m1) w1 t"
    using assms Inr rec by (cases res) (auto simp: submit_def)
  ultimately show ?thesis using run_record [OF rec] by (metis converse_rtranclp_into_rtranclp)
qed (use assms in \<open>auto simp: submit_def\<close>)

lemma run_submit_allocated:
  assumes "submit_allocated req now ts m w = (r, evs, m', w')"
  shows "mgr_step\<^sup>*\<^sup>* (sys m w t) (sys m' w' t)"
proof (cases "m_running m")
  case True
  obtain n w1 where n: "next_sequence (m_conn m) w = (n, w1)" by fastforce
  have s: "mgr_step (sys m w t) (sys m w1 t)" using allocates [of "sys m w t" n w1] n by (simp add: sys_def)
  show ?thesis
  proof (cases n)
    case (Inl e)
    then show ?thesis using assms True n s by (auto simp: submit_allocated_def)
  next
    case (Inr q)
    then obtain r' where "submit (''job-'' @ nat_dec (unat q)) req now ts m w1 = (r', evs, m', w')"
      using assms True n by (auto simp: submit_allocated_def Let_def split: prod.splits)
    from run_submit [OF this, of t] s show ?thesis by (rule converse_rtranclp_into_rtranclp [rotated])
  qed
qed (use assms in \<open>auto simp: submit_allocated_def\<close>)

lemma run_pause:
  assumes "pause k ts m = (r, evs, m')"
  shows "mgr_step\<^sup>*\<^sup>* (sys m w t) (sys m' w t)"
proof (cases "fst r = Ok")
  case True
  then have "mgr_step (sys m w t) (sys m' w t)"
    using pauses [of k ts "sys m w t" "snd r" evs m'] assms by (simp add: sys_def) (metis prod.collapse)
  then show ?thesis by blast
next
  case False
  then have "m' = m" using assms by (auto simp: pause_def Let_def split: if_splits)
  then show ?thesis by simp
qed

lemma run_resume:
  assumes "resume k ts m = (r, evs, m')"
  shows "mgr_step\<^sup>*\<^sup>* (sys m w t) (sys m' w t)"
proof (cases "fst r = Ok")
  case True
  then have "mgr_step (sys m w t) (sys m' w t)"
    using resumes [of k ts "sys m w t" "snd r" evs m'] assms by (simp add: sys_def) (metis prod.collapse)
  then show ?thesis by blast
next
  case False
  then have "m' = m" using assms by (auto simp: resume_def Let_def split: if_splits)
  then show ?thesis by simp
qed

lemma run_cancel:
  assumes "cancel k ts m w = (r, evs, m', w')"
  shows "mgr_step\<^sup>*\<^sup>* (sys m w t) (sys m' w' t)"
proof (cases "cancel_claim k m")
  case (Inr p)
  obtain was m1 where p: "p = (was, m1)" by fastforce
  obtain out e w1 where d: "cancel_durable k (m_conn m1) w = ((out, e), w1)" by (metis prod.collapse)
  have "mgr_step (sys m w t) (sys m1 w (Cancelling k was # t))"
    using cancels [of k "sys m w t" was m1] Inr p by (simp add: sys_def)
  moreover have "mgr_step (sys m1 w (Cancelling k was # t)) (sys m1 w1 (CancelEnding k was out # t))"
    using cancel_writes [of "sys m1 w (Cancelling k was # t)" "[]" k was t out e w1] d by (simp add: sys_def)
  moreover have "mgr_step (sys m1 w1 (CancelEnding k was out # t)) (sys (cancel_settle k was out m1) w1 t)"
    using cancel_ends [of "sys m1 w1 (CancelEnding k was out # t)" "[]" k was out t] by (simp add: sys_def)
  moreover have "m' = cancel_settle k was out m1" "w' = w1" using assms Inr p d by (auto simp: cancel_def Let_def)
  ultimately show ?thesis by (meson converse_rtranclp_into_rtranclp r_into_rtranclp)
qed (use assms in \<open>auto simp: cancel_def\<close>)

text \<open>The probe of a manual retry ends in a claim or gives up.\<close>

definition probe_end :: "string \<Rightarrow> MoveRequest \<Rightarrow> int \<Rightarrow> manager \<Rightarrow> task list \<Rightarrow> (string + string \<times> manager) \<Rightarrow> world \<Rightarrow> system" where
  "probe_end k req now m t r w = (case r of
     Inl _ \<Rightarrow> sys m w t
   | Inr (candidate, m1) \<Rightarrow> sys m1 w (Recording candidate req now k # t))"

lemma run_probe:
  assumes "retry_probe root n m c w = Some r" "root = strip_retry_suffix k" "c = m_conn m"
  shows "mgr_step\<^sup>*\<^sup>* (sys m w (Probing k req now n # t)) (probe_end k req now m t (fst r) (snd r))"
  using assms
proof (induction root n m c w r rule: retry_probe.raw_induct [rotated, consumes 1, case_names step])
  case (step probe root n m c w r)
  obtain res w1 where l: "load (retry_candidate root n) c w = (res, w1)" by fastforce
  have bound: "(\<exists>j. res = Inr (Some j)) \<longrightarrow> int n < INT_MAX" using step.hyps l by (auto split: if_splits)
  have p: "mgr_step (sys m w (Probing k req now n # t)) (sys m w1 (case res of
      Inl _ \<Rightarrow> t | Inr None \<Rightarrow> Reserving k req now n # t | Inr (Some _) \<Rightarrow> Probing k req now (n + 1) # t))"
    using probes [of "sys m w (Probing k req now n # t)" "[]" k req now n t res w1, unfolded append_Nil] l step.prems bound
    by (simp add: sys_def)
  consider (err) e where "res = Inl e" | (taken) j where "res = Inr (Some j)" | (free) "res = Inr None"
    by (metis obj_sumE option.exhaust)
  then show ?case
  proof cases
    case err
    then show ?thesis using step.hyps l p by (auto simp: probe_end_def)
  next
    case taken
    then have "probe root (n + 1) m c w1 = Some r" using step.hyps l by (simp split: if_splits)
    from step.IH [OF this step.prems] p taken show ?thesis by (simp add: converse_rtranclp_into_rtranclp)
  next
    case free
    show ?thesis
    proof (cases "retry_reserve (retry_candidate root n) m")
      case None
      then have pr: "probe root (n + 1) m c w1 = Some r" and bound: "int n < INT_MAX"
        using step.hyps l free by (simp_all split: if_splits)
      note rest = step.IH [OF pr step.prems]
      have "mgr_step (sys m w1 (Reserving k req now n # t)) (sys m w1 (Probing k req now (n + 1) # t))"
        using misses [of "sys m w1 (Reserving k req now n # t)" "[]" k req now n t] None step.prems bound by (simp add: sys_def)
      then show ?thesis using p free rest by (simp add: converse_rtranclp_into_rtranclp)
    next
      case (Some m1)
      then have r: "r = (Inr (retry_candidate root n, m1), w1)" using step.hyps l free by simp
      have "mgr_step (sys m w1 (Reserving k req now n # t)) (sys m1 w1 (Recording (retry_candidate root n) req now k # t))"
        using reserves [of "sys m w1 (Reserving k req now n # t)" "[]" k req now n t m1] Some step.prems by (simp add: sys_def)
      then show ?thesis using p free r by (simp add: probe_end_def converse_rtranclp_into_rtranclp)
    qed
  qed
qed

lemma run_retry:
  assumes "retry k now ts m w = Some (r, evs, m', w')"
  shows "mgr_step\<^sup>*\<^sup>* (sys m w t) (sys m' w' t)"
proof (cases "retry_claim k m")
  case (Inr req)
  obtain bad w1 where chk: "retry_check k (m_conn m) w = (bad, w1)" by fastforce
  have claim: "mgr_step (sys m w t) (sys m w (Checking k req now # t))"
    using retries [of k "sys m w t" req now] Inr by (simp add: sys_def)
  have check: "mgr_step (sys m w (Checking k req now # t)) (sys m w1 (if bad = None then Probing k req now 1 # t else t))"
    using checks [of "sys m w (Checking k req now # t)" "[]" k req now t bad w1] chk
    by (cases bad) (simp_all add: sys_def)
  show ?thesis
  proof (cases bad)
    case (Some b)
    then have "m' = m" "w' = w1" using assms Inr chk by (auto simp: retry_def split: prod.splits)
    then show ?thesis using claim check Some by (simp add: converse_rtranclp_into_rtranclp)
  next
    case None
    then obtain pr w2 where pr: "retry_probe (strip_retry_suffix k) 1 m (m_conn m) w1 = Some (pr, w2)"
      using assms Inr chk by (cases "retry_probe (strip_retry_suffix k) 1 m (m_conn m) w1") (auto simp: retry_def)
    have probe: "mgr_step\<^sup>*\<^sup>* (sys m w t) (probe_end k req now m t pr w2)"
      using claim check None run_probe [OF pr refl refl, of req now t] by (simp add: converse_rtranclp_into_rtranclp)
    show ?thesis
    proof (cases pr)
      case (Inl e)
      then show ?thesis using assms Inr chk None pr probe by (simp add: retry_def probe_end_def)
    next
      case (Inr p)
      obtain cand m1 where p: "p = (cand, m1)" by fastforce
      obtain res w3 where rec: "record_intent (submit_job cand req now) k (m_conn m1) w2 = (res, w3)" by fastforce
      have "m' = submit_publish cand req (\<exists>u. res = Inr u) m1" "w' = w3"
        using assms \<open>retry_claim k m = Inr req\<close> chk None pr Inr p rec by (cases res; auto simp: retry_def)+
      then show ?thesis using probe run_record [OF rec, of t] Inr p by (simp add: probe_end_def)
    qed
  qed
qed (use assms in \<open>auto simp: retry_def split: prod.splits\<close>)

section \<open>Routes as runs\<close>

lemma run_route_submit: "route_submit body now ts m w = Some (resp, evs, m', w') \<Longrightarrow> mgr_step\<^sup>*\<^sup>* (sys m w t) (sys m' w' t)"
  by (auto simp: route_submit_def split: sum.splits option.splits prod.splits dest!: run_submit_allocated)

lemma run_route_action:
  "route_action jid action now ts m w = Some (resp, evs, m', w') \<Longrightarrow> mgr_step\<^sup>*\<^sup>* (sys m w t) (sys m' w' t)"
  by (auto simp: route_action_def split: if_splits option.splits prod.splits
      dest!: run_pause [where w = w] run_resume [where w = w] run_cancel run_retry)

lemma run_route:
  assumes "route_request r now ts m w = Some (resp, evs, m', w')"
  shows "mgr_step\<^sup>*\<^sup>* (sys m w t) (sys m' w' t)"
  using assms unfolding route_request_def Let_def
  by (auto split: if_split_asm dest!: run_route_submit run_route_action)

section \<open>A concrete request\<close>

definition api_body :: string where
  "api_body = render (JObject [(''source'', JString ''/a/x''), (''dest'', JString ''/b/y'')])"

definition api_request :: Request where
  "api_request = \<lparr>req_method = ''POST'', req_target = ''/api/jobs'', req_version = ''HTTP/1.1'', req_headers = [], req_body = api_body\<rparr>"

definition api_move :: MoveRequest where
  "api_move = \<lparr>mr_source_dir = ''/a'', mr_source_name = ''x'', mr_dest_dir = ''/b'', mr_dest_name = ''y''\<rparr>"

definition am :: manager where "am = fst (snd (snd (submit_allocated api_move 5 6 rm1 rw1)))"
definition aw :: world where "aw = snd (snd (snd (submit_allocated api_move 5 6 rm1 rw1)))"

lemma api_decode: "decode_submit_request api_body = Inr \<lparr>submit_source = ''/a/x'', submit_dest = ''/b/y''\<rparr>"
proof -
  have "json_parse submit_limits api_body = Inr (JObject [(''source'', JString ''/a/x''), (''dest'', JString ''/b/y'')])"
    unfolding api_body_def
    by (rule render_parse) (simp_all add: submit_limits_def kMaxPathBytes_def numeral_2_eq_2 member_ok_def utf8_text_ascii escape_plain)
  then show ?thesis by (simp add: decode_submit_iff)
qed

lemma api_routed:
  "route_request api_request 5 6 rm1 rw1 = Some (make_response 202 (job_id_body ''job-5''), [], am, aw)"
proof -
  have seg: "path_segments ''/api/jobs'' = [''api'', ''jobs'']" by code_simp
  have sp: "split_path ''/a/x'' = Some (''/a'', ''x'')" "split_path ''/b/y'' = Some (''/b'', ''y'')" by code_simp+
  have "fst (submit_allocated api_move 5 6 rm1 rw1) = (Ok, [], ''job-5'')"
    "fst (snd (submit_allocated api_move 5 6 rm1 rw1)) = []" by code_simp+
  then have al: "submit_allocated api_move 5 6 rm1 rw1 = ((Ok, [], ''job-5''), [], am, aw)"
    by (simp add: prod_eq_iff am_def aw_def)
  show ?thesis
    by (simp add: route_request_def api_request_def seg route_submit_def api_decode sp al [unfolded api_move_def])
qed

lemma rm1_inv: "mgr_inv mv_world (sys rm1 rw1 [])"
proof -
  have "db_wf (w_db mv_world)" "w_dbfile mv_world" using demo_world_facts(1) by simp_all
  from fresh_inv(1) [OF this, of "''/db''" small_config] have "mgr_inv mv_world (sys rm0 mv_world [])"
    by (simp only: fresh_sys)
  then show ?thesis by (rule mgr_sys.inv_reach [OF r_into_rtranclp [where r = mgr_step, OF submit_run(1)]])
qed

text \<open>
  Every request the router answers is a run of manager steps, whatever other threads have in
  flight, each part of it being one step; so it keeps the manager's invariant.
\<close>

theorem route_preserves_manager:
  assumes "route_request r now ts m w = Some (resp, evs, m', w')" "mgr_inv w0 (sys m w tasks)"
  shows "mgr_step\<^sup>*\<^sup>* (sys m w tasks) (sys m' w' tasks) \<and> mgr_inv w0 (sys m' w' tasks)"
  using run_route [OF assms(1), of tasks] mgr_sys.inv_reach assms(2) by blast

theorem route_preserves_manager_witness:
  "mgr_step\<^sup>*\<^sup>* (sys rm1 rw1 []) (sys am aw []) \<and> mgr_inv mv_world (sys am aw [])"
  by (rule route_preserves_manager [OF api_routed rm1_inv])

section \<open>Requests that change nothing\<close>

lemma make_response_status [simp]: "resp_status (make_response n b) = n" "resp_allow (make_response n b) = []" "resp_body (make_response n b) = b"
  by (simp_all add: make_response_def new_Response_def)

lemma error_status [simp]: "resp_status (error_response n e) = n" "resp_body (error_response n e) = encode_error e"
  by (simp_all add: error_response_def)

lemma not_allowed_status [simp]: "resp_status (method_not_allowed a) = 405" "resp_allow (method_not_allowed a) = a"
  by (simp_all add: method_not_allowed_def error_response_def make_response_def new_Response_def)

text \<open>
  A request that is not a \<open>POST\<close> is always answered, with 200, 404 or 405, changes neither the
  manager nor the store and emits no event; a 405 names the methods the route does take.
\<close>

theorem route_readonly:
  assumes "req_method r \<noteq> ''POST''"
  shows "\<exists>resp. route_request r now ts m w = Some (resp, [], m, w) \<and>
     (resp_status resp = 200 \<or> resp_status resp = 404 \<or> resp_status resp = 405 \<and> resp_allow resp \<noteq> [])"
  using assms by (simp add: route_request_def Let_def)

theorem route_readonly_witness:
  "\<exists>resp. route_request (api_request\<lparr>req_method := ''GET''\<rparr>) 5 6 rm1 rw1 = Some (resp, [], rm1, rw1)"
  using route_readonly [of "api_request\<lparr>req_method := ''GET''\<rparr>" 5 6 rm1 rw1] by auto

section \<open>Submission\<close>

lemma split_path_lossless:
  assumes "split_path path = Some (d, n)"
  shows "\<exists>p. path = p @ CHR ''/'' # n \<and> d = (if p = [] then ''/'' else p) \<and> n \<noteq> [] \<and> CHR ''/'' \<notin> set n"
proof -
  obtain slash where s: "rfind_char (CHR ''/'') path = Some slash" "slash + 1 < length path"
    "d = (if slash = 0 then ''/'' else substr 0 slash path)" "n = drop (slash + 1) path"
    using assms by (auto simp: split_path_def split: if_splits option.splits)
  have at: "slash < length path" "path ! slash = CHR ''/''" "CHR ''/'' \<notin> set (drop (Suc slash) path)"
    using rfind_char_SomeD [OF s(1)] by auto
  have "path = take slash path @ CHR ''/'' # drop (Suc slash) path" using id_take_nth_drop [OF at(1)] at(2) by simp
  then show ?thesis using s at(3) by (intro exI [of _ "take slash path"]) (auto simp: substr_def)
qed

lemma submit_ok:
  assumes "submit k req now ts m w = ((Ok, e), evs, m', w')"
  obtains m1 w1 u where "record_intent (submit_job k req now) [] (m_conn m1) w = (Inr u, w')"
    "m' = submit_publish k req True m1" "m_conn m1 = m_conn m"
  using assms by (auto simp: submit_def submit_claim_def split: sum.splits prod.splits if_splits)

lemma submit_publish_True:
  "m_requests (submit_publish k req True m) k = Some req" "k \<in> set (m_runnable (submit_publish k req True m))"
  by (simp_all add: submit_publish_def Let_def)

lemma next_sequence_abs: "next_sequence c w = (r, w') \<Longrightarrow> abs_job w' = abs_job w"
  by (drule next_sequence_cases) (auto simp: fun_eq_iff abs_job_def db_find_def dest: tickedD writtenD)

definition request_of :: "SubmitRequest \<Rightarrow> MoveRequest \<Rightarrow> bool" where
  "request_of sub req \<longleftrightarrow>
     split_path (submit_source sub) = Some (mr_source_dir req, mr_source_name req) \<and>
     split_path (submit_dest sub) = Some (mr_dest_dir req, mr_dest_name req)"

lemma nul_free_split:
  assumes "split_path p = Some (d, n)" "nul_free p"
  shows "nul_free d" "nul_free n"
  using split_path_lossless [OF assms(1)] assms(2) by (auto split: if_splits)

lemma nul_free_drop_path: "nul_free (''job-'' @ nat_dec n)"
  by simp

lemma decoded_nul_free:
  assumes "decode_submit_request body = Inr sub"
  shows "nul_free (submit_source sub)" "nul_free (submit_dest sub)"
proof -
  have "utf8_text (submit_source sub) \<and> utf8_text (submit_dest sub)"
    using decode_submit_iff [THEN iffD1, OF assms]
    by (auto dest!: json_parse_accepts simp: submit_limits_def numeral_2_eq_2 member_ok_def)
  then show "nul_free (submit_source sub)" "nul_free (submit_dest sub)" by (simp_all add: utf8_text_nul_free)
qed

lemma route_submit_ok:
  assumes "route_submit body now ts m w = Some (resp, evs, m', w')" "resp_status resp = 202"
  obtains sub req jid e where "decode_submit_request body = Inr sub" "request_of sub req"
    "submit_allocated req now ts m w = ((Ok, e, jid), evs, m', w')" "resp_body resp = job_id_body jid"
proof -
  obtain sub where sub: "decode_submit_request body = Inr sub" using assms by (auto simp: route_submit_def split: sum.splits)
  obtain sd sn dd dn where sp: "split_path (submit_source sub) = Some (sd, sn)" "split_path (submit_dest sub) = Some (dd, dn)"
    using assms sub by (auto simp: route_submit_def split: option.splits)
  define req where "req = \<lparr>mr_source_dir = sd, mr_source_name = sn, mr_dest_dir = dd, mr_dest_name = dn\<rparr>"
  obtain r e jid evs1 m1 w1 where al: "submit_allocated req now ts m w = ((r, e, jid), evs1, m1, w1)" by (metis prod.collapse)
  have eq: "(if r \<noteq> Ok then error_response (status_for r) e else make_response 202 (job_id_body jid), evs1, m1, w1) = (resp, evs, m', w')"
    using assms(1) sub sp al by (simp add: route_submit_def req_def)
  have "r = Ok" by (rule ccontr) (use eq assms(2) in \<open>cases r; auto\<close>)
  then show thesis using that [of sub req e jid] sub sp al eq by (auto simp: request_of_def req_def)
qed

lemma route_status_202:
  assumes "route_request r now ts m w = Some (resp, evs, m', w')" "resp_status resp = 202"
  shows "route_submit (req_body r) now ts m w = Some (resp, evs, m', w')"
proof -
  have cmd: "resp_status (command_response c e b) \<noteq> 202" for c e b by (cases c) (simp_all add: command_response_def)
  have "route_action jid act now ts m w = Some (resp, evs, m', w') \<Longrightarrow> False" for jid act
    using assms(2) cmd by (auto simp: route_action_def split: if_split_asm prod.splits option.splits)
  then show ?thesis using assms unfolding route_request_def Let_def by (auto split: if_split_asm)
qed

lemma job_id_body_render: "job_id_body (''job-'' @ nat_dec n) = render (JObject [(''job_id'', JString (''job-'' @ nat_dec n))])"
proof -
  have "json_escape (nat_dec n) = nat_dec n"
    by (rule escape_name) (use nat_dec_digits [of n] in \<open>auto simp: list_all_iff is_digit_def\<close>)
  then show ?thesis by (simp add: job_id_body_def escape_plain)
qed

text \<open>The path \<open>submit\<close> records for a path the router split: a file directly under the root gets a second
  slash.\<close>

definition recorded_path :: "string \<Rightarrow> string" where
  "recorded_path path = (if CHR ''/'' \<in> set (tl path) then path else CHR ''/'' # path)"

lemma split_recorded:
  assumes "split_path path = Some (d, n)"
  shows "d @ CHR ''/'' # n = recorded_path path"
proof -
  obtain p where p: "path = p @ CHR ''/'' # n" "d = (if p = [] then ''/'' else p)" "CHR ''/'' \<notin> set n"
    using split_path_lossless [OF assms] by blast
  then show ?thesis by (cases p) (auto simp: recorded_path_def)
qed

lemma submit_job_recorded:
  "request_of sub req \<Longrightarrow> submit_job jid req now =
     new_Job jid (recorded_path (submit_source sub)) (recorded_path (submit_dest sub)) now"
  using split_recorded [of "submit_source sub" "mr_source_dir req" "mr_source_name req"]
    split_recorded [of "submit_dest sub" "mr_dest_dir req" "mr_dest_name req"]
  by (simp add: request_of_def submit_job_def)

text \<open>
  C14. A submission is durable before it is acknowledged: an answer 202 means that the body named two
  absolute paths of files, that the store holds, under an id that was free, a queued job with these
  paths (a path directly under the root, as \<open>/x\<close>, is recorded with a second slash, as \<open>//x\<close>), and no other
  record has changed; that the manager will dispatch the job with the directories and names of the
  two paths; and that the answer is the JSON object with the id.
\<close>

theorem route_submit_durable:
  assumes "route_request r now ts m w = Some (resp, evs, m', w')" "resp_status resp = 202"
  shows "\<exists>sub req n. decode_submit_request (req_body r) = Inr sub \<and> request_of sub req \<and>
     abs_job w (''job-'' @ nat_dec n) = None \<and>
     abs_job w' = (abs_job w)(''job-'' @ nat_dec n \<mapsto> new_Job (''job-'' @ nat_dec n)
       (recorded_path (submit_source sub)) (recorded_path (submit_dest sub)) now) \<and>
     m_requests m' (''job-'' @ nat_dec n) = Some req \<and> ''job-'' @ nat_dec n \<in> set (m_runnable m') \<and>
     resp_body resp = render (JObject [(''job_id'', JString (''job-'' @ nat_dec n))])"
proof -
  obtain sub req jid e where sub: "decode_submit_request (req_body r) = Inr sub" "request_of sub req"
    "submit_allocated req now ts m w = ((Ok, e, jid), evs, m', w')" "resp_body resp = job_id_body jid"
    using route_submit_ok [OF route_status_202 [OF assms] assms(2)] .
  obtain q w1 e' where q: "next_sequence (m_conn m) w = (Inr q, w1)" "jid = ''job-'' @ nat_dec (unat q)"
    "submit jid req now ts m w1 = ((Ok, e'), evs, m', w')"
    using sub(3) by (auto simp: submit_allocated_def Let_def split: if_splits prod.splits sum.splits)
  obtain m1 u where rec: "record_intent (submit_job jid req now) [] (m_conn m1) w1 = (Inr u, w')"
    "m' = submit_publish jid req True m1" using q(3) by (rule submit_ok)
  have nf: "nul_free jid" "nul_free (mr_source_dir req)" "nul_free (mr_source_name req)"
    "nul_free (mr_dest_dir req)" "nul_free (mr_dest_name req)"
    using sub(2) decoded_nul_free [OF sub(1)] q(2) nul_free_split by (auto simp: request_of_def)
  have "abs_job w1 jid = None" "abs_job w' = (abs_job w1)(jid \<mapsto> submit_job jid req now)"
    using record_intent_abs [OF rec(1)] nf by (simp_all add: submit_job_def new_Job_def)
  then have stored: "abs_job w jid = None" "abs_job w' = (abs_job w)(jid \<mapsto> submit_job jid req now)"
    by (simp_all add: next_sequence_abs [OF q(1)])
  have disp: "m_requests m' jid = Some req" "jid \<in> set (m_runnable m')" unfolding rec(2) by (rule submit_publish_True)+
  have "resp_body resp = render (JObject [(''job_id'', JString jid)])"
    unfolding sub(4) unfolding q(2) by (rule job_id_body_render)
  then show ?thesis using sub(1,2) stored disp unfolding q(2) submit_job_recorded [OF sub(2)] by blast
qed

theorem route_submit_durable_witness:
  "\<exists>n. abs_job aw (''job-'' @ nat_dec n) = Some (new_Job (''job-'' @ nat_dec n) ''/a/x'' ''/b/y'' 5) \<and>
     ''job-'' @ nat_dec n \<in> set (m_runnable am)"
proof -
  have "resp_status (make_response 202 (job_id_body ''job-5'')) = 202" by simp
  from route_submit_durable [OF api_routed this] obtain sub req n where
    r: "decode_submit_request (req_body api_request) = Inr sub"
      "abs_job aw = (abs_job rw1)(''job-'' @ nat_dec n \<mapsto> new_Job (''job-'' @ nat_dec n)
         (recorded_path (submit_source sub)) (recorded_path (submit_dest sub)) 5)"
      "''job-'' @ nat_dec n \<in> set (m_runnable am)" by blast
  have "sub = \<lparr>submit_source = ''/a/x'', submit_dest = ''/b/y''\<rparr>" using r(1) api_decode by (simp add: api_request_def)
  then have "abs_job aw (''job-'' @ nat_dec n) = Some (new_Job (''job-'' @ nat_dec n) ''/a/x'' ''/b/y'' 5)"
    unfolding r(2) by (simp add: recorded_path_def)
  then show ?thesis using r(3) by blast
qed

section \<open>Commands\<close>

lemma segments_join:
  "list_all (\<lambda>s. s \<noteq> [] \<and> CHR ''/'' \<notin> set s) segs \<Longrightarrow> segments (concat (map (\<lambda>s. CHR ''/'' # s) segs)) = segs"
proof (induction segs)
  case Nil
  then show ?case by (simp add: segments.simps)
next
  case (Cons s segs)
  let ?rest = "concat (map (\<lambda>s. CHR ''/'' # s) segs)"
  have s: "s \<noteq> []" "CHR ''/'' \<notin> set s" using Cons.prems by simp_all
  have skip: "dropWhile (\<lambda>c. c = CHR ''/'') (CHR ''/'' # s @ ?rest) = s @ ?rest" using s by (cases s) auto
  have rest: "?rest = [] \<or> hd ?rest = CHR ''/''" by (cases segs) auto
  have tail: "takeWhile (\<lambda>c. c \<noteq> CHR ''/'') xs = [] \<and> dropWhile (\<lambda>c. c \<noteq> CHR ''/'') xs = xs"
    if "xs = [] \<or> hd xs = CHR ''/''" for xs using that by (cases xs) auto
  have "\<forall>c \<in> set s. c \<noteq> CHR ''/''" using s(2) by blast
  then have "takeWhile (\<lambda>c. c \<noteq> CHR ''/'') (s @ ?rest) = s" "dropWhile (\<lambda>c. c \<noteq> CHR ''/'') (s @ ?rest) = ?rest"
    using tail [OF rest] by (simp_all add: takeWhile_append2 dropWhile_append2)
  then have "segments (CHR ''/'' # s @ ?rest) = s # segments ?rest"
    using s(1) skip by (subst segments.simps) (simp add: Let_def)
  then show ?case using Cons by simp
qed

lemma path_segments_join:
  assumes "list_all (\<lambda>s. s \<noteq> [] \<and> CHR ''/'' \<notin> set s \<and> CHR ''?'' \<notin> set s) segs" and "query = [] \<or> hd query = CHR ''?''"
  shows "path_segments (concat (map (\<lambda>s. CHR ''/'' # s) segs) @ query) = segs"
proof -
  let ?path = "concat (map (\<lambda>s. CHR ''/'' # s) segs)"
  have q: "CHR ''?'' \<notin> set ?path" using assms(1) by (auto simp: list_all_iff)
  have s: "segments ?path = segs" using assms(1) by (intro segments_join) (auto simp: list_all_iff)
  show ?thesis
  proof (cases query)
    case Nil
    then show ?thesis using s find_char_None [THEN iffD2, OF q] by (simp add: path_segments_def)
  next
    case (Cons c cs)
    then have "find_char (CHR ''?'') (?path @ query) = Some (length ?path)" using assms(2) q by (simp add: find_char_hit)
    then show ?thesis using s by (simp add: path_segments_def substr_def)
  qed
qed

text \<open>The answer to a command: its status and its body.\<close>

definition answers :: "CommandResult \<Rightarrow> string \<Rightarrow> string \<Rightarrow> Response \<Rightarrow> bool" where
  "answers result e body resp \<longleftrightarrow>
     resp_status resp = (case result of Ok \<Rightarrow> 200 | UnknownJob \<Rightarrow> 404 | InvalidState \<Rightarrow> 409 | NotRunning \<Rightarrow> 503 | StoreError \<Rightarrow> 500) \<and>
     resp_body resp = (if result = Ok then body else encode_error e)"

lemma command_answers:
  "answers result e (if body = [] then status_ok_body else body) (command_response result e body)"
  by (cases result) (simp_all add: answers_def command_response_def)

lemma status_ok_render: "status_ok_body = render (JObject [(''status'', JString ''ok'')])"
  by (simp add: status_ok_body_def escape_plain)

lemma route_command_segments:
  assumes "req_target r = ''/api/jobs/'' @ jid @ ''/'' @ action @ query" and "jid \<noteq> []" "CHR ''/'' \<notin> set jid" "CHR ''?'' \<notin> set jid"
    and "action \<noteq> []" "CHR ''/'' \<notin> set action" "CHR ''?'' \<notin> set action" and "query = [] \<or> hd query = CHR ''?''"
  shows "path_segments (req_target r) = [''api'', ''jobs'', jid, action]"
  using path_segments_join [of "[''api'', ''jobs'', jid, action]" query] assms by simp

text \<open>
  C19. The command routes, for any job id and action without slash and question mark and any query: of a request for
  \<open>/api/jobs/<id>/<action>\<close> with method POST, \<open>pause\<close>, \<open>resume\<close>, \<open>cancel\<close> and \<open>retry\<close> each run exactly the
  command of that name on exactly that id, and its effect on manager, store and events is the effect of
  the request; the status is 200, 404, 409, 503 or 500 by the command's result, and the body says
  so, names the new job of a retry, or carries the command's diagnostic. A request with another method is
  answered 405 with \<open>Allow: POST\<close>, one with another action 404; neither changes anything.
\<close>

theorem route_command_exact:
  assumes "req_target r = ''/api/jobs/'' @ jid @ ''/'' @ action @ query" and "jid \<noteq> []" "CHR ''/'' \<notin> set jid" "CHR ''?'' \<notin> set jid"
    and "action \<noteq> []" "CHR ''/'' \<notin> set action" "CHR ''?'' \<notin> set action" and "query = [] \<or> hd query = CHR ''?''"
  shows "(action \<notin> {''pause'', ''resume'', ''cancel'', ''retry''} \<longrightarrow>
       (\<exists>resp. route_request r now ts m w = Some (resp, [], m, w) \<and> resp_status resp = 404)) \<and>
     (action \<in> {''pause'', ''resume'', ''cancel'', ''retry''} \<and> req_method r \<noteq> ''POST'' \<longrightarrow>
       (\<exists>resp. route_request r now ts m w = Some (resp, [], m, w) \<and> resp_status resp = 405 \<and> resp_allow resp = ''POST'')) \<and>
     (req_method r = ''POST'' \<longrightarrow>
       (\<forall>result e evs m'. action = ''pause'' \<and> pause jid ts m = ((result, e), evs, m') \<or>
            action = ''resume'' \<and> resume jid ts m = ((result, e), evs, m') \<longrightarrow>
          (\<exists>resp. route_request r now ts m w = Some (resp, evs, m', w) \<and>
             answers result e (render (JObject [(''status'', JString ''ok'')])) resp)) \<and>
       (\<forall>result e evs m' w'. action = ''cancel'' \<and> cancel jid ts m w = ((result, e), evs, m', w') \<longrightarrow>
          (\<exists>resp. route_request r now ts m w = Some (resp, evs, m', w') \<and>
             answers result e (render (JObject [(''status'', JString ''ok'')])) resp)) \<and>
       (\<forall>result e new evs m' w'. action = ''retry'' \<and> retry jid now ts m w = Some ((result, e, new), evs, m', w') \<longrightarrow>
          (\<exists>resp. route_request r now ts m w = Some (resp, evs, m', w') \<and> answers result e (job_id_body new) resp)))"
proof -
  let ?seg = "path_segments (req_target r)"
  have seg: "?seg = [''api'', ''jobs'', jid, action]" by (rule route_command_segments [OF assms])
  have act: "route_request r now ts m w = route_action jid action now ts m w"
    if "req_method r = ''POST''" "action \<in> {''pause'', ''resume'', ''cancel'', ''retry''}"
    using that assms(2) unfolding route_request_def Let_def seg by auto
  have ok: "answers result e (render (JObject [(''status'', JString ''ok'')])) (command_response result e [])" for result e
    using command_answers [of result e "[]"] by (simp only: status_ok_render if_True simp_thms)
  have rt: "answers result e (job_id_body new) (command_response result e (if result = Ok then job_id_body new else []))" for result e new
    by (cases result) (simp_all add: answers_def command_response_def job_id_body_def)
  show ?thesis
  proof (intro conjI impI allI)
    assume "action \<notin> {''pause'', ''resume'', ''cancel'', ''retry''}"
    then show "\<exists>resp. route_request r now ts m w = Some (resp, [], m, w) \<and> resp_status resp = 404"
      unfolding route_request_def Let_def seg by simp
  next
    assume "action \<in> {''pause'', ''resume'', ''cancel'', ''retry''} \<and> req_method r \<noteq> ''POST''"
    then show "\<exists>resp. route_request r now ts m w = Some (resp, [], m, w) \<and> resp_status resp = 405 \<and> resp_allow resp = ''POST''"
      unfolding route_request_def Let_def seg by auto
  qed (use act ok rt in \<open>auto simp: route_action_def\<close>)
qed

theorem route_command_exact_witness:
  "\<exists>resp. route_request (api_request\<lparr>req_target := ''/api/jobs/j9/pause?x=1''\<rparr>) 5 6 rm3 rw2 =
     Some (resp, fst (snd (pause ''j9'' 6 rm3)), snd (snd (pause ''j9'' 6 rm3)), rw2) \<and> resp_status resp = 200"
proof -
  have "fst (pause ''j9'' 6 rm3) = (Ok, [])" by code_simp
  then obtain evs m' where "pause ''j9'' 6 rm3 = ((Ok, []), evs, m')" by (metis prod.collapse)
  then show ?thesis
    using route_command_exact [of "api_request\<lparr>req_target := ''/api/jobs/j9/pause?x=1''\<rparr>" "''j9''" "''pause''" "''?x=1''" 5 6 rm3 rw2]
    by (auto simp: answers_def api_request_def)
qed

end
