(* ===== verification/Http_Service_Laws.thy ===== *)
theory Http_Service_Laws
  imports Http_Service Router_Laws Server_Laws
begin

text \<open>
  What a connection can do. A peer can make the service read only so much; nothing but a
  well-formed request with exactly its declared body reaches the router; and how the network cuts
  a request into pieces does not matter.
\<close>

declare split_paired_All [simp del] split_paired_Ex [simp del]

section \<open>Bounds\<close>

lemma need_more_short: "parse_request_head data max_head = NeedMore \<Longrightarrow> length data \<le> max_head"
  by (auto simp: parse_request_head_def split: option.splits if_splits sum.splits)

lemma read_head_bound:
  "read_head max_head buffer es = (res, buffer', es') \<Longrightarrow> length buffer \<le> max_head + 2048 \<Longrightarrow> length buffer' \<le> max_head + 2048"
proof (induction max_head buffer es rule: read_head.induct)
  case (1 max_head buffer es)
  note prem = "1.prems"(1) [unfolded read_head.simps [of max_head buffer es]]
  show ?case
  proof (cases "parse_request_head buffer max_head = NeedMore")
    case True
    obtain r got es1 where rs: "read_some 2048 es = (r, got, es1)" by (metis prod.collapse)
    show ?thesis
    proof (cases "r = IoOk")
      case ok: True
      have "length (buffer @ got) \<le> max_head + 2048"
        using need_more_short [OF True] read_some_bounds [OF rs] by simp
      moreover have "read_head max_head (buffer @ got) es1 = (res, buffer', es')" using prem True rs ok by simp
      ultimately show ?thesis using "1.IH" [OF True rs [symmetric] ok refl] by blast
    next
      case False
      then show ?thesis using prem True rs "1.prems"(2) by (cases r) auto
    qed
  next
    case False
    then show ?thesis using prem "1.prems"(2) by (auto split: HeadParse.splits)
  qed
qed

lemma read_body_length:
  "read_body remaining buffer es = (ok, buffer', es') \<Longrightarrow>
    length buffer' \<le> length buffer + remaining \<and> (ok \<longrightarrow> length buffer' = length buffer + remaining)"
proof (induction remaining buffer es rule: read_body.induct)
  case (1 remaining buffer es)
  note prem = "1.prems" [unfolded read_body.simps [of remaining buffer es]]
  show ?case
  proof (cases "remaining = 0")
    case False
    obtain r got es1 where rs: "read_some (if remaining < 4096 then remaining else 4096) es = (r, got, es1)"
      by (metis prod.collapse)
    have got: "length got \<le> remaining" using read_some_bounds [OF rs] by (auto split: if_splits)
    show ?thesis
    proof (cases "r = IoOk")
      case True
      then have "read_body (remaining - length got) (buffer @ got) es1 = (ok, buffer', es')" using prem False rs by simp
      then show ?thesis using "1.IH" [OF False rs [symmetric] True refl] got by simp
    next
      case notok: False
      then show ?thesis using prem False rs by (cases r) auto
    qed
  qed (use prem in auto)
qed

lemma read_head_headed:
  "read_head max_head buffer es = (Headed r n, buffer', es') \<Longrightarrow> parse_request_head buffer' max_head = HeadOk r n"
proof (induction max_head buffer es rule: read_head.induct)
  case (1 max_head buffer es)
  note prem = "1.prems"(1) [unfolded read_head.simps [of max_head buffer es]]
  show ?case
  proof (cases "parse_request_head buffer max_head")
    case NeedMore
    obtain io got es1 where rs: "read_some 2048 es = (io, got, es1)" by (metis prod.collapse)
    then have "io = IoOk" "read_head max_head (buffer @ got) es1 = (Headed r n, buffer', es')"
      using prem NeedMore by (cases io; auto)+
    then show ?thesis using "1.IH" [OF NeedMore rs [symmetric]] by blast
  qed (use prem in auto)
qed

definition within_limits :: "HttpServiceOptions \<Rightarrow> int \<Rightarrow> int \<Rightarrow> manager \<Rightarrow> world \<Rightarrow> served \<Rightarrow> bool" where
  "within_limits options now ts m w s \<longleftrightarrow> sv_bytes_read s \<le> max_head_bytes options + max 2048 (max_body_bytes options) \<and>
     (sv_events s = [] \<and> sv_manager s = m \<and> sv_world s = w \<or>
      (\<exists>r body resp. head_ok r \<and> content_length_for r (max_body_bytes options) = Inr (length body) \<and>
         route_request (r\<lparr>req_body := body\<rparr>) now ts m w = Some (resp, sv_events s, sv_manager s, sv_world s) \<and>
         sv_reply s = Some resp))"

lemma served_head_within:
  assumes "serve_connection options es now ts m w = Some s"
    and h: "read_head (max_head_bytes options) [] es = (Headed r n, buffer, es1)"
  shows "within_limits options now ts m w s"
proof -
  have len: "length buffer \<le> max_head_bytes options + 2048" using read_head_bound [OF h] by simp
  note ok = read_head_headed [OF h]
  have n: "n \<le> max_head_bytes options" "n \<le> length buffer" using parse_request_head_len [OF ok] by auto
  show ?thesis
  proof (cases "content_length_for r (max_body_bytes options)")
    case (Inl p)
    then show ?thesis using assms h len by (cases p) (auto simp: serve_connection_def within_limits_def Let_def)
  next
    case (Inr declared)
    have d: "declared \<le> max_body_bytes options"
      using Inr by (auto simp: content_length_for_def split: if_splits option.splits sum.splits)
    show ?thesis
    proof (cases "length buffer - n > declared")
      case True
      then show ?thesis using assms h Inr len by (auto simp: serve_connection_def within_limits_def Let_def)
    next
      case False
      obtain full buffer1 es2 where b: "read_body (declared - (length buffer - n)) buffer es1 = (full, buffer1, es2)"
        by (metis prod.collapse)
      have b1: "length buffer1 \<le> n + declared" "full \<Longrightarrow> length buffer1 = n + declared"
        using read_body_length [OF b] False n by auto
      let ?q = "r\<lparr>req_body := substr n declared buffer1\<rparr>"
      show ?thesis
      proof (cases full)
        case True
        then obtain resp evs m1 w1 where rt: "route_request ?q now ts m w = Some (resp, evs, m1, w1)"
          "s = \<lparr>sv_reply = Some resp, sv_bytes_read = length buffer1, sv_events = evs, sv_manager = m1, sv_world = w1\<rparr>"
          using assms h Inr False b by (auto simp: serve_connection_def Let_def split: option.splits)
        have "length (substr n declared buffer1) = declared" using b1(2) True by (simp add: substr_def)
        then show ?thesis using rt Inr parse_request_head_ok [OF ok] b1(2) True n d
          unfolding within_limits_def by (intro conjI disjI2 exI [of _ r] exI [of _ "substr n declared buffer1"] exI [of _ resp]) auto
      next
        case False
        then show ?thesis using assms h Inr \<open>\<not> length buffer - n > declared\<close> b b1(1) n d
          by (auto simp: serve_connection_def within_limits_def Let_def)
      qed
    qed
  qed
qed

text \<open>
  C17. A peer cannot make the service read without limit, nor act on what is not a request: whatever
  arrives, at most the head limit plus the larger of one read and the body limit is read, and
  either the manager, the store and the event stream are untouched, or a well-formed request was
  routed whose body has exactly the length its head declared, within the limit.
\<close>

theorem serve_bounded:
  assumes "serve_connection options es now ts m w = Some s"
  shows "sv_bytes_read s \<le> max_head_bytes options + max 2048 (max_body_bytes options) \<and>
     (sv_events s = [] \<and> sv_manager s = m \<and> sv_world s = w \<or>
      (\<exists>r body resp. head_ok r \<and> content_length_for r (max_body_bytes options) = Inr (length body) \<and>
         route_request (r\<lparr>req_body := body\<rparr>) now ts m w = Some (resp, sv_events s, sv_manager s, sv_world s) \<and>
         sv_reply s = Some resp))"
proof -
  obtain he buffer es1 where h: "read_head (max_head_bytes options) [] es = (he, buffer, es1)" by (metis prod.collapse)
  have len: "length buffer \<le> max_head_bytes options + 2048" using read_head_bound [OF h] by simp
  show ?thesis
  proof (cases he)
    case (Headed r n)
    then show ?thesis using served_head_within [OF assms] h by (simp add: within_limits_def)
  qed (use assms h len in \<open>auto simp: serve_connection_def Let_def\<close>)
qed

section \<open>Fragmentation\<close>

text \<open>A stream that delivers its bytes, in pieces of any size and with interruptions.\<close>

fun clean :: "recv_event list \<Rightarrow> bool" where
  "clean [] \<longleftrightarrow> True"
| "clean (Data d # es) \<longleftrightarrow> d \<noteq> [] \<and> clean es"
| "clean (RecvInterrupted # es) \<longleftrightarrow> clean es"
| "clean (_ # es) \<longleftrightarrow> False"

fun stream_bytes :: "recv_event list \<Rightarrow> string" where
  "stream_bytes [] = []"
| "stream_bytes (Data d # es) = d @ stream_bytes es"
| "stream_bytes (_ # es) = stream_bytes es"

lemma recv_loop_clean:
  "clean es \<Longrightarrow> stream_bytes es \<noteq> [] \<Longrightarrow> 0 < cap \<Longrightarrow>
    \<exists>got es'. recv_loop cap es = (IoOk, got, es') \<and> stream_bytes es = got @ stream_bytes es' \<and> clean es'"
  by (induction cap es rule: recv_loop.induct) auto

lemma read_some_clean:
  "clean es \<Longrightarrow> stream_bytes es \<noteq> [] \<Longrightarrow> 0 < cap \<Longrightarrow>
    \<exists>got es'. read_some cap es = (IoOk, got, es') \<and> stream_bytes es = got @ stream_bytes es' \<and> clean es'"
  using recv_loop_clean by (simp add: read_some_def)

lemma read_head_clean:
  "clean es \<Longrightarrow> parse_request_head (buffer @ stream_bytes es) max_head = HeadOk r n \<Longrightarrow>
    \<exists>buffer' es'. read_head max_head buffer es = (Headed r n, buffer', es') \<and> clean es' \<and>
      buffer' @ stream_bytes es' = buffer @ stream_bytes es"
proof (induction max_head buffer es rule: read_head.induct)
  case (1 max_head buffer es)
  let ?all = "buffer @ stream_bytes es"
  have take: "take (length buffer) ?all = buffer" by simp
  show ?case
  proof (cases "length buffer < n")
    case True
    have need: "parse_request_head buffer max_head = NeedMore"
      using parse_request_head_prefix [OF "1.prems"(2) True] by simp
    have "stream_bytes es \<noteq> []" using need "1.prems"(2) by auto
    then obtain got es1 where rs: "read_some 2048 es = (IoOk, got, es1)" "stream_bytes es = got @ stream_bytes es1" "clean es1"
      using read_some_clean [OF "1.prems"(1), of 2048] by auto
    have "parse_request_head ((buffer @ got) @ stream_bytes es1) max_head = HeadOk r n" using "1.prems"(2) rs(2) by simp
    from "1.IH" [OF need rs(1) [symmetric] refl refl rs(3) this] show ?thesis
      using need rs(1,2) by (subst read_head.simps) simp
  next
    case False
    then have "parse_request_head buffer max_head = HeadOk r n"
      using parse_request_head_take [OF "1.prems"(2), of "length buffer"] by simp
    then show ?thesis using "1.prems"(1) by (subst read_head.simps) simp
  qed
qed

lemma read_body_clean:
  "clean es \<Longrightarrow> length (stream_bytes es) = remaining \<Longrightarrow>
    \<exists>es'. read_body remaining buffer es = (True, buffer @ stream_bytes es, es')"
proof (induction remaining buffer es rule: read_body.induct)
  case (1 remaining buffer es)
  show ?case
  proof (cases "remaining = 0")
    case True
    then show ?thesis using "1.prems" by (subst read_body.simps) simp
  next
    case False
    let ?cap = "if remaining < 4096 then remaining else 4096"
    have "stream_bytes es \<noteq> []" "0 < ?cap" using False "1.prems"(2) by auto
    then obtain got es1 where rs: "read_some ?cap es = (IoOk, got, es1)" "stream_bytes es = got @ stream_bytes es1" "clean es1"
      using read_some_clean "1.prems"(1) by blast
    have "length (stream_bytes es1) = remaining - length got" using "1.prems"(2) rs(2) by simp
    from "1.IH" [OF False rs(1) [symmetric] refl refl rs(3) this] show ?thesis
      using False rs(1,2) by (subst read_body.simps) simp
  qed
qed

lemma serve_whole:
  assumes "clean es" "stream_bytes es = render_request_head r @ body" "head_ok r"
    "length (render_request_head r) \<le> max_head_bytes options"
    "content_length_for r (max_body_bytes options) = Inr (length body)"
    "route_request (r\<lparr>req_body := body\<rparr>) now ts m w = Some (resp, evs, m', w')"
  shows "serve_connection options es now ts m w =
     Some \<lparr>sv_reply = Some resp, sv_bytes_read = length (stream_bytes es), sv_events = evs, sv_manager = m', sv_world = w'\<rparr>"
proof -
  let ?n = "length (render_request_head r)"
  have "parse_request_head ([] @ stream_bytes es) (max_head_bytes options) = HeadOk r ?n"
    using parse_rendered_head [OF assms(3,4), of body] assms(2) by simp
  from read_head_clean [OF assms(1) this] obtain buffer es1 where
    h: "read_head (max_head_bytes options) [] es = (Headed r ?n, buffer, es1)" "clean es1"
      "buffer @ stream_bytes es1 = stream_bytes es" by auto
  have n: "?n \<le> length buffer" using parse_request_head_len [OF read_head_headed [OF h(1)]] by simp
  have total: "length buffer + length (stream_bytes es1) = ?n + length body"
    using arg_cong [OF h(3), of length] assms(2) by simp
  then have arrived: "\<not> length buffer - ?n > length body" and
    "length (stream_bytes es1) = length body - (length buffer - ?n)" using n by linarith+
  then obtain es2 where b: "read_body (length body - (length buffer - ?n)) buffer es1 = (True, stream_bytes es, es2)"
    using read_body_clean [OF h(2), of _ buffer] h(3) by auto
  have "substr ?n (length body) (stream_bytes es) = body" using assms(2) by (simp add: substr_def)
  then show ?thesis using h(1) assms(5,6) arrived b by (simp add: serve_connection_def Let_def)
qed

text \<open>
  C18. Fragmentation does not matter: however the network cuts the bytes of a well-formed request and
  its body into pieces, and however often a read is interrupted, the connection is answered with
  what the router answers to that request, with exactly that body.
\<close>

theorem serve_fragmented:
  assumes "clean es" "stream_bytes es = render_request_head r @ body" "head_ok r"
    "length (render_request_head r) \<le> max_head_bytes options"
    "content_length_for r (max_body_bytes options) = Inr (length body)"
    "route_request (r\<lparr>req_body := body\<rparr>) now ts m w = Some (resp, evs, m', w')"
  shows "serve_connection options es now ts m w =
     Some \<lparr>sv_reply = Some resp, sv_bytes_read = length (stream_bytes es), sv_events = evs, sv_manager = m', sv_world = w'\<rparr>"
  by (rule serve_whole [OF assms])

section \<open>Concrete connections\<close>

definition small_options :: HttpServiceOptions where
  "small_options = \<lparr>max_head_bytes = 40, max_body_bytes = 10\<rparr>"

definition health_request :: Request where
  "health_request = \<lparr>req_method = ''GET'', req_target = ''/healthz'', req_version = ''HTTP/1.1'', req_headers = [], req_body = []\<rparr>"

definition health_head :: string where
  "health_head = ''GET /healthz HTTP/1.1'' @ BLANK"

lemma health_facts:
  "render_request_head health_request = health_head" "head_ok health_request" "length health_head \<le> 40"
  "content_length_for health_request 10 = Inr 0" "path_segments ''/healthz'' = [''healthz'']"
  by code_simp+

lemma health_routed: "route_request health_request now ts m w = Some (make_response 200 status_ok_body, [], m, w)"
  by (simp add: route_request_def health_request_def health_facts)

theorem serve_fragmented_witness:
  "serve_connection small_options [Data (take 9 health_head), RecvInterrupted, Data (drop 9 health_head)] 1 2 rm1 rw1 =
     Some \<lparr>sv_reply = Some (make_response 200 status_ok_body), sv_bytes_read = length health_head, sv_events = [],
       sv_manager = rm1, sv_world = rw1\<rparr>"
proof -
  let ?es = "[Data (take 9 health_head), RecvInterrupted, Data (drop 9 health_head)]"
  have "clean ?es" by code_simp
  moreover have bytes: "stream_bytes ?es = health_head" by simp
  then have "stream_bytes ?es = render_request_head health_request @ []" by (simp add: health_facts)
  moreover have "route_request (health_request\<lparr>req_body := []\<rparr>) 1 2 rm1 rw1 = Some (make_response 200 status_ok_body, [], rm1, rw1)"
    using health_routed by (simp add: health_request_def)
  ultimately show ?thesis
    using serve_fragmented [of ?es health_request "[]" small_options 1 2 rm1 rw1] health_facts bytes
    by (simp add: small_options_def)
qed

theorem serve_bounded_witness:
  "sv_bytes_read (the (serve_connection small_options [Data ''GET'', RecvFailed] 1 2 rm1 rw1)) \<le> 2088"
proof -
  have "read_head 40 [] [Data ''GET'', RecvFailed] = (Silent, ''GET'', [])" by code_simp
  then have s: "serve_connection small_options [Data ''GET'', RecvFailed] 1 2 rm1 rw1 =
      Some \<lparr>sv_reply = None, sv_bytes_read = 3, sv_events = [], sv_manager = rm1, sv_world = rw1\<rparr>"
    by (simp add: serve_connection_def small_options_def)
  from serve_bounded [OF s] show ?thesis unfolding s by (simp add: small_options_def)
qed

text \<open>
  Whether bytes beyond the declared body are refused depends on when they arrive: in the same
  read as the end of the head they get a 400, one read later the request is served and they are
  never looked at.
\<close>

theorem surplus_depends_on_timing:
  "map_option sv_reply (serve_connection small_options [Data (health_head @ ''x'')] now ts m w) =
     Some (Some (refusal 400 ''unexpected bytes after the declared body'')) \<and>
   map_option sv_reply (serve_connection small_options [Data health_head, Data ''x''] now ts m w) =
     Some (Some (make_response 200 status_ok_body))"
proof
  have "read_head 40 [] [Data (health_head @ ''x'')] = (Headed health_request 25, health_head @ ''x'', [])" by code_simp
  moreover have "length health_head = 25" by code_simp
  ultimately show "map_option sv_reply (serve_connection small_options [Data (health_head @ ''x'')] now ts m w) =
     Some (Some (refusal 400 ''unexpected bytes after the declared body''))"
    by (simp add: serve_connection_def small_options_def health_facts)
next
  have "read_head 40 [] [Data health_head, Data ''x''] = (Headed health_request 25, health_head, [Data ''x''])" by code_simp
  moreover have "length health_head = 25" by code_simp
  moreover have "route_request (health_request\<lparr>req_body := []\<rparr>) now ts m w = Some (make_response 200 status_ok_body, [], m, w)"
    using health_routed by (simp add: health_request_def)
  ultimately show "map_option sv_reply (serve_connection small_options [Data health_head, Data ''x''] now ts m w) =
     Some (Some (make_response 200 status_ok_body))"
    by (simp add: serve_connection_def small_options_def health_facts read_body.simps substr_def)
qed

end
