(* ===== verification/Delivery.thy ===== *)
theory Delivery
  imports Http_Service_Laws
begin

text \<open>
  From the first byte to the delivered file: the connection loop, the parser, the codec, the router,
  the manager, the store and the move engine composed. When nothing fails, a submission that arrives
  at an idle daemon is accepted, recorded, dispatched and carried out.
\<close>

declare split_paired_All [simp del] split_paired_Ex [simp del]

section \<open>The store without failures\<close>

lemma next_sequence_healthy:
  assumes "healthy_store c w" "db_seq (w_db w) = Some v" "0 \<le> v" "v + 1 < 2 ^ 31"
  obtains w' where "next_sequence c w = (Inr (to_u64 (v + 1)), w')" "db_step w w'" "db_find w' = db_find w"
proof -
  obtain r w' where n: "next_sequence c w = (r, w')" by fastforce
  have "\<exists>u. r = Inr u"
    using n assms(1,2) by (auto simp: next_sequence_def healthy_store_def exec_sql_fault_free sql_write_def
        sql_call_fault_free query_int_def query_value_fault_free Let_def)
  with next_sequence_cases [OF n] assms(2) have r: "r = Inr (to_u64 (column_int (v + 1)))"
    and wr: "written w ((w_db w)\<lparr>db_seq := Some (v + 1)\<rparr>) w'" by auto
  note W = writtenD [OF wr]
  have "db_step w w'" by (simp add: db_step_def env_step_def W db_wf_def)
  moreover have "db_find w' = db_find w" by (simp add: fun_eq_iff db_find_def W)
  moreover have "r = Inr (to_u64 (v + 1))" using r assms(3,4) by (simp add: column_int_small)
  ultimately show thesis using that n by blast
qed

lemma record_intent_healthy:
  assumes "healthy_store c w" "db_find w k = None" "nul_free k" "nul_free (mr_source_dir req)" "nul_free (mr_source_name req)"
    "nul_free (mr_dest_dir req)" "nul_free (mr_dest_name req)"
  obtains w' where "record_intent (submit_job k req now) [] c w = (Inr (), w')" "db_step w w'" "durable_state w' k = Some Queued"
proof -
  let ?j = "submit_job k req now"
  obtain r w' where n: "record_intent ?j [] c w = (r, w')" by fastforce
  have "row_check (row_of_job ?j [])" by (simp add: row_check_def row_of_job_def submit_job_def new_Job_def)
  then have "r = Inr ()"
    using n assms(1-3) by (auto simp: record_intent_def healthy_store_def sql_insert_job_def sql_write_def db_find_def
        sql_call_fault_free row_of_job_def submit_job_def new_Job_def)
  note ok = n [unfolded this]
  have wr: "written w ((w_db w)\<lparr>db_jobs := db_jobs (w_db w) @ [row_of_job ?j []]\<rparr>) w'"
    using ok by (cases rule: record_intent_cases) auto
  note W = writtenD [OF wr]
  have "db_wf (w_db w')"
    using assms(1-3) \<open>row_check (row_of_job ?j [])\<close>
    by (auto simp: W healthy_store_def db_find_def row_of_job_def submit_job_def new_Job_def intro!: db_wf_insert)
  then have "db_step w w'" by (simp add: db_step_def env_step_def W)
  moreover have "durable_state w' k = Some Queued"
    using record_intent_abs(2) [OF ok] assms(3-) by (simp add: durable_state_def submit_job_def new_Job_def)
  ultimately show thesis using that ok by blast
qed

section \<open>Submission\<close>

text \<open>A manager that is idle and whose next id, given by the sequence of the store, is unused.\<close>

definition ready_for :: "nat \<Rightarrow> manager \<Rightarrow> world \<Rightarrow> bool" where
  "ready_for n m w \<longleftrightarrow> m_running m \<and> idle m \<and> healthy_store (m_conn m) w \<and>
     0 < n \<and> int n < 2 ^ 31 \<and> db_seq (w_db w) = Some (int n - 1) \<and>
     m_requests m (''job-'' @ nat_dec n) = None \<and> ''job-'' @ nat_dec n \<notin> m_pending m \<and>
     db_find w (''job-'' @ nat_dec n) = None"

lemma submit_allocated_ready:
  assumes "ready_for n m w" "nul_free (mr_source_dir req)" "nul_free (mr_source_name req)"
    "nul_free (mr_dest_dir req)" "nul_free (mr_dest_name req)"
  obtains evs m1 w1 where
    "submit_allocated req now ts m w = ((Ok, [], ''job-'' @ nat_dec n), evs, m1, w1)"
    "db_step w w1" "durable_state w1 (''job-'' @ nat_dec n) = Some Queued"
    "m1 = m\<lparr>m_requests := (m_requests m)(''job-'' @ nat_dec n \<mapsto> req), m_runnable := [''job-'' @ nat_dec n]\<rparr>"
proof -
  let ?k = "''job-'' @ nat_dec n"
  have R: "m_running m" "idle m" "healthy_store (m_conn m) w" "db_seq (w_db w) = Some (int n - 1)"
    "m_requests m ?k = None" "?k \<notin> m_pending m" "db_find w ?k = None" "0 \<le> int n - 1" "int n - 1 + 1 < 2 ^ 31"
    using assms(1) by (auto simp: ready_for_def)
  obtain w1 where s: "next_sequence (m_conn m) w = (Inr (to_u64 (int n - 1 + 1)), w1)" "db_step w w1" "db_find w1 = db_find w"
    by (rule next_sequence_healthy [OF R(3,4,8,9)])
  have u: "unat (to_u64 (int n)) = n" using R(9) by (simp add: to_u64_small)
  have h1: "healthy_store (m_conn m) w1" by (rule healthy_step [OF db_step_env [OF s(2)] R(3)])
  obtain w2 where rec: "record_intent (submit_job ?k req now) [] (m_conn m) w1 = (Inr (), w2)" "db_step w1 w2"
    "durable_state w2 ?k = Some Queued"
    by (rule record_intent_healthy [OF h1, of ?k req]) (use R(7) s(3) assms in simp_all)
  have cl: "submit_claim ?k m = Inr (m\<lparr>m_pending := insert ?k (m_pending m)\<rparr>)"
    using R by (simp add: submit_claim_def)
  define m1 where "m1 = m\<lparr>m_requests := (m_requests m)(?k \<mapsto> req), m_runnable := [?k]\<rparr>"
  have pub: "submit_publish ?k req True (m\<lparr>m_pending := insert ?k (m_pending m)\<rparr>) = m1"
    using R by (simp add: submit_publish_def m1_def idle_def)
  obtain evs where "submit ?k req now ts m w1 = ((Ok, []), evs, m1, w2)"
    using cl rec(1) pub by (simp add: submit_def)
  then have "submit_allocated req now ts m w = ((Ok, [], ?k), evs, m1, w2)"
    using R(1) s(1) u by (simp add: submit_allocated_def Let_def)
  moreover have "db_step w w2" using s(2) rec(2) by (auto simp: db_step_def intro: env_step_trans)
  ultimately show thesis using that rec(3) m1_def by blast
qed

section \<open>The move\<close>

lemma worker_record_delivers:
  assumes h: "healthy_store c w" and m: "movable k req r ob w" and s: "durable_state w k = Some Queued"
    and pl: "placed r ob AtSource (w_fs w)"
  obtains e w' where "worker_record cfg k req st now c w = ((None, MoveCompleted, e), w')" "durable_state w' k = Some Done"
    "fs_at (w_fs w') (rt_dd r) (rt_dn r) = Some ob" "fs_at (w_fs w') (rt_sd r) (rt_sn r) = None"
proof -
  obtain out e w' where ex: "execute k req st c w = ((out, e), w')" by (metis prod.collapse)
  have out: "out = MoveCompleted" using execute_completes [OF h m s pl, of st] ex by simp
  have I: "quiet w" "nul_free k" "follows k req r (w_fs w)" using h m by (simp_all add: healthy_store_def movable_def)
  have "accounted r ob out k w w'"
    by (rule execute_accounted [OF ex I]) (use pl in \<open>simp add: placed_def\<close>)
  then have "durable_state w' k = Some Done" "fs_at (w_fs w') (rt_dd r) (rt_dn r) = Some ob"
    "fs_at (w_fs w') (rt_sd r) (rt_sn r) = None"
    using out s pl by (simp_all add: accounted_def placed_def)
  then show thesis using that ex out by (simp add: worker_record_def)
qed

section \<open>End to end\<close>

text \<open>The bytes of a submission: a well-formed head for the submission route, within the limits, and a
  body that names the move.\<close>

definition submission :: "HttpServiceOptions \<Rightarrow> Request \<Rightarrow> string \<Rightarrow> MoveRequest \<Rightarrow> bool" where
  "submission options r body req \<longleftrightarrow> head_ok r \<and> req_method r = ''POST'' \<and> path_segments (req_target r) = [''api'', ''jobs''] \<and>
     length (render_request_head r) \<le> max_head_bytes options \<and>
     content_length_for r (max_body_bytes options) = Inr (length body) \<and>
     (\<exists>sub. decode_submit_request body = Inr sub \<and> request_of sub req)"

lemma route_submission:
  assumes "submission options r body req" "ready_for n m w"
  obtains evs m1 w1 where
    "route_request (r\<lparr>req_body := body\<rparr>) now ts m w = Some (make_response 202 (job_id_body (''job-'' @ nat_dec n)), evs, m1, w1)"
    "db_step w w1" "durable_state w1 (''job-'' @ nat_dec n) = Some Queued"
    "m1 = m\<lparr>m_requests := (m_requests m)(''job-'' @ nat_dec n \<mapsto> req), m_runnable := [''job-'' @ nat_dec n]\<rparr>"
proof -
  let ?k = "''job-'' @ nat_dec n"
  obtain sub where sub: "decode_submit_request body = Inr sub" "request_of sub req"
    using assms(1) by (auto simp: submission_def)
  have nf: "nul_free (mr_source_dir req)" "nul_free (mr_source_name req)" "nul_free (mr_dest_dir req)" "nul_free (mr_dest_name req)"
    using sub(2) decoded_nul_free [OF sub(1)] nul_free_split by (auto simp: request_of_def)
  obtain evs m1 w1 where al: "submit_allocated req now ts m w = ((Ok, [], ?k), evs, m1, w1)"
    and rest: "db_step w w1" "durable_state w1 ?k = Some Queued" "m1 = m\<lparr>m_requests := (m_requests m)(?k \<mapsto> req), m_runnable := [?k]\<rparr>"
    by (rule submit_allocated_ready [OF assms(2) nf])
  have sp: "split_path (submit_source sub) = Some (mr_source_dir req, mr_source_name req)"
    "split_path (submit_dest sub) = Some (mr_dest_dir req, mr_dest_name req)" using sub(2) by (simp_all add: request_of_def)
  have "route_submit body now ts m w = Some (make_response 202 (job_id_body ?k), evs, m1, w1)"
    using al by (cases req) (simp add: route_submit_def sub(1) sp)
  then have "route_request (r\<lparr>req_body := body\<rparr>) now ts m w = Some (make_response 202 (job_id_body ?k), evs, m1, w1)"
    using assms(1) by (simp add: route_request_def submission_def)
  then show thesis using that rest by blast
qed

text \<open>
  C3. A request is carried out. Let the bytes of a submission arrive at an idle daemon, cut into pieces
  in any way, and let no call fail. Then the connection is answered with 202 and the id of the job,
  the next free worker takes exactly this job, its round ends with the move completed, the job
  durably DONE and the file under its destination name and no longer under its source name, and
  the manager is idle again.
\<close>

theorem request_delivers:
  assumes "clean es" "stream_bytes es = render_request_head r @ body" "submission options r body req"
    and "ready_for n m w" "k = ''job-'' @ nat_dec n" "c_open c" "\<not> c_query_only c"
    and "movable k req rt ob w" "placed rt ob AtSource (w_fs w)"
  shows "\<exists>s m2 e w'. serve_connection options es now ts m w = Some s \<and>
     sv_reply s = Some (make_response 202 (job_id_body k)) \<and>
     worker_ready (sv_manager s) \<and> worker_take (sv_manager s) = ((k, req, m_strategy m), m2) \<and>
     worker_record (m_config m) k req (m_strategy m) now' c (sv_world s) = ((None, MoveCompleted, e), w') \<and>
     durable_state w' k = Some Done \<and> fs_at (w_fs w') (rt_dd rt) (rt_dn rt) = Some ob \<and>
     fs_at (w_fs w') (rt_sd rt) (rt_sn rt) = None \<and> idle (worker_settle k None m2)"
proof -
  obtain evs m1 w1 where rt: "route_request (r\<lparr>req_body := body\<rparr>) now ts m w = Some (make_response 202 (job_id_body k), evs, m1, w1)"
    and step: "db_step w w1" and queued: "durable_state w1 k = Some Queued"
    and m1: "m1 = m\<lparr>m_requests := (m_requests m)(k \<mapsto> req), m_runnable := [k]\<rparr>"
    using route_submission [OF assms(3,4)] assms(5) by metis
  have sv: "serve_connection options es now ts m w = Some \<lparr>sv_reply = Some (make_response 202 (job_id_body k)),
      sv_bytes_read = length (stream_bytes es), sv_events = evs, sv_manager = m1, sv_world = w1\<rparr>"
    using serve_whole [OF assms(1,2) _ _ _ rt] assms(3) by (simp add: submission_def)
  have idle: "m_runnable m = []" "m_active m = {}" and h: "healthy_store c w"
    using assms(4,6,7) by (simp_all add: ready_for_def idle_def healthy_store_def)
  define m2 where "m2 = m1\<lparr>m_runnable := [], m_active := {k}\<rparr>"
  have take: "worker_take m1 = ((k, req, m_strategy m), m2)" and ready: "worker_ready m1"
    and settle: "idle (worker_settle k None m2)"
    using idle by (simp_all add: worker_take_def worker_ready_def worker_settle_def idle_def m1 m2_def)
  note e1 = db_step_env [OF step]
  have "placed rt ob AtSource (w_fs w1)" using assms(9) step by (simp add: db_step_def)
  then obtain e w' where "worker_record (m_config m) k req (m_strategy m) now' c w1 = ((None, MoveCompleted, e), w')"
    "durable_state w' k = Some Done" "fs_at (w_fs w') (rt_dd rt) (rt_dn rt) = Some ob" "fs_at (w_fs w') (rt_sd rt) (rt_sn rt) = None"
    by (rule worker_record_delivers [OF healthy_step [OF e1 h] movable_step [OF e1 assms(8)] queued])
  then show ?thesis using sv take ready settle by auto
qed

text \<open>A concrete submission to a daemon that has just started: /in/a goes to /out/b as job-5.\<close>

definition dl_body :: string where
  "dl_body = render (JObject [(''source'', JString ''/in/a''), (''dest'', JString ''/out/b'')])"

definition dl_request :: Request where
  "dl_request = \<lparr>req_method = ''POST'', req_target = ''/api/jobs'', req_version = ''HTTP/1.1'',
     req_headers = [(''content-length'', nat_dec (length dl_body))], req_body = []\<rparr>"

definition dl_options :: HttpServiceOptions where
  "dl_options = \<lparr>max_head_bytes = 80, max_body_bytes = 60\<rparr>"

definition dl_bytes :: string where
  "dl_bytes = render_request_head dl_request @ dl_body"

definition dl_stream :: "recv_event list" where
  "dl_stream = [Data (take 30 dl_bytes), RecvInterrupted, Data (drop 30 dl_bytes)]"

definition dl_manager :: manager where
  "dl_manager = (new_manager ''/db'' small_config)\<lparr>m_running := True, m_conn := open_conn\<rparr>"

definition dl_route :: route where
  "dl_route = mv_route\<lparr>rt_stg := ''.swit-partial-job-5''\<rparr>"

lemma dl_submission: "submission dl_options dl_request dl_body mv_request"
proof -
  have "json_parse submit_limits dl_body = Inr (JObject [(''source'', JString ''/in/a''), (''dest'', JString ''/out/b'')])"
    unfolding dl_body_def
    by (rule render_parse) (simp_all add: submit_limits_def kMaxPathBytes_def numeral_2_eq_2 member_ok_def utf8_text_ascii escape_plain)
  then have dec: "decode_submit_request dl_body = Inr \<lparr>submit_source = ''/in/a'', submit_dest = ''/out/b''\<rparr>"
    by (simp add: decode_submit_iff)
  have "split_path ''/in/a'' = Some (''/in'', ''a'')" "split_path ''/out/b'' = Some (''/out'', ''b'')" by code_simp+
  then have "request_of \<lparr>submit_source = ''/in/a'', submit_dest = ''/out/b''\<rparr> mv_request" by (simp add: request_of_def)
  moreover have "length dl_body = 34" "nat_dec 34 = ''34''" by code_simp+
  then have "content_length_for dl_request 60 = Inr (length dl_body)"
    by (simp add: content_length_for_def dl_request_def is_digit_def digit_val_def)
  moreover have "head_ok dl_request" "length (render_request_head dl_request) \<le> max_head_bytes dl_options"
    "path_segments (req_target dl_request) = [''api'', ''jobs'']" "req_method dl_request = ''POST''"
    by code_simp+
  ultimately show ?thesis using dec by (auto simp: submission_def dl_options_def)
qed

lemma dl_ready: "ready_for 5 dl_manager mv_world"
proof -
  have id: "''job-'' @ nat_dec 5 = ''job-5''" by code_simp
  have "db_find mv_world ''job-5'' = None" by code_simp
  then show ?thesis
    using demo_world_facts(1,4) unfolding ready_for_def id
    by (simp add: dl_manager_def new_manager_def idle_def healthy_store_def open_conn_def closed_conn_def)
qed

lemma dl_movable: "movable ''job-5'' mv_request dl_route (3, 11) mv_world" "placed dl_route (3, 11) AtSource (w_fs mv_world)"
proof -
  have n: "nul_free ''job-5''" "is_plain_name ''.swit-partial-job-5''" by code_simp+
  show "movable ''job-5'' mv_request dl_route (3, 11) mv_world"
    using n mv_movable by (simp add: movable_def follows_def dl_route_def staging_name_def)
  show "placed dl_route (3, 11) AtSource (w_fs mv_world)"
    using mv_placed by (simp add: placed_def dl_route_def)
qed

theorem request_delivers_witness:
  "\<exists>s e w'. serve_connection dl_options dl_stream 5 6 dl_manager mv_world = Some s \<and>
     map_option resp_status (sv_reply s) = Some 202 \<and>
     worker_record small_config ''job-5'' mv_request RenameNoReplace 7 open_conn (sv_world s) = ((None, MoveCompleted, e), w') \<and>
     fs_at (w_fs w') (3, 20) ''b'' = Some (3, 11)"
proof -
  have "clean dl_stream" by code_simp
  moreover have "stream_bytes dl_stream = render_request_head dl_request @ dl_body"
    by (simp add: dl_stream_def) (simp add: dl_bytes_def)
  moreover have "''job-5'' = ''job-'' @ nat_dec 5" by code_simp
  moreover have "c_open open_conn" "\<not> c_query_only open_conn" by (simp_all add: open_conn_def closed_conn_def)
  ultimately show ?thesis
    using request_delivers [OF _ _ dl_submission dl_ready _ _ _ dl_movable, of dl_stream open_conn 5 6 7]
    by (fastforce simp: dl_manager_def new_manager_def dl_route_def)
qed

end
