(* ===== verification/Queue_Delivery.thy ===== *)
theory Queue_Delivery
  imports Shutdown Delivery "HOL-Library.Multiset"
begin

text \<open>
  The moves of several jobs. What is done for one job leaves the records and the files of the others
  alone, so the workers, in any interleaving, carry out every job of the queue: when nothing fails, a
  shutdown ends with every queued file delivered.
\<close>

declare split_paired_All [simp del] split_paired_Ex [simp del]

section \<open>What one job leaves alone\<close>

definition apart :: "string \<Rightarrow> world \<Rightarrow> world \<Rightarrow> bool" where
  "apart k w w' \<longleftrightarrow> (quiet w \<longrightarrow> env_step w w' \<and> (\<forall>k'. k' \<noteq> c_str k \<longrightarrow> db_find w' k' = db_find w k'))"

lemma apart_trans: "apart k u v \<Longrightarrow> apart k v w \<Longrightarrow> apart k u w"
  unfolding apart_def using env_step_trans env_step_quiet by metis

lemma apart_ticked: "ticked w w' \<Longrightarrow> apart k w w'"
  by (simp add: apart_def db_step_env db_step_ticked db_find_ticked)

lemma apart_fs: "fs_step w w' \<Longrightarrow> apart k w w'"
  by (simp add: apart_def env_step_fs) (simp add: fs_step_def db_find_def)

lemma apart_row: "row_replaced (c_str k) r w w' \<Longrightarrow> apart k w w'"
  by (simp add: apart_def db_step_env db_step_row) (simp add: row_replaced_def)

lemma apart_quiet: "(quiet w \<Longrightarrow> apart k w w') \<Longrightarrow> apart k w w'"
  by (simp add: apart_def)

interpretation own: engine_frame k "apart k" for k
proof
  show "open_root p w = (r, w') \<Longrightarrow> apart k w w'" for p w r w'
    by (rule apart_quiet, cases r) (auto elim!: open_root_cases intro: apart_ticked)
  show "move_within sd sn dd dn st w = (r, w') \<Longrightarrow> apart k w w'" for sd sn dd dn st w r w'
    by (rule apart_quiet) (auto elim!: move_within_cases intro: apart_ticked apart_fs)
  show "publish d n nn w = (r, w') \<Longrightarrow> apart k w w'" for d n nn w r w'
    by (rule apart_quiet) (auto elim!: publish_cases intro: apart_ticked apart_fs)
  show "update_state k t now msg c w = (r, w') \<Longrightarrow> apart k w w'" for t now msg c w r w'
    by (erule update_state_cases) (blast intro: apart_ticked apart_row)+
  show "record_attempt k due msg c w = (r, w') \<Longrightarrow> apart k w w'" for due msg c w r w'
    by (erule record_attempt_cases) (blast intro: apart_ticked apart_row)+
  show "mark_needs_attention k msg c w = (r, w') \<Longrightarrow> apart k w w'" for msg c w r w'
    by (erule mark_needs_attention_cases) (blast intro: apart_ticked apart_row)+
  show "classify d n w = (r, w') \<Longrightarrow> apart k w w'" for d n w r w'
    by (rule apart_quiet) (auto intro: apart_ticked classify_ticked)
  show "open_regular d n fi w = (r, w') \<Longrightarrow> apart k w w'" for d n fi w r w'
    by (rule apart_quiet) (auto intro: apart_ticked open_regular_ticked)
qed (auto intro: apart_trans apart_ticked load_ticked load_retry_state_ticked)

section \<open>Jobs that do not touch each other\<close>

record delivery =
  dv_id :: string
  dv_request :: MoveRequest
  dv_route :: route
  dv_object :: objid

definition names_of :: "route \<Rightarrow> (objid \<times> string) set" where
  "names_of r = {(rt_sd r, rt_sn r), (rt_dd r, rt_stg r), (rt_dd r, rt_dn r)}"

definition deliverable :: "world \<Rightarrow> delivery \<Rightarrow> bool" where
  "deliverable w j \<longleftrightarrow> movable (dv_id j) (dv_request j) (dv_route j) (dv_object j) w \<and>
     placed (dv_route j) (dv_object j) AtSource (w_fs w) \<and> durable_state w (dv_id j) = Some Queued"

definition delivered :: "world \<Rightarrow> delivery \<Rightarrow> bool" where
  "delivered w j \<longleftrightarrow> durable_state w (dv_id j) = Some Done \<and>
     fs_at (w_fs w) (rt_dd (dv_route j)) (rt_dn (dv_route j)) = Some (dv_object j) \<and>
     fs_at (w_fs w) (rt_sd (dv_route j)) (rt_sn (dv_route j)) = None"

definition separate :: "delivery \<Rightarrow> delivery \<Rightarrow> bool" where
  "separate i j \<longleftrightarrow> dv_id i \<noteq> dv_id j \<and> names_of (dv_route i) \<inter> names_of (dv_route j) = {}"

text \<open>A round for one job delivers it and leaves the others as they are.\<close>

lemma round_delivers:
  assumes h: "healthy_store c w" and j: "deliverable w j"
    and wr: "worker_record cfg (dv_id j) (dv_request j) st now c w = ((due, out, e), w')"
  shows "due = None" "delivered w' j" "env_step w w'"
    "separate i j \<Longrightarrow> deliverable w i \<Longrightarrow> deliverable w' i" "separate i j \<Longrightarrow> delivered w i \<Longrightarrow> delivered w' i"
proof -
  let ?k = "dv_id j" and ?r = "dv_route j"
  have D: "movable ?k (dv_request j) ?r (dv_object j) w" "placed ?r (dv_object j) AtSource (w_fs w)"
    "durable_state w ?k = Some Queued" and nf: "nul_free ?k" and q: "quiet w"
    using j h by (simp_all add: deliverable_def movable_def healthy_store_def)
  show "due = None" "delivered w' j"
    by (rule worker_record_delivers [OF h D(1,3,2), of cfg st now]; use wr in \<open>simp add: delivered_def\<close>)+
  have out: "out = MoveCompleted"
    by (rule worker_record_delivers [OF h D(1,3,2), of cfg st now]) (use wr in simp)
  have ap: "apart ?k w w'" by (rule own.R_worker_record [OF wr])
  then show env: "env_step w w'" using q by (simp add: apart_def)
  have ex: "execute ?k (dv_request j) st c w = ((out, e), w')"
    using wr out by (auto simp: worker_record_def split: prod.splits MoveOutcome.splits)
  have "accounted ?r (dv_object j) out ?k w w'"
    by (rule execute_accounted [OF ex q nf]) (use D in \<open>simp_all add: movable_def placed_def\<close>)
  then have fs: "fs_at (w_fs w') d n = fs_at (w_fs w) d n" if "(d, n) \<notin> names_of ?r" for d n
    using that by (simp add: accounted_def names_of_def)
  have other: "durable_state w' (dv_id i) = durable_state w (dv_id i)" if "separate i j" for i
    using ap q nf that by (simp add: apart_def durable_state_def abs_job_def separate_def)
  have names: "fs_at (w_fs w') d n = fs_at (w_fs w) d n" if "separate i j" "(d, n) \<in> names_of (dv_route i)" for i d n
    using that by (intro fs) (auto simp: separate_def)
  show "deliverable w' i" if "separate i j" "deliverable w i"
    using that other [OF that(1)] movable_step [OF env] names [OF that(1)]
    by (simp add: deliverable_def placed_def names_of_def)
  show "delivered w' i" if "separate i j" "delivered w i"
    using that other [OF that(1)] names [OF that(1)] by (simp add: delivered_def names_of_def)
qed

section \<open>Draining the queue\<close>

text \<open>Steps of workers whose connection to the store works.\<close>

fun usable :: "task \<Rightarrow> bool" where
  "usable (Working _ _ _ _ c) \<longleftrightarrow> c_open c \<and> \<not> c_query_only c"
| "usable _ \<longleftrightarrow> True"

definition good_step :: "system \<Rightarrow> system \<Rightarrow> bool" where
  "good_step x y \<longleftrightarrow> work_step x y \<and> list_all usable (sy_tasks y)"

fun working :: "task \<Rightarrow> (string \<times> MoveRequest) list" where
  "working (Working k req _ _ _) = [(k, req)]"
| "working _ = []"

text \<open>The jobs still to be moved: queued with their request, or in the hands of a worker.\<close>

definition to_move :: "system \<Rightarrow> (string \<times> MoveRequest) list" where
  "to_move x = map (\<lambda>k. (k, the (m_requests (sy_mgr x) k))) (m_runnable (sy_mgr x)) @ concat (map working (sy_tasks x))"

definition job_of :: "delivery \<Rightarrow> string \<times> MoveRequest" where
  "job_of j = (dv_id j, dv_request j)"

definition queue_inv :: "delivery set \<Rightarrow> system \<Rightarrow> bool" where
  "queue_inv J x \<longleftrightarrow> draining x \<and> db_wf (w_db (sy_world x)) \<and> quiet (sy_world x) \<and> fault_free (sy_world x) \<and>
     list_all usable (sy_tasks x) \<and> (\<forall>i \<in> J. \<forall>j \<in> J. i \<noteq> j \<longrightarrow> separate i j) \<and>
     distinct (map fst (to_move x)) \<and> set (to_move x) \<subseteq> job_of ` J \<and> set (m_runnable (sy_mgr x)) \<subseteq> known (sy_mgr x) \<and>
     (\<forall>j \<in> J. if job_of j \<in> set (to_move x) then deliverable (sy_world x) j else delivered (sy_world x) j)"

lemma to_move_took:
  assumes "m_runnable (sy_mgr x) \<noteq> []" "worker_take (sy_mgr x) = ((k, req, st), m)" "set (m_runnable (sy_mgr x)) \<subseteq> known (sy_mgr x)"
    and y: "y = x\<lparr>sy_mgr := m, sy_tasks := Working k req st now c # sy_tasks x\<rparr>"
  shows "mset (to_move y) = mset (to_move x)" "set (m_runnable m) \<subseteq> known m"
proof -
  obtain q where q: "m_runnable (sy_mgr x) = k # q" using assms(1,2) by (cases "m_runnable (sy_mgr x)") (auto simp: worker_take_def Let_def)
  then have "k \<in> known (sy_mgr x)" using assms(3) by simp
  then obtain r where r: "m_requests (sy_mgr x) k = Some r" using known_iff by (metis option.exhaust)
  have m: "req = r" "m_runnable m = q" "m_requests m = m_requests (sy_mgr x)"
    using assms(2) q r by (auto simp: worker_take_def Let_def fun_upd_idem)
  show "mset (to_move y) = mset (to_move x)" by (simp add: y to_move_def q m r)
  show "set (m_runnable m) \<subseteq> known m" using assms(3) q m(2) unfolding known_def m(3) by simp
qed

lemma queue_inv_step:
  assumes inv: "queue_inv J x" and "good_step x y"
  shows "queue_inv J y"
proof -
  have w: "work_step x y" and u: "list_all usable (sy_tasks y)" using assms(2) by (simp_all add: good_step_def)
  have d: "draining y"
    using inv w work_step_stop stop_step_draining by (auto simp: queue_inv_def)
  from w show ?thesis
  proof cases
    case (took k req st m now c)
    have "set (m_runnable (sy_mgr x)) \<subseteq> known (sy_mgr x)" using inv by (simp add: queue_inv_def)
    note t = to_move_took [OF took(2,3) this took(1)]
    have "set (to_move y) = set (to_move x)" using arg_cong [OF t(1), of set_mset] by simp
    moreover have "distinct (map fst (to_move y)) = distinct (map fst (to_move x))"
      using t(1) by (metis mset_map mset_eq_imp_distinct_iff)
    ultimately show ?thesis using inv d u t(2) took(1) by (simp add: queue_inv_def)
  next
    case (worked l k req st now c r due out e w)
    have "\<exists>a b. to_move x = a @ (k, req) # b \<and> to_move y = a @ b"
      using worked by (intro exI [of _ "map (\<lambda>k. (k, the (m_requests (sy_mgr x) k))) (m_runnable (sy_mgr x)) @ concat (map working l)"]
          exI [of _ "concat (map working r)"]) (simp add: to_move_def)
    then obtain a b where ab: "to_move x = a @ (k, req) # b" "to_move y = a @ b" by blast
    have dist: "distinct (map fst (a @ (k, req) # b))" and sub: "set (a @ (k, req) # b) \<subseteq> job_of ` J"
      and sep: "\<And>i j. i \<in> J \<Longrightarrow> j \<in> J \<Longrightarrow> i \<noteq> j \<Longrightarrow> separate i j"
      and each: "\<And>j. j \<in> J \<Longrightarrow> if job_of j \<in> set (to_move x) then deliverable (sy_world x) j else delivered (sy_world x) j"
      using inv ab by (simp_all add: queue_inv_def)
    obtain j where j: "j \<in> J" "dv_id j = k" "dv_request j = req" using sub by (auto simp: job_of_def)
    have h: "healthy_store c (sy_world x)" using inv worked(2) by (simp add: queue_inv_def healthy_store_def)
    have jd: "deliverable (sy_world x) j" using each [OF j(1)] ab(1) j by (simp add: job_of_def)
    note rd = round_delivers [OF h jd, of "m_config (sy_mgr x)" st now due out e w, unfolded j(2,3), OF worked(3)]
    have "if job_of i \<in> set (to_move y) then deliverable w i else delivered w i" if i: "i \<in> J" for i
    proof (cases "i = j")
      case True
      have "k \<notin> fst ` set (a @ b)" using dist by auto
      then have "(k, req) \<notin> set (a @ b)" by (metis fst_conv image_eqI)
      then have "job_of i \<notin> set (a @ b)" using True j by (simp add: job_of_def)
      then show ?thesis using True rd(2) ab(2) by simp
    next
      case False
      have "separate i j" by (rule sep [OF i j(1) False])
      then have "job_of i \<noteq> (k, req)" using j(2) by (auto simp: separate_def job_of_def)
      then have "job_of i \<in> set (to_move y) \<longleftrightarrow> job_of i \<in> set (to_move x)" using ab by auto
      then show ?thesis using each [OF i] rd(4,5) [OF \<open>separate i j\<close>] by auto
    qed
    moreover have "db_wf (w_db w)" "quiet w" "fault_free w"
      using healthy_step [OF rd(3) h] by (simp_all add: healthy_store_def)
    ultimately show ?thesis using inv d u worked(1) ab dist by (simp add: queue_inv_def)
  next
    case (settled l k due r)
    have "to_move y = to_move x" "m_runnable (sy_mgr y) = m_runnable (sy_mgr x)" "known (sy_mgr y) = known (sy_mgr x)"
      using settled by (auto simp: to_move_def worker_settle_def Let_def split: option.splits)
    then show ?thesis using inv d u settled(1) by (simp add: queue_inv_def)
  qed
qed

interpretation queue_sys: step_system good_step "queue_inv J" for J
  by unfold_locales (rule queue_inv_step)

text \<open>A manager that stops with the jobs \<open>J\<close> in its queue, none of which touches the files of another.\<close>

definition stopping_with :: "delivery set \<Rightarrow> system \<Rightarrow> bool" where
  "stopping_with J x \<longleftrightarrow> draining x \<and> sy_tasks x = [] \<and>
     db_wf (w_db (sy_world x)) \<and> quiet (sy_world x) \<and> fault_free (sy_world x) \<and>
     set (m_runnable (sy_mgr x)) = dv_id ` J \<and> (\<forall>j \<in> J. m_requests (sy_mgr x) (dv_id j) = Some (dv_request j)) \<and>
     (\<forall>i \<in> J. \<forall>j \<in> J. i \<noteq> j \<longrightarrow> separate i j) \<and> (\<forall>j \<in> J. deliverable (sy_world x) j)"

lemma stopping_with_inv: "stopping_with J x \<Longrightarrow> queue_inv J x"
proof -
  assume s: "stopping_with J x"
  have e: "excl_inv x" and t: "sy_tasks x = []" and q: "set (m_runnable (sy_mgr x)) = dv_id ` J"
    and rq: "\<And>j. j \<in> J \<Longrightarrow> m_requests (sy_mgr x) (dv_id j) = Some (dv_request j)"
    using s by (simp_all add: stopping_with_def draining_def)
  have "count_list (m_runnable (sy_mgr x)) k \<le> 1" for k
    using e by (simp add: excl_inv_def holders_def) (metis add_leD1 plus_1_eq_Suc One_nat_def)
  then have "distinct (m_runnable (sy_mgr x))" by (rule count_list_le1_distinct)
  then have "distinct (map fst (to_move x))" by (simp add: to_move_def t comp_def)
  moreover have mv: "set (to_move x) = job_of ` J" using q rq by (force simp: to_move_def t job_of_def)
  moreover have "set (m_runnable (sy_mgr x)) \<subseteq> known (sy_mgr x)" using e by (auto simp: excl_inv_def book_inv_def dispatched_def)
  ultimately show ?thesis using s t by (simp add: queue_inv_def stopping_with_def)
qed

text \<open>
  C4. A shutdown delivers what is queued. Let the manager be stopping with an idle pool, let no call
  fail, and let the queued jobs be movable and name different files. However many workers
  there are and however their rounds interleave, every run ends; and when the workers can do no more,
  every queued job is durably DONE, its file has its destination name and not its source name, no
  job is left, and every worker returns.
\<close>

theorem shutdown_delivers:
  assumes "stopping_with J x" "good_step\<^sup>*\<^sup>* x y"
  shows "(\<forall>n z. (good_step ^^ n) y z \<longrightarrow> n \<le> load_left y) \<and>
    ((\<forall>z. \<not> work_step y z) \<longrightarrow> (\<forall>j \<in> J. delivered (sy_world y) j) \<and> idle (sy_mgr y) \<and> worker_exits (sy_mgr y))"
proof -
  have inv: "queue_inv J y" by (rule queue_sys.inv_reach [OF assms(2) stopping_with_inv [OF assms(1)]])
  then have d: "draining y" and each: "\<And>j. j \<in> J \<Longrightarrow> if job_of j \<in> set (to_move y) then deliverable (sy_world y) j else delivered (sy_world y) j"
    by (simp_all add: queue_inv_def)
  have "n \<le> load_left y" if "(good_step ^^ n) y z" for n z
  proof -
    have "(work_step ^^ n) y z" using that by (rule relpowp_mono [rotated]) (simp add: good_step_def)
    then show ?thesis using work_runs.run_length by fastforce
  qed
  moreover have "(\<forall>j \<in> J. delivered (sy_world y) j) \<and> idle (sy_mgr y) \<and> worker_exits (sy_mgr y)" if "\<forall>z. \<not> work_step y z"
  proof -
    have e: "m_runnable (sy_mgr y) = []" "sy_tasks y = []" using drained [OF d] that by auto
    then have "to_move y = []" by (simp add: to_move_def)
    then have "\<forall>j \<in> J. delivered (sy_world y) j" using each by simp
    then show ?thesis using d e by (simp add: draining_def excl_inv_def idle_def worker_exits_def)
  qed
  ultimately show ?thesis by blast
qed

text \<open>The worker's connection may be chosen: a step of a worker is also one with a usable connection.\<close>

lemma good_step_exists:
  assumes "work_step x y" "list_all usable (sy_tasks x)"
  shows "\<exists>z. good_step x z"
  using assms(1)
proof cases
  case (took k req st m now c)
  then have "good_step x (x\<lparr>sy_mgr := m, sy_tasks := Working k req st now open_conn # sy_tasks x\<rparr>)"
    using assms(2) by (auto simp: good_step_def open_conn_def closed_conn_def intro: work_step.took)
  then show ?thesis by blast
qed (use assms in \<open>auto simp: good_step_def\<close>)

interpretation good_runs: falling_steps good_step load_left
  by unfold_locales (simp add: good_step_def work_step_load)

definition mv_delivery :: delivery where
  "mv_delivery = \<lparr>dv_id = ''j1'', dv_request = mv_request, dv_route = mv_route, dv_object = (3, 11)\<rparr>"

theorem shutdown_delivers_witness:
  "\<exists>y. good_step\<^sup>*\<^sup>* (sys stop_manager mv_world []) y \<and> delivered (sy_world y) mv_delivery"
proof -
  let ?x = "sys stop_manager mv_world []"
  have s: "stopping_with {mv_delivery} ?x"
    using stop_manager_draining(1) mv_movable mv_placed mv_durable demo_world_facts(1)
    by (simp add: stopping_with_def mv_delivery_def deliverable_def stop_manager_def)
  obtain y where y: "good_step\<^sup>*\<^sup>* ?x y" "\<forall>z. \<not> good_step y z" using good_runs.run_ends by blast
  have "list_all usable (sy_tasks y)"
    using queue_sys.inv_reach [OF y(1) stopping_with_inv [OF s]] by (simp add: queue_inv_def)
  then have "\<forall>z. \<not> work_step y z" using good_step_exists y(2) by blast
  then show ?thesis using shutdown_delivers [OF s y(1)] y(1) by blast
qed

end
