(* ===== verification/Manager_Locks.thy ===== *)
theory Manager_Locks
  imports Manager
begin

text \<open>
  The locking of the job manager (\<open>cpp/src/manager.cpp\<close>): the two mutexes, \<open>mutex\<close> and \<open>store_mutex\<close>, the
  guard \<open>ManagerLock\<close> with its count per thread, and the assertion that no store call and no event is
  made under \<open>mutex\<close>. Each operation of the manager has its trace: what it does to the mutexes and where
  it calls the store and the publisher, along the path it takes. The path depends on what the operation
  finds in its critical and its unlocked sections, so a trace takes the manager and the world each section
  met as arguments, and other threads may have changed them in between. Guards of C++ are written
  out: a scope ends with the destruction of its guard, also when it is left by \<open>return\<close> or \<open>break\<close>.
\<close>

section \<open>Threads and mutexes\<close>

text \<open>
  \<open>LockConstruct\<close>, \<open>LockDestroy\<close>, \<open>LockUnlock\<close> and \<open>LockLock\<close> are the members of \<open>ManagerLock\<close>. A wait on the
  condition variable goes through \<open>raw()\<close>, past the count: \<open>WaitRelease\<close> and \<open>WaitAcquire\<close>; a worker that is
  not woken again is \<open>Asleep\<close>. \<open>StoreGuard\<close> and \<open>StoreUnguard\<close> are a \<open>std::lock_guard\<close> on \<open>store_mutex\<close>,
  \<open>CommandStore\<close> is a call through \<open>store_for_command\<close>, \<open>WorkerStore\<close> one on a worker's own connection.
\<close>

datatype lock_op =
  LockConstruct | LockDestroy | LockUnlock | LockLock
| WaitRelease | WaitAcquire | Asleep
| StoreGuard | StoreUnguard
| CommandStore string | WorkerStore | EmitEvent EventType | JoinThread nat

text \<open>A thread: the mutexes it holds, its \<open>g_manager_lock_depth\<close>, whether it called \<open>abort\<close>, and what is
  left of its trace.\<close>

record thread =
  th_mutex :: bool
  th_depth :: int
  th_store :: bool
  th_aborted :: bool
  th_ops :: "lock_op list"

definition new_thread :: "lock_op list \<Rightarrow> thread" where
  "new_thread ops = \<lparr>th_mutex = False, th_depth = 0, th_store = False, th_aborted = False, th_ops = ops\<rparr>"

definition ManagerLock_construct :: "thread \<Rightarrow> thread" where
  "ManagerLock_construct t = t\<lparr>th_mutex := True, th_depth := th_depth t + 1\<rparr>"

text \<open>The destructor counts down only when the lock is owned; then its member releases the mutex.\<close>

definition ManagerLock_destroy :: "thread \<Rightarrow> thread" where
  "ManagerLock_destroy t = (if th_mutex t then t\<lparr>th_depth := th_depth t - 1, th_mutex := False\<rparr> else t)"

definition ManagerLock_unlock :: "thread \<Rightarrow> thread" where
  "ManagerLock_unlock t = t\<lparr>th_mutex := False, th_depth := th_depth t - 1\<rparr>"

definition ManagerLock_lock :: "thread \<Rightarrow> thread" where
  "ManagerLock_lock t = t\<lparr>th_mutex := True, th_depth := th_depth t + 1\<rparr>"

definition assert_no_manager_lock :: "thread \<Rightarrow> thread" where
  "assert_no_manager_lock t = (if th_depth t \<noteq> 0 then t\<lparr>th_aborted := True\<rparr> else t)"

definition store_for_command :: "string \<Rightarrow> thread \<Rightarrow> thread" where
  "store_for_command what t = assert_no_manager_lock t"

fun perform :: "lock_op \<Rightarrow> thread \<Rightarrow> thread" where
  "perform LockConstruct t = ManagerLock_construct t"
| "perform LockDestroy t = ManagerLock_destroy t"
| "perform LockUnlock t = ManagerLock_unlock t"
| "perform LockLock t = ManagerLock_lock t"
| "perform WaitRelease t = t\<lparr>th_mutex := False\<rparr>"
| "perform WaitAcquire t = t\<lparr>th_mutex := True\<rparr>"
| "perform Asleep t = t"
| "perform StoreGuard t = t\<lparr>th_store := True\<rparr>"
| "perform StoreUnguard t = t\<lparr>th_store := False\<rparr>"
| "perform (CommandStore what) t = store_for_command what t"
| "perform WorkerStore t = t"
| "perform (EmitEvent type) t = assert_no_manager_lock t"
| "perform (JoinThread i) t = t"

text \<open>When a call returns: a mutex has to be free, a thread that is joined has to have returned, and a
  sleeping worker is not woken.\<close>

fun enabled :: "lock_op \<Rightarrow> thread list \<Rightarrow> bool" where
  "enabled LockConstruct ts = list_all (\<lambda>t. \<not> th_mutex t) ts"
| "enabled LockLock ts = list_all (\<lambda>t. \<not> th_mutex t) ts"
| "enabled WaitAcquire ts = list_all (\<lambda>t. \<not> th_mutex t) ts"
| "enabled StoreGuard ts = list_all (\<lambda>t. \<not> th_store t) ts"
| "enabled Asleep ts = False"
| "enabled (JoinThread i) ts = (i < length ts \<and> th_ops (ts ! i) = [])"
| "enabled _ ts = True"

inductive lock_step :: "thread list \<Rightarrow> thread list \<Rightarrow> bool" where
  acts: "i < length ts \<Longrightarrow> th_ops (ts ! i) = op # rest \<Longrightarrow> enabled op ts \<Longrightarrow>
    lock_step ts (ts[i := (perform op (ts ! i))\<lparr>th_ops := rest\<rparr>])"

inductive_cases lock_stepE: "lock_step ts us"

section \<open>The operations\<close>

text \<open>A critical section, and a call on the manager's connection under its guard.\<close>

definition critical :: "lock_op list" where
  "critical = [LockConstruct, LockDestroy]"

definition guarded_store :: "string \<Rightarrow> lock_op list" where
  "guarded_store what = [StoreGuard, CommandStore what, StoreUnguard]"

text \<open>\<open>set_clock\<close>, \<open>set_strategy\<close>, \<open>set_phase_hook\<close>, \<open>is_running\<close>, \<open>runnable_count\<close>, \<open>active_count\<close>: one critical
  section each. So is \<open>pump\<close>, whatever it finds.\<close>

definition accessor_locks :: "lock_op list" where
  "accessor_locks = critical"

definition pump_locks :: "lock_op list" where
  "pump_locks = critical"

definition start_locks :: "pragma_answers \<Rightarrow> manager \<Rightarrow> conn \<Rightarrow> world \<Rightarrow> lock_op list" where
  "start_locks pa m c w =
     critical @
     (if m_running m then []
      else guarded_store ''start'' @
        (case store_open (m_store_path m) pa c w of
           (Inl _, _, _) \<Rightarrow> []
         | (Inr _, _, _) \<Rightarrow> critical @ critical))"

definition shutdown_locks :: "manager \<Rightarrow> nat list \<Rightarrow> lock_op list" where
  "shutdown_locks m to_join =
     critical @
     (if \<not> m_running m then [] else map JoinThread to_join @ guarded_store ''shutdown'')"

definition submit_locks :: "string \<Rightarrow> MoveRequest \<Rightarrow> int \<Rightarrow> manager \<Rightarrow> conn \<Rightarrow> world \<Rightarrow> lock_op list" where
  "submit_locks jid request now_ms m c w =
     critical @
     (case submit_claim jid m of
        Inl _ \<Rightarrow> []
      | Inr _ \<Rightarrow>
         guarded_store ''submit'' @ critical @
         (case record_intent (submit_job jid request now_ms) [] c w of
            (Inl _, _) \<Rightarrow> []
          | (Inr _, _) \<Rightarrow> [EmitEvent JobSubmitted]))"

text \<open>The overload that allocates the id: \<open>m0\<close>, \<open>c0\<close> and \<open>w0\<close> are what its own part finds.\<close>

definition submit_allocated_locks ::
  "MoveRequest \<Rightarrow> int \<Rightarrow> manager \<Rightarrow> conn \<Rightarrow> world \<Rightarrow> manager \<Rightarrow> conn \<Rightarrow> world \<Rightarrow> lock_op list" where
  "submit_allocated_locks request now_ms m0 c0 w0 m c w =
     critical @
     (if \<not> m_running m0 then []
      else guarded_store ''submit'' @
        (case next_sequence c0 w0 of
           (Inl _, _) \<Rightarrow> []
         | (Inr sequence, _) \<Rightarrow> submit_locks (''job-'' @ nat_dec (unat sequence)) request now_ms m c w))"

definition pause_locks :: "string \<Rightarrow> int \<Rightarrow> manager \<Rightarrow> lock_op list" where
  "pause_locks jid ts m = critical @ (if fst (fst (pause jid ts m)) = Ok then [EmitEvent JobPaused] else [])"

definition resume_locks :: "string \<Rightarrow> int \<Rightarrow> manager \<Rightarrow> lock_op list" where
  "resume_locks jid ts m = critical @ (if fst (fst (resume jid ts m)) = Ok then [EmitEvent JobResumed] else [])"

text \<open>The guard on \<open>store_mutex\<close> in \<open>cancel\<close> lives to the end of the function.\<close>

definition cancel_locks :: "string \<Rightarrow> manager \<Rightarrow> conn \<Rightarrow> world \<Rightarrow> lock_op list" where
  "cancel_locks jid m c w =
     critical @
     (case cancel_claim jid m of
        Inl _ \<Rightarrow> []
      | Inr (was_runnable, _) \<Rightarrow>
         (let outcome = fst (fst (cancel_durable jid c w)) in
          [StoreGuard, CommandStore ''cancel''] @
          (case fst (load jid c w) of
             Inr (Some job) \<Rightarrow> (if job_state job = Queued then [CommandStore ''cancel''] else [])
           | _ \<Rightarrow> []) @
          (if outcome \<noteq> Ok \<and> was_runnable then critical else []) @
          (if outcome = Ok then [EmitEvent JobCancelled] else []) @
          [StoreUnguard]))"

text \<open>The probe of a manual retry: \<open>rounds\<close> has what each round finds in the store and in the manager. The
  candidate it claims, or \<open>None\<close> after a store error; no result when the search goes on or its counter
  overflows.\<close>

fun retry_probe_locks ::
  "string \<Rightarrow> nat \<Rightarrow> conn \<Rightarrow> (world \<times> manager) list \<Rightarrow> (lock_op list \<times> string option) option" where
  "retry_probe_locks root n c [] = None"
| "retry_probe_locks root n c ((w, m) # rounds) =
     (case fst (load (retry_candidate root n) c w) of
        Inl _ \<Rightarrow> Some ([CommandStore ''retry''], None)
      | Inr (Some _) \<Rightarrow>
         (if int n < INT_MAX
          then map_option (\<lambda>(ops, r). (CommandStore ''retry'' # ops, r)) (retry_probe_locks root (n + 1) c rounds)
          else None)
      | Inr None \<Rightarrow>
         (if retry_reserve (retry_candidate root n) m \<noteq> None
          then Some (CommandStore ''retry'' # critical, Some (retry_candidate root n))
          else if int n < INT_MAX
          then map_option (\<lambda>(ops, r). (CommandStore ''retry'' # critical @ ops, r)) (retry_probe_locks root (n + 1) c rounds)
          else None))"

definition retry_locks ::
  "string \<Rightarrow> int \<Rightarrow> manager \<Rightarrow> conn \<Rightarrow> world \<Rightarrow> (world \<times> manager) list \<Rightarrow> world \<Rightarrow> lock_op list option" where
  "retry_locks jid now_ms m c w rounds w' =
     (case retry_claim jid m of
        Inl _ \<Rightarrow> Some critical
      | Inr move \<Rightarrow>
         (case fst (retry_check jid c w) of
            Some _ \<Rightarrow> Some (critical @ guarded_store ''retry'')
          | None \<Rightarrow>
             (case retry_probe_locks (strip_retry_suffix jid) 1 c rounds of
                None \<Rightarrow> None
              | Some (ops, None) \<Rightarrow> Some (critical @ [StoreGuard, CommandStore ''retry''] @ ops @ [StoreUnguard])
              | Some (ops, Some candidate) \<Rightarrow>
                  Some (critical @ [StoreGuard, CommandStore ''retry''] @ ops @ [CommandStore ''retry''] @ critical @ [StoreUnguard] @
                    (case fst (record_intent (submit_job candidate move now_ms) jid c w') of
                       Inl _ \<Rightarrow> []
                     | Inr _ \<Rightarrow> [EmitEvent JobRetrySubmitted])))))"

definition wait_idle_locks :: "(nat \<Rightarrow> manager) \<Rightarrow> int \<Rightarrow> lock_op list" where
  "wait_idle_locks polled timeout_ms = concat (replicate (snd (wait_idle polled timeout_ms)) critical)"

text \<open>A round of a worker: how often it was woken without work, the manager it then found, and the
  clock and the world of its unlocked part.\<close>

record worker_round =
  wr_woken :: nat
  wr_manager :: manager
  wr_now :: int
  wr_world :: world

definition worker_wait_locks :: "nat \<Rightarrow> lock_op list" where
  "worker_wait_locks woken = concat (replicate woken [WaitRelease, WaitAcquire])"

definition worker_round_locks :: "conn \<Rightarrow> worker_round \<Rightarrow> lock_op list" where
  "worker_round_locks c r =
     (case worker_take (wr_manager r) of
        ((jid, request, strategy), _) \<Rightarrow>
     (case worker_record (m_config (wr_manager r)) jid request strategy (wr_now r) c (wr_world r) of
        ((due, out, _), _) \<Rightarrow>
          [LockUnlock, EmitEvent JobStarted, WorkerStore] @
          (if out = AbortedBeforeCommit \<or> out = Rejected then [WorkerStore] else []) @
          [EmitEvent (fst (worker_event (due \<noteq> None) out)), LockLock]))"

fun worker_loop_locks :: "conn \<Rightarrow> worker_round list \<Rightarrow> lock_op list" where
  "worker_loop_locks c [] = [WaitRelease, Asleep]"
| "worker_loop_locks c (r # rs) =
     worker_wait_locks (wr_woken r) @
     (if worker_exits (wr_manager r) then [LockDestroy] else worker_round_locks c r @ worker_loop_locks c rs)"

definition run_worker_locks :: "string \<Rightarrow> pragma_answers \<Rightarrow> world \<Rightarrow> worker_round list \<Rightarrow> lock_op list" where
  "run_worker_locks path pa w rounds =
     (case store_open path pa closed_conn w of
        (Inl _, _, _) \<Rightarrow> [WorkerStore]
      | (Inr _, c, _) \<Rightarrow> [WorkerStore, LockConstruct] @ worker_loop_locks c rounds)"

section \<open>The manager's threads\<close>

text \<open>The traces of workers, and of the threads that use a manager with \<open>n\<close> workers.\<close>

inductive worker_trace :: "lock_op list \<Rightarrow> bool" where
  worker: "list_all (\<lambda>r. worker_ready (wr_manager r)) rounds \<Longrightarrow> worker_trace (run_worker_locks path pa w rounds)"

inductive command_trace :: "nat \<Rightarrow> lock_op list \<Rightarrow> bool" for n where
  accessor: "command_trace n accessor_locks"
| pumping: "command_trace n pump_locks"
| starting: "command_trace n (start_locks pa m c w)"
| stopping: "list_all (\<lambda>i. i < n) to_join \<Longrightarrow> command_trace n (shutdown_locks m to_join)"
| submitting: "command_trace n (submit_locks jid request now m c w)"
| allocating: "command_trace n (submit_allocated_locks request now m0 c0 w0 m c w)"
| pausing: "command_trace n (pause_locks jid ts m)"
| resuming: "command_trace n (resume_locks jid ts m)"
| cancelling: "command_trace n (cancel_locks jid m c w)"
| retrying: "retry_locks jid now m c w rounds w' = Some ops \<Longrightarrow> command_trace n ops"
| idling: "command_trace n (wait_idle_locks polled timeout)"
| then_another: "command_trace n ops \<Longrightarrow> command_trace n ops' \<Longrightarrow> command_trace n (ops @ ops')"

definition lock_system :: "lock_op list list \<Rightarrow> lock_op list list \<Rightarrow> thread list" where
  "lock_system workers callers = map new_thread (workers @ callers)"

end
