(* ===== verification/Manager_Locks_Laws.thy ===== *)
theory Manager_Locks_Laws
  imports Manager_Locks Store_Laws
begin

text \<open>
  Laws of the manager's locking. Every trace follows one discipline: \<open>mutex\<close> may be taken inside
  \<open>store_mutex\<close> and never the other way round, nothing that can block is done under \<open>mutex\<close>, and the
  guards are balanced. From the discipline of each thread follow, for any number of threads and any
  interleaving, that the assertion never fires, that both mutexes exclude, and that the threads
  cannot deadlock.
\<close>

section \<open>The discipline\<close>

text \<open>What a thread has of \<open>mutex\<close>: nothing, the mutex, or a place in the wait. With it, whether it holds
  \<open>store_mutex\<close>.\<close>

datatype hold = Free | Held | Waiting

fun drive :: "lock_op \<Rightarrow> hold \<times> bool \<Rightarrow> (hold \<times> bool) option" where
  "drive LockConstruct (h, s) = (if h = Free then Some (Held, s) else None)"
| "drive LockDestroy (h, s) = (if h = Held then Some (Free, s) else None)"
| "drive LockUnlock (h, s) = (if h = Held then Some (Free, s) else None)"
| "drive LockLock (h, s) = (if h = Free then Some (Held, s) else None)"
| "drive WaitRelease (h, s) = (if h = Held \<and> \<not> s then Some (Waiting, s) else None)"
| "drive WaitAcquire (h, s) = (if h = Waiting \<and> \<not> s then Some (Held, s) else None)"
| "drive Asleep (h, s) = (if h = Waiting \<and> \<not> s then Some (h, s) else None)"
| "drive StoreGuard (h, s) = (if h = Free \<and> \<not> s then Some (h, True) else None)"
| "drive StoreUnguard (h, s) = (if h = Free \<and> s then Some (h, False) else None)"
| "drive (CommandStore _) (h, s) = (if h = Free \<and> s then Some (h, s) else None)"
| "drive WorkerStore (h, s) = (if h = Free \<and> \<not> s then Some (h, s) else None)"
| "drive (EmitEvent _) (h, s) = (if h = Free then Some (h, s) else None)"
| "drive (JoinThread _) (h, s) = (if h = Free \<and> \<not> s then Some (h, s) else None)"

fun drives :: "lock_op list \<Rightarrow> hold \<times> bool \<Rightarrow> (hold \<times> bool) option" where
  "drives [] st = Some st"
| "drives (op # ops) st = Option.bind (drive op st) (drives ops)"

lemma drives_append: "drives (xs @ ys) st = Option.bind (drives xs st) (drives ys)"
proof (induction xs arbitrary: st)
  case (Cons op xs)
  then show ?case by (cases "drive op st") simp_all
qed simp

lemma drives_bind_Some: "drives xs st = Some st' \<Longrightarrow> drives (xs @ ys) st = drives ys st'"
  by (simp add: drives_append)

lemma drives_critical [simp]: "drives critical (Free, s) = Some (Free, s)"
  by (simp add: critical_def)

lemma drives_guarded_store [simp]: "drives (guarded_store what) (Free, False) = Some (Free, False)"
  by (simp add: guarded_store_def)

lemma drives_concat_replicate: "drives xs st = Some st \<Longrightarrow> drives (concat (replicate k xs)) st = Some st"
  by (induction k) (simp_all add: drives_append)

lemma drives_joins [simp]: "drives (map JoinThread ids) (Free, False) = Some (Free, False)"
  by (induction ids) simp_all

lemma drives_probe:
  "retry_probe_locks root n c rounds = Some (ops, r) \<Longrightarrow> drives ops (Free, True) = Some (Free, True)"
proof (induction root n c rounds arbitrary: ops rule: retry_probe_locks.induct)
  case (2 root n c w m rounds)
  then show ?case by (auto simp: drives_append split: sum.splits option.splits if_splits)
qed simp

lemma drives_retry:
  assumes "retry_locks jid now m c w rounds w' = Some ops"
  shows "drives ops (Free, False) = Some (Free, False)"
  using assms drives_probe [of "strip_retry_suffix jid" 1 c rounds]
  by (auto simp: retry_locks_def drives_append split: sum.splits option.splits prod.splits)

lemmas locks_defs = accessor_locks_def pump_locks_def start_locks_def shutdown_locks_def submit_locks_def
  submit_allocated_locks_def pause_locks_def resume_locks_def cancel_locks_def wait_idle_locks_def

lemma drives_submit [simp]: "drives (submit_locks jid request now m c w) (Free, False) = Some (Free, False)"
  by (simp add: submit_locks_def drives_append split: sum.splits prod.splits)

lemma drives_command: "command_trace n ops \<Longrightarrow> drives ops (Free, False) = Some (Free, False)"
proof (induction rule: command_trace.induct)
  case (retrying jid now m c w rounds w' ops)
  then show ?case by (rule drives_retry)
qed (simp_all add: locks_defs drives_append drives_concat_replicate Let_def split: sum.splits prod.splits option.splits)

lemma drives_round: "drives (worker_round_locks c r) (Held, False) = Some (Held, False)"
  by (simp add: worker_round_locks_def split: prod.splits)

lemma drives_loop:
  "drives (worker_loop_locks c rs) (Held, False) = Some (Free, False) \<or>
   drives (worker_loop_locks c rs) (Held, False) = Some (Waiting, False)"
  by (induction c rs rule: worker_loop_locks.induct)
     (simp_all add: drives_append drives_round worker_wait_locks_def drives_concat_replicate)

lemma drives_worker:
  "worker_trace ops \<Longrightarrow> drives ops (Free, False) = Some (Free, False) \<or> drives ops (Free, False) = Some (Waiting, False)"
  by (auto elim!: worker_trace.cases simp: run_worker_locks_def split: prod.splits sum.splits) (metis drives_loop)

section \<open>Who joins whom\<close>

definition joins :: "lock_op list \<Rightarrow> nat set" where
  "joins ops = {i. JoinThread i \<in> set ops}"

lemma joins_simps [simp]:
  "joins [] = {}" "joins (op # ops) = (case op of JoinThread i \<Rightarrow> {i} | _ \<Rightarrow> {}) \<union> joins ops"
  "joins (xs @ ys) = joins xs \<union> joins ys" "joins critical = {}" "joins (guarded_store what) = {}"
  "joins (map JoinThread ids) = set ids"
  by (auto simp: joins_def critical_def guarded_store_def split: lock_op.splits)

lemma joins_concat_replicate [simp]: "joins xs = {} \<Longrightarrow> joins (concat (replicate k xs)) = {}"
  by (induction k) simp_all

lemma joins_probe: "retry_probe_locks root n c rounds = Some (ops, r) \<Longrightarrow> joins ops = {}"
  by (induction root n c rounds arbitrary: ops rule: retry_probe_locks.induct)
     (auto split: sum.splits option.splits if_splits)

lemma joins_retry: "retry_locks jid now m c w rounds w' = Some ops \<Longrightarrow> joins ops = {}"
  by (auto simp: retry_locks_def joins_probe split: sum.splits option.splits prod.splits)

lemma joins_command: "command_trace n ops \<Longrightarrow> joins ops \<subseteq> {..<n}"
proof (induction rule: command_trace.induct)
  case (retrying jid now m c w rounds w' ops)
  then show ?case by (simp add: joins_retry)
qed (auto simp: locks_defs list_all_iff Let_def split: sum.splits prod.splits option.splits)

lemma joins_loop: "joins (worker_loop_locks c rs) = {}"
  by (induction c rs rule: worker_loop_locks.induct)
     (simp_all add: worker_wait_locks_def worker_round_locks_def split: prod.splits)

lemma joins_worker: "worker_trace ops \<Longrightarrow> joins ops = {}"
  by (auto elim!: worker_trace.cases simp: run_worker_locks_def joins_loop split: prod.splits sum.splits)

text \<open>Only workers sleep.\<close>

lemma no_sleep_simps [simp]: "Asleep \<notin> set critical" "Asleep \<notin> set (guarded_store what)"
  by (simp_all add: critical_def guarded_store_def)

lemma no_sleep_probe: "retry_probe_locks root n c rounds = Some (ops, r) \<Longrightarrow> Asleep \<notin> set ops"
  by (induction root n c rounds arbitrary: ops rule: retry_probe_locks.induct)
     (auto split: sum.splits option.splits if_splits)

lemma no_sleep_retry: "retry_locks jid now m c w rounds w' = Some ops \<Longrightarrow> Asleep \<notin> set ops"
  by (auto simp: retry_locks_def dest: no_sleep_probe split: sum.splits option.splits prod.splits)

lemma no_sleep_command: "command_trace n ops \<Longrightarrow> Asleep \<notin> set ops"
proof (induction rule: command_trace.induct)
  case (retrying jid now m c w rounds w' ops)
  then show ?case by (rule no_sleep_retry)
qed (auto simp: locks_defs Let_def split: sum.splits prod.splits option.splits)

section \<open>The invariant\<close>

text \<open>A thread whose fields agree with the discipline, and whose trace follows it to an end at which it
  holds nothing.\<close>

definition agrees :: "thread \<Rightarrow> hold \<times> bool \<Rightarrow> bool" where
  "agrees t st \<longleftrightarrow> th_mutex t = (fst st = Held) \<and> th_depth t = (if fst st = Free then 0 else 1) \<and>
     th_store t = snd st \<and> \<not> th_aborted t"

definition disciplined :: "thread \<Rightarrow> bool" where
  "disciplined t \<longleftrightarrow> (\<exists>st h. agrees t st \<and> drives (th_ops t) st = Some (h, False) \<and> h \<noteq> Held)"

definition exclusive :: "(thread \<Rightarrow> bool) \<Rightarrow> thread list \<Rightarrow> bool" where
  "exclusive P ts \<longleftrightarrow> (\<forall>i < length ts. \<forall>j < length ts. P (ts ! i) \<longrightarrow> P (ts ! j) \<longrightarrow> i = j)"

text \<open>A worker joins nobody; the others join only workers and do not sleep.\<close>

definition own_part :: "nat \<Rightarrow> nat \<Rightarrow> lock_op list \<Rightarrow> bool" where
  "own_part n i ops \<longleftrightarrow> (if i < n then joins ops = {} else joins ops \<subseteq> {..<n} \<and> Asleep \<notin> set ops)"

lemma own_part_tail: "own_part n i (op # ops) \<Longrightarrow> own_part n i ops"
  by (auto simp: own_part_def split: if_splits)

definition mutex_inv :: "nat \<Rightarrow> thread list \<Rightarrow> bool" where
  "mutex_inv n ts \<longleftrightarrow> n \<le> length ts \<and> exclusive th_mutex ts \<and> exclusive th_store ts \<and>
     (\<forall>i < length ts. disciplined (ts ! i) \<and> own_part n i (th_ops (ts ! i)))"

lemma exclusive_update:
  assumes "exclusive P ts" "P t \<longrightarrow> P (ts ! i) \<or> list_all (\<lambda>t. \<not> P t) ts" "i < length ts"
  shows "exclusive P (ts[i := t])"
  using assms by (auto simp: exclusive_def nth_list_update list_all_length split: if_splits)

lemma agrees_perform:
  assumes "agrees t st" "drive op st = Some st'"
  shows "agrees ((perform op t)\<lparr>th_ops := ops\<rparr>) st'"
  using assms by (cases op; cases st)
    (auto simp: agrees_def ManagerLock_construct_def ManagerLock_destroy_def ManagerLock_unlock_def ManagerLock_lock_def
      store_for_command_def assert_no_manager_lock_def split: if_splits)

lemma disciplined_step:
  assumes "disciplined t" "th_ops t = op # rest"
  shows "disciplined ((perform op t)\<lparr>th_ops := rest\<rparr>)"
proof -
  obtain st h where st: "agrees t st" "drives (op # rest) st = Some (h, False)" "h \<noteq> Held"
    using assms by (auto simp: disciplined_def)
  then obtain st' where "drive op st = Some st'" "drives rest st' = Some (h, False)"
    by (auto simp: bind_eq_Some_conv)
  with agrees_perform [OF st(1)] st(3) show ?thesis
    unfolding disciplined_def by (intro exI [of _ st'] exI [of _ h]) simp
qed

lemma perform_mutex: "enabled op ts \<Longrightarrow> th_mutex (perform op t) \<longrightarrow> th_mutex t \<or> list_all (\<lambda>t. \<not> th_mutex t) ts"
  by (cases op) (auto simp: ManagerLock_construct_def ManagerLock_destroy_def ManagerLock_unlock_def ManagerLock_lock_def
      store_for_command_def assert_no_manager_lock_def split: if_splits)

lemma perform_store: "enabled op ts \<Longrightarrow> th_store (perform op t) \<longrightarrow> th_store t \<or> list_all (\<lambda>t. \<not> th_store t) ts"
  by (cases op) (auto simp: ManagerLock_construct_def ManagerLock_destroy_def ManagerLock_unlock_def ManagerLock_lock_def
      store_for_command_def assert_no_manager_lock_def split: if_splits)

lemma mutex_inv_step:
  assumes "mutex_inv n ts" "lock_step ts us"
  shows "mutex_inv n us"
  using assms(2)
proof cases
  case (acts i op rest)
  let ?t = "(perform op (ts ! i))\<lparr>th_ops := rest\<rparr>"
  have d: "disciplined ?t" using disciplined_step [OF _ acts(3)] assms(1) acts(2) by (simp add: mutex_inv_def)
  have e: "exclusive th_mutex us" "exclusive th_store us"
    unfolding acts(1) using exclusive_update [of _ ts ?t i] perform_mutex [OF acts(4), of "ts ! i"] perform_store [OF acts(4), of "ts ! i"] assms(1) acts(2)
    by (simp_all add: mutex_inv_def)
  have "own_part n i (op # rest)" using assms(1) acts(2,3) by (auto simp: mutex_inv_def)
  then have "own_part n i rest" by (rule own_part_tail)
  then show ?thesis using assms(1) d e acts(1,2) by (simp add: mutex_inv_def nth_list_update)
qed

definition ops_left :: "thread list \<Rightarrow> nat" where
  "ops_left ts = sum_list (map (\<lambda>t. length (th_ops t)) ts)"

lemma ops_left_step:
  assumes "lock_step ts us"
  shows "ops_left us < ops_left ts"
  using assms
proof cases
  case (acts i op rest)
  let ?f = "\<lambda>t. length (th_ops t)"
  have "map ?f us = (map ?f ts)[i := length rest]" unfolding acts(1) by (simp add: map_update)
  moreover have "sum_list (map ?f ts) = sum_list ((map ?f ts)[i := length rest]) + 1"
    using sum_list_update [of i "map ?f ts" "length rest"] acts(2,3) elem_le_sum_list [of i "map ?f ts"] by simp
  ultimately show ?thesis by (simp add: ops_left_def)
qed

interpretation lock_sys: step_system lock_step "mutex_inv n" for n
  by unfold_locales (rule mutex_inv_step)

interpretation lock_runs: falling_steps lock_step ops_left
  by unfold_locales (rule ops_left_step)

lemma new_thread_disciplined:
  assumes "drives ops (Free, False) = Some (Free, False) \<or> drives ops (Free, False) = Some (Waiting, False)"
  shows "disciplined (new_thread ops)"
  unfolding disciplined_def
  by (rule exI [of _ "(Free, False)"]) (use assms in \<open>auto simp: agrees_def new_thread_def\<close>)

lemma new_thread_simps [simp]: "th_ops (new_thread ops) = ops" "\<not> th_mutex (new_thread ops)" "\<not> th_store (new_thread ops)"
  by (simp_all add: new_thread_def)

lemma lock_system_mutex_inv:
  assumes "list_all worker_trace ws" "list_all (command_trace (length ws)) cs"
  shows "mutex_inv (length ws) (lock_system ws cs)"
proof -
  have "disciplined (new_thread (ws ! i)) \<and> joins (ws ! i) = {}" if "i < length ws" for i
    using assms(1) that by (simp add: list_all_length new_thread_disciplined drives_worker joins_worker)
  moreover have "disciplined (new_thread (cs ! i)) \<and> joins (cs ! i) \<subseteq> {..<length ws} \<and> Asleep \<notin> set (cs ! i)"
    if "i < length cs" for i
  proof -
    have "command_trace (length ws) (cs ! i)" using assms(2) that by (simp add: list_all_length)
    then show ?thesis using new_thread_disciplined [of "cs ! i"] drives_command joins_command no_sleep_command by simp
  qed
  ultimately show ?thesis
    by (simp add: mutex_inv_def lock_system_def exclusive_def own_part_def nth_append flip: map_append)
qed

section \<open>No deadlock\<close>

lemma disciplined_head:
  assumes "disciplined t"
  obtains (ends) "th_ops t = []" "\<not> th_mutex t" "\<not> th_store t"
  | (goes) op rest st st' where "th_ops t = op # rest" "agrees t st" "drive op st = Some st'"
  using assms by (cases "th_ops t") (auto simp: disciplined_def agrees_def bind_eq_Some_conv)

lemma stepI: "i < length ts \<Longrightarrow> th_ops (ts ! i) = op # rest \<Longrightarrow> enabled op ts \<Longrightarrow> \<exists>us. lock_step ts us"
  by (blast intro: acts)

text \<open>Whoever holds \<open>mutex\<close> can go on; so can, when \<open>mutex\<close> is free, whoever holds \<open>store_mutex\<close>.\<close>

lemma mutex_holder_goes:
  assumes "mutex_inv n ts" "i < length ts" "th_mutex (ts ! i)"
  shows "\<exists>us. lock_step ts us"
proof -
  have "disciplined (ts ! i)" using assms by (simp add: mutex_inv_def)
  then show ?thesis
  proof (cases rule: disciplined_head)
    case (goes op rest st st')
    have "fst st = Held" using goes(2) assms(3) by (simp add: agrees_def)
    then have "enabled op ts" using goes(3) by (cases st; cases op) (auto split: if_splits)
    then show ?thesis using stepI assms(2) goes(1) by blast
  qed (use assms(3) in simp)
qed

lemma store_holder_goes:
  assumes "mutex_inv n ts" "i < length ts" "th_store (ts ! i)" "list_all (\<lambda>t. \<not> th_mutex t) ts"
  shows "\<exists>us. lock_step ts us"
proof -
  have "disciplined (ts ! i)" using assms by (simp add: mutex_inv_def)
  then show ?thesis
  proof (cases rule: disciplined_head)
    case (goes op rest st st')
    have "snd st" using goes(2) assms(3) by (simp add: agrees_def)
    then have "enabled op ts" using goes(3) assms(4) by (cases st; cases op) (auto split: if_splits)
    then show ?thesis using stepI assms(2) goes(1) by blast
  qed (use assms(3) in simp)
qed

lemma stuck_threads:
  assumes inv: "mutex_inv n ts" and stuck: "\<And>us. \<not> lock_step ts us" and i: "i < length ts"
  shows "\<not> th_mutex (ts ! i)" "\<not> th_store (ts ! i)"
    "th_ops (ts ! i) = [] \<or> i < n \<and> (\<exists>rest. th_ops (ts ! i) = Asleep # rest) \<or>
     (\<exists>k rest rest'. th_ops (ts ! i) = JoinThread k # rest \<and> k < n \<and> th_ops (ts ! k) = Asleep # rest')"
proof -
  have m: "list_all (\<lambda>t. \<not> th_mutex t) ts" using mutex_holder_goes [OF inv] stuck by (auto simp: list_all_length)
  have s: "list_all (\<lambda>t. \<not> th_store t) ts" using store_holder_goes [OF inv _ _ m] stuck by (auto simp: list_all_length)
  show "\<not> th_mutex (ts ! i)" "\<not> th_store (ts ! i)" using m s i by (simp_all add: list_all_length)
  have blocked: "op = Asleep \<or> (\<exists>k. op = JoinThread k)" if "j < length ts" "th_ops (ts ! j) = op # rest" for j op rest
    using stuck stepI [OF that] m s by (cases op) auto
  have own: "own_part n j (th_ops (ts ! j))" if "j < length ts" for j using inv that by (simp add: mutex_inv_def)
  have worker: "\<exists>rest. th_ops (ts ! k) = Asleep # rest" if n: "k < n" and left: "th_ops (ts ! k) \<noteq> []" for k
  proof -
    have k: "k < length ts" using inv n by (simp add: mutex_inv_def)
    obtain op rest where ops: "th_ops (ts ! k) = op # rest" using left by (cases "th_ops (ts ! k)") auto
    then show ?thesis using blocked [OF k ops] own [OF k] n by (auto simp: own_part_def)
  qed
  show "th_ops (ts ! i) = [] \<or> i < n \<and> (\<exists>rest. th_ops (ts ! i) = Asleep # rest) \<or>
     (\<exists>k rest rest'. th_ops (ts ! i) = JoinThread k # rest \<and> k < n \<and> th_ops (ts ! k) = Asleep # rest')"
  proof (cases "i < n")
    case True
    then show ?thesis using worker by blast
  next
    case False
    show ?thesis
    proof (cases "th_ops (ts ! i)")
      case (Cons op rest)
      then obtain k where k: "op = JoinThread k" "k < n"
        using blocked [OF i Cons] own [OF i] False by (auto simp: own_part_def)
      moreover have "th_ops (ts ! k) \<noteq> []"
        using stuck stepI [OF i Cons] k inv by (auto simp: mutex_inv_def)
      ultimately show ?thesis using worker Cons by blast
    qed simp
  qed
qed

section \<open>Events under the store mutex\<close>

text \<open>The events of a trace, each with whether \<open>store_mutex\<close> is held when it is published.\<close>

fun emissions :: "bool \<Rightarrow> lock_op list \<Rightarrow> (EventType \<times> bool) list" where
  "emissions s [] = []"
| "emissions s (StoreGuard # ops) = emissions True ops"
| "emissions s (StoreUnguard # ops) = emissions False ops"
| "emissions s (EmitEvent type # ops) = (type, s) # emissions s ops"
| "emissions s (_ # ops) = emissions s ops"

lemma emissions_append:
  "drives xs (h, s) = Some (h', s') \<Longrightarrow> emissions s (xs @ ys) = emissions s xs @ emissions s' ys"
proof (induction xs arbitrary: h s)
  case (Cons op xs)
  then show ?case by (cases op) (auto split: if_splits)
qed simp

lemma emissions_parts [simp]: "emissions s (critical @ ops) = emissions s ops"
  "emissions s (guarded_store what @ ops) = emissions False ops" "emissions s critical = []"
  "emissions s (guarded_store what) = []" "emissions s (map JoinThread ids @ ops) = emissions s ops"
proof -
  show "emissions s (map JoinThread ids @ ops) = emissions s ops" by (induction ids) simp_all
qed (simp_all add: critical_def guarded_store_def)

lemma emissions_probe:
  "retry_probe_locks root n c rounds = Some (ops, r) \<Longrightarrow> emissions True (ops @ ops') = emissions True ops'"
  by (induction root n c rounds arbitrary: ops rule: retry_probe_locks.induct)
     (auto split: sum.splits option.splits if_splits)

definition unguarded :: "(EventType \<times> bool) list \<Rightarrow> bool" where
  "unguarded es \<longleftrightarrow> list_all (\<lambda>(type, s). s \<longrightarrow> type = JobCancelled) es"

lemma unguarded_simps [simp]:
  "unguarded []" "unguarded ((type, s) # es) \<longleftrightarrow> (s \<longrightarrow> type = JobCancelled) \<and> unguarded es"
  "unguarded (xs @ ys) \<longleftrightarrow> unguarded xs \<and> unguarded ys"
  by (auto simp: unguarded_def)

lemma unguarded_retry: "retry_locks jid now m c w rounds w' = Some ops \<Longrightarrow> unguarded (emissions False ops)"
  by (auto simp: retry_locks_def emissions_probe split: sum.splits option.splits prod.splits)

lemma unguarded_submit [simp]: "unguarded (emissions False (submit_locks jid request now m c w))"
  by (simp add: submit_locks_def split: sum.splits prod.splits)

lemma emissions_idle [simp]: "emissions s (concat (replicate k critical)) = []"
  by (induction k) simp_all

lemma emissions_last_parts [simp]: "emissions s [LockConstruct, LockDestroy] = []"
  by simp

lemma unguarded_command: "command_trace n ops \<Longrightarrow> unguarded (emissions False ops)"
proof (induction rule: command_trace.induct)
  case (retrying jid now m c w rounds w' ops)
  then show ?case by (rule unguarded_retry)
next
  case (then_another ops ops')
  then show ?case using emissions_append [OF drives_command [OF then_another(1)]] by simp
next
  case (stopping to_join m)
  then show ?case using emissions_parts(5) [of False to_join "guarded_store ''shutdown''"] by (simp add: shutdown_locks_def)
qed (simp_all add: locks_defs Let_def split: sum.splits prod.splits option.splits)

section \<open>Properties\<close>

lemma reachable_mutex_inv:
  assumes "list_all worker_trace ws" "list_all (command_trace (length ws)) cs" "lock_step\<^sup>*\<^sup>* (lock_system ws cs) ts"
  shows "mutex_inv (length ws) ts"
  by (rule lock_sys.inv_reach [OF assms(3) lock_system_mutex_inv [OF assms(1,2)]])

text \<open>
  C9. The locking discipline (L2-JOB-003). Whatever workers and other threads use the manager, and
  however they are interleaved: the assertion on the lock count never ends the process, at most one
  thread holds each mutex, a thread that holds \<open>mutex\<close> gives it up with its next step, so nothing that
  blocks is done under it, a command calls the store with \<open>store_mutex\<close> and without \<open>mutex\<close>, and
  no event is published under \<open>mutex\<close>.
\<close>

theorem manager_lock_discipline:
  assumes "list_all worker_trace ws" "list_all (command_trace (length ws)) cs"
    and "lock_step\<^sup>*\<^sup>* (lock_system ws cs) ts" and "i < length ts"
  shows "\<not> th_aborted (ts ! i) \<and>
    (\<forall>j < length ts. j \<noteq> i \<longrightarrow> \<not> (th_mutex (ts ! i) \<and> th_mutex (ts ! j)) \<and> \<not> (th_store (ts ! i) \<and> th_store (ts ! j))) \<and>
    (th_mutex (ts ! i) \<longrightarrow> (\<exists>op rest. th_ops (ts ! i) = op # rest \<and> op \<in> {LockDestroy, LockUnlock, WaitRelease})) \<and>
    (\<forall>what rest. th_ops (ts ! i) = CommandStore what # rest \<longrightarrow> th_store (ts ! i) \<and> \<not> th_mutex (ts ! i)) \<and>
    (\<forall>type rest. th_ops (ts ! i) = EmitEvent type # rest \<longrightarrow> \<not> th_mutex (ts ! i))"
proof -
  have inv: "mutex_inv (length ws) ts" by (rule reachable_mutex_inv [OF assms(1-3)])
  then have d: "disciplined (ts ! i)" and e: "exclusive th_mutex ts" "exclusive th_store ts"
    using assms(4) by (simp_all add: mutex_inv_def)
  have ex: "\<forall>j < length ts. j \<noteq> i \<longrightarrow> \<not> (th_mutex (ts ! i) \<and> th_mutex (ts ! j)) \<and> \<not> (th_store (ts ! i) \<and> th_store (ts ! j))"
    using e assms(4) by (auto simp: exclusive_def)
  have "\<not> th_aborted (ts ! i)" using d by (auto simp: disciplined_def agrees_def)
  moreover from d have "(th_mutex (ts ! i) \<longrightarrow> (\<exists>op rest. th_ops (ts ! i) = op # rest \<and> op \<in> {LockDestroy, LockUnlock, WaitRelease})) \<and>
    (\<forall>what rest. th_ops (ts ! i) = CommandStore what # rest \<longrightarrow> th_store (ts ! i) \<and> \<not> th_mutex (ts ! i)) \<and>
    (\<forall>type rest. th_ops (ts ! i) = EmitEvent type # rest \<longrightarrow> \<not> th_mutex (ts ! i))"
  proof (cases rule: disciplined_head)
    case (goes op rest st st')
    then show ?thesis by (cases st; cases op) (auto simp: agrees_def split: if_splits)
  qed simp
  ultimately show ?thesis using ex by blast
qed

theorem manager_lock_discipline_witness:
  "\<exists>ts. lock_step (lock_system [] [accessor_locks, pump_locks]) ts \<and> th_mutex (ts ! 0) \<and> \<not> th_mutex (ts ! 1)"
proof -
  let ?s = "lock_system [] [accessor_locks, pump_locks]"
  let ?ts = "?s[0 := (perform LockConstruct (?s ! 0))\<lparr>th_ops := [LockDestroy]\<rparr>]"
  have s: "lock_step ?s ?ts"
    by (rule acts) (simp_all add: lock_system_def accessor_locks_def pump_locks_def critical_def new_thread_def)
  have "list_all (command_trace (length ([] :: lock_op list list))) [accessor_locks, pump_locks]"
    by (simp add: command_trace.accessor command_trace.pumping)
  from manager_lock_discipline [OF _ this r_into_rtranclp [of lock_step, OF s], of 0]
  have "\<forall>j < length ?ts. j \<noteq> 0 \<longrightarrow> \<not> (th_mutex (?ts ! 0) \<and> th_mutex (?ts ! j))" by (simp add: lock_system_def)
  moreover have "length ?ts = 2" "th_mutex (?ts ! 0)" by (simp_all add: lock_system_def ManagerLock_construct_def)
  ultimately show ?thesis using s by (metis one_less_numeral_iff semiring_norm(76) one_neq_zero)
qed

text \<open>
  The manager's threads cannot deadlock: when no thread can go on, both mutexes are free and every thread
  has come to the end of its trace, except workers that sleep in the wait and a shutdown that joins
  such a worker. A thread is in the run with its trace, so a manual retry is one whose search ends; that
  sleepers are woken is shown in the theory \<open>Manager_Wakeups\<close>.
\<close>

theorem manager_no_deadlock:
  assumes "list_all worker_trace ws" "list_all (command_trace (length ws)) cs"
    and "lock_step\<^sup>*\<^sup>* (lock_system ws cs) ts" and "\<And>us. \<not> lock_step ts us" and "i < length ts"
  shows "\<not> th_mutex (ts ! i) \<and> \<not> th_store (ts ! i) \<and>
    (th_ops (ts ! i) = [] \<or> i < length ws \<and> (\<exists>rest. th_ops (ts ! i) = Asleep # rest) \<or>
     (\<exists>k rest rest'. th_ops (ts ! i) = JoinThread k # rest \<and> k < length ws \<and> th_ops (ts ! k) = Asleep # rest'))"
  using stuck_threads [OF reachable_mutex_inv [OF assms(1-3)] assms(4,5)] by blast

theorem manager_no_deadlock_witness:
  "\<exists>ts. lock_step\<^sup>*\<^sup>* (lock_system [] [accessor_locks, pump_locks]) ts \<and> list_all (\<lambda>t. th_ops t = []) ts"
proof -
  obtain ts where r: "lock_step\<^sup>*\<^sup>* (lock_system [] [accessor_locks, pump_locks]) ts" and s: "\<forall>us. \<not> lock_step ts us"
    using lock_runs.run_ends by blast
  have "list_all (command_trace (length ([] :: lock_op list list))) [accessor_locks, pump_locks]"
    by (simp add: command_trace.accessor command_trace.pumping)
  from manager_no_deadlock [OF _ this r] s have "list_all (\<lambda>t. th_ops t = []) ts"
    by (simp add: list_all_length)
  with r show ?thesis by blast
qed

text \<open>
  \<open>cancel\<close> publishes its event with \<open>store_mutex\<close> held, and it is the only operation that does: its guard
  lives to the end of the function, while \<open>retry\<close> ends the scope first, so that no subscriber runs
  under \<open>store_mutex\<close>. While a subscriber handles the event no other command reaches the store.
\<close>

theorem cancel_publishes_under_store_mutex:
  assumes "cancel_claim jid m = Inr p" "fst (fst (cancel_durable jid c w)) = Ok"
  shows "emissions False (cancel_locks jid m c w) = [(JobCancelled, True)] \<and>
    (\<forall>n ops type. command_trace n ops \<longrightarrow> (type, True) \<in> set (emissions False ops) \<longrightarrow> type = JobCancelled)"
proof
  show "emissions False (cancel_locks jid m c w) = [(JobCancelled, True)]"
    using assms by (cases p) (auto simp: cancel_locks_def Let_def split: sum.splits option.splits)
  show "\<forall>n ops type. command_trace n ops \<longrightarrow> (type, True) \<in> set (emissions False ops) \<longrightarrow> type = JobCancelled"
    using unguarded_command by (fastforce simp: unguarded_def list_all_iff)
qed

definition cancel_manager :: manager where
  "cancel_manager = (new_manager ''/db'' new_Config)\<lparr>m_running := True, m_requests := [''j1'' \<mapsto> empty_request], m_runnable := [''j1'']\<rparr>"

theorem cancel_publishes_under_store_mutex_witness:
  "emissions False (cancel_locks ''j1'' cancel_manager open_conn demo_world) = [(JobCancelled, True)]"
proof -
  have "cancel_claim ''j1'' cancel_manager = Inr (True, cancel_manager\<lparr>m_runnable := []\<rparr>)"
    by (simp add: cancel_claim_def cancel_manager_def new_manager_def take_runnable_def smap_erase_def)
  moreover have "fst (fst (cancel_durable ''j1'' open_conn demo_world)) = Ok" by code_simp
  ultimately show ?thesis using cancel_publishes_under_store_mutex by blast
qed

end
