(* ===== verification/Manager_Wakeups.thy ===== *)
theory Manager_Wakeups
  imports Manager_Runs
begin

text \<open>
  Who is woken: the condition variable \<open>work_ready\<close> of \<open>cpp/src/manager.cpp\<close>. The workers of the pool are
  starting, about to test the queue, busy with a job, asleep in the wait, or gone; a critical section
  notifies nobody, one sleeper or all of them. The steps interleave with those of the theory
  \<open>Manager_Laws\<close>, and sleepers may wake without reason.
\<close>

declare split_paired_All [simp del] split_paired_Ex [simp del]

section \<open>Notifications\<close>

datatype notice = Nobody | NotifyOne | NotifyAll

text \<open>What each critical section notifies on its way out.\<close>

definition publish_notice :: "bool \<Rightarrow> notice" where
  "publish_notice ok = (if ok then NotifyOne else Nobody)"

definition resume_notice :: "CommandResult \<Rightarrow> notice" where
  "resume_notice result = (if result = Ok then NotifyOne else Nobody)"

definition cancel_notice :: "bool \<Rightarrow> CommandResult \<Rightarrow> notice" where
  "cancel_notice was_runnable outcome = (if outcome \<noteq> Ok \<and> was_runnable then NotifyOne else Nobody)"

definition pump_notice :: "nat \<Rightarrow> notice" where
  "pump_notice moved = (if moved > 0 then NotifyAll else Nobody)"

definition shutdown_notice :: "manager \<Rightarrow> notice" where
  "shutdown_notice m = (if m_running m then NotifyAll else Nobody)"

text \<open>The sections of the commands with their notification. A section that does not lengthen the queue, leaves
  \<open>stopping\<close> as it is and is no part of a worker's loop notifies nobody.\<close>

inductive notified :: "system \<Rightarrow> system \<Rightarrow> notice \<Rightarrow> bool" where
  publishing: "sy_tasks x = l @ Publishing k req rec # r \<Longrightarrow>
    notified x (x\<lparr>sy_mgr := submit_publish k req rec (sy_mgr x), sy_tasks := l @ r\<rparr>) (publish_notice rec)"
| resuming: "resume k ts (sy_mgr x) = ((result, e), evs, m) \<Longrightarrow> notified x (x\<lparr>sy_mgr := m\<rparr>) (resume_notice result)"
| cancelling: "sy_tasks x = l @ CancelEnding k was out # r \<Longrightarrow>
    notified x (x\<lparr>sy_mgr := cancel_settle k was out (sy_mgr x), sy_tasks := l @ r\<rparr>) (cancel_notice was out)"
| pumping: "pump now (sy_mgr x) = (moved, m) \<Longrightarrow> notified x (x\<lparr>sy_mgr := m\<rparr>) (pump_notice moved)"
| stopping: "notified x (x\<lparr>sy_mgr := shutdown_begin (sy_mgr x)\<rparr>) (shutdown_notice (sy_mgr x))"
| silent: "mgr_step x y \<Longrightarrow> length (m_runnable (sy_mgr y)) \<le> length (m_runnable (sy_mgr x)) \<Longrightarrow>
    m_stopping (sy_mgr y) = m_stopping (sy_mgr x) \<Longrightarrow> of_tasks work_of y = of_tasks work_of x \<Longrightarrow> notified x y Nobody"

section \<open>The pool\<close>

datatype worker = Starting | Ready | Busy | Sleeping | Gone

text \<open>The pools a notification can lead to: \<open>notify_one\<close> wakes any one sleeper.\<close>

fun woken :: "notice \<Rightarrow> worker list \<Rightarrow> worker list \<Rightarrow> bool" where
  "woken Nobody ws ws' \<longleftrightarrow> ws' = ws"
| "woken NotifyOne ws ws' \<longleftrightarrow> (if Sleeping \<in> set ws then \<exists>l r. ws = l @ Sleeping # r \<and> ws' = l @ Ready # r else ws' = ws)"
| "woken NotifyAll ws ws' \<longleftrightarrow> ws' = map (\<lambda>s. if s = Sleeping then Ready else s) ws"

inductive wake_step :: "system \<times> worker list \<Rightarrow> system \<times> worker list \<Rightarrow> bool" where
  command: "notified x y n \<Longrightarrow> woken n ws ws' \<Longrightarrow> wake_step (x, ws) (y, ws')"
| spawns: "start pa (sy_mgr x) (sy_world x) = (Inr count, m, w) \<Longrightarrow>
    wake_step (x, ws) (x\<lparr>sy_mgr := m, sy_world := w\<rparr>, ws @ replicate count Starting)"
| opens_store: "wake_step (x, l @ Starting # r) (x, l @ Ready # r)"
| cannot_open: "wake_step (x, l @ Starting # r) (x, l @ Gone # r)"
| sleeps: "\<not> worker_ready (sy_mgr x) \<Longrightarrow> wake_step (x, l @ Ready # r) (x, l @ Sleeping # r)"
| leaves: "worker_exits (sy_mgr x) \<Longrightarrow> wake_step (x, l @ Ready # r) (x, l @ Gone # r)"
| takes_job: "m_runnable (sy_mgr x) \<noteq> [] \<Longrightarrow> worker_take (sy_mgr x) = ((k, req, st), m) \<Longrightarrow>
    wake_step (x, l @ Ready # r) (x\<lparr>sy_mgr := m, sy_tasks := Working k req st now c # sy_tasks x\<rparr>, l @ Busy # r)"
| returns: "sy_tasks x = tl' @ Settling k due # tr \<Longrightarrow>
    wake_step (x, l @ Busy # r) (x\<lparr>sy_mgr := worker_settle k due (sy_mgr x), sy_tasks := tl' @ tr\<rparr>, l @ Ready # r)"
| spurious: "wake_step (x, l @ Sleeping # r) (x, l @ Ready # r)"

text \<open>Who sleeps has nothing to do: while a worker is asleep every queued job has a worker of its own that is
  about to test the queue, and nobody sleeps in a manager that is stopping.\<close>

definition wake_inv :: "system \<times> worker list \<Rightarrow> bool" where
  "wake_inv s \<longleftrightarrow> (case s of (x, ws) \<Rightarrow> Sleeping \<in> set ws \<longrightarrow>
     length (m_runnable (sy_mgr x)) \<le> count_list ws Ready \<and> \<not> m_stopping (sy_mgr x))"

lemma count_split [simp]: "count_list (l @ s # r) Ready = count_list l Ready + count_list r Ready + (if s = Ready then 1 else 0)"
  by simp

text \<open>A section never leaves more new jobs than it wakes sleepers.\<close>

lemma woken_one: "woken NotifyOne ws ws' \<Longrightarrow> Sleeping \<in> set ws' \<Longrightarrow> count_list ws' Ready = Suc (count_list ws Ready) \<and> Sleeping \<in> set ws"
  by (auto split: if_splits)

lemma notified_queue:
  assumes "notified x y n"
  shows "n = Nobody \<and> length (m_runnable (sy_mgr y)) \<le> length (m_runnable (sy_mgr x)) \<and> m_stopping (sy_mgr y) = m_stopping (sy_mgr x) \<or>
    n = NotifyOne \<and> length (m_runnable (sy_mgr y)) \<le> Suc (length (m_runnable (sy_mgr x))) \<and> m_stopping (sy_mgr y) = m_stopping (sy_mgr x) \<or>
    n = NotifyAll"
  using assms
proof cases
  case (resuming k ts result e evs m)
  then show ?thesis by (auto simp: resume_notice_def resume_def Let_def split: if_splits)
next
  case (pumping now moved m)
  then show ?thesis by (auto simp: pump_notice_def pump_unfold split: if_splits)
qed (auto simp: publish_notice_def cancel_notice_def shutdown_notice_def submit_publish_def cancel_settle_def shutdown_begin_def
      Let_def)

lemma wake_inv_step:
  assumes "wake_step a b" and "wake_inv a"
  shows "wake_inv b"
  using assms(1)
proof cases
  case (command x y n ws ws')
  consider "n = Nobody" | "n = NotifyOne" | "n = NotifyAll" by (cases n) auto
  then show ?thesis
  proof cases
    case 1
    with command notified_queue [OF command(3)] assms(2) show ?thesis by (auto simp: wake_inv_def)
  next
    case 2
    have q: "length (m_runnable (sy_mgr y)) \<le> Suc (length (m_runnable (sy_mgr x)))" "m_stopping (sy_mgr y) = m_stopping (sy_mgr x)"
      using notified_queue [OF command(3)] 2 by simp_all
    have "Sleeping \<in> set ws' \<Longrightarrow> count_list ws' Ready = Suc (count_list ws Ready) \<and> Sleeping \<in> set ws"
      using woken_one command(4) 2 by blast
    then show ?thesis using assms(2) q command(1,2) by (auto simp: wake_inv_def)
  next
    case 3
    with command show ?thesis by (auto simp: wake_inv_def split: if_splits)
  qed
next
  case (spawns pa x count m w ws)
  with assms(2) show ?thesis
    by (auto simp: wake_inv_def start_def split: if_splits prod.splits sum.splits)
next
  case (takes_job x k req st m l r now c)
  with assms(2) show ?thesis
    by (cases "m_runnable (sy_mgr x)") (auto simp: wake_inv_def worker_take_def Let_def)
next
  case (returns x tl' k due tr l r)
  with assms(2) show ?thesis by (auto simp: wake_inv_def worker_settle_def Let_def split: option.splits)
qed (use assms(2) in \<open>auto simp: wake_inv_def worker_ready_def worker_exits_def\<close>)

interpretation wake_sys: step_system wake_step wake_inv
  by unfold_locales (rule wake_inv_step)

text \<open>Nothing is left out: every step of the manager is a step of the pool, with some worker at hand for the
  worker's own steps.\<close>

lemma pool_covers:
  assumes "mgr_step x y" and "Ready \<in> set ws" and "Busy \<in> set ws"
  shows "\<exists>ws'. wake_step (x, ws) (y, ws')"
proof -
  have any: "\<exists>ws'. woken n ws ws'" for n
  proof (cases "n = NotifyOne \<and> Sleeping \<in> set ws")
    case True
    then obtain l r where "ws = l @ Sleeping # r" using split_list by metis
    with True show ?thesis by auto
  qed (cases n; auto)
  have cmd: "notified x y n \<Longrightarrow> ?thesis" for n using any [of n] wake_step.command by blast
  obtain l r where ready: "ws = l @ Ready # r" using split_list [OF assms(2)] by blast
  obtain bl br where busy: "ws = bl @ Busy # br" using split_list [OF assms(3)] by blast
  from assms(1) show ?thesis
  proof cases
    case (starts pa res m w)
    show ?thesis
    proof (cases res)
      case (Inl e)
      then have "notified x y Nobody"
        using assms(1) starts by (intro notified.silent) (auto simp: start_def split: if_splits prod.splits sum.splits)
      then show ?thesis by (rule cmd)
    next
      case (Inr count)
      then show ?thesis using starts wake_step.spawns [of pa x count m w ws] by auto
    qed
  next
    case stops
    then show ?thesis using cmd notified.stopping [of x] by simp
  next
    case (publishes l k req rec r)
    then show ?thesis using cmd notified.publishing [OF publishes(2)] by simp
  next
    case (resumes k ts e evs m)
    then show ?thesis using cmd notified.resuming [OF resumes(2)] by simp
  next
    case (cancel_ends l k was out r)
    then show ?thesis using cmd notified.cancelling [OF cancel_ends(2)] by simp
  next
    case (takes k req st m now c)
    then show ?thesis using wake_step.takes_job [OF takes(2,3)] ready by blast
  next
    case (settles l k due r)
    then show ?thesis using wake_step.returns [OF settles(2)] busy by blast
  next
    case (pumps now moved m)
    then show ?thesis using cmd notified.pumping [OF pumps(2)] by simp
  qed (rule cmd [OF notified.silent [OF assms(1)]];
      auto simp: section_defs Let_def length_remove1 split: if_splits prod.splits sum.splits option.splits)+
qed

section \<open>Properties\<close>

text \<open>
  C10. No wakeup is lost, whatever the interleaving of commands and workers and however often a worker
  wakes without reason: while a worker is asleep, every job in the queue has a
  worker that is about to test the queue and the manager is not stopping; so a queued job waits
  only when no worker sleeps, and after \<open>shutdown\<close> has begun no worker sleeps through it.
\<close>

theorem manager_no_lost_wakeup:
  assumes "wake_step\<^sup>*\<^sup>* (fresh_system path cfg w, []) (x, ws)"
  shows "(Sleeping \<in> set ws \<longrightarrow> length (m_runnable (sy_mgr x)) \<le> count_list ws Ready) \<and>
    (m_runnable (sy_mgr x) \<noteq> [] \<and> Ready \<notin> set ws \<longrightarrow> Sleeping \<notin> set ws) \<and>
    (m_stopping (sy_mgr x) \<longrightarrow> Sleeping \<notin> set ws)"
proof -
  have "wake_inv (fresh_system path cfg w, [])" by (simp add: wake_inv_def)
  from wake_sys.inv_reach [OF assms this] show ?thesis
    by (auto simp: wake_inv_def count_list_0_iff [symmetric] simp del: count_list_0_iff)
qed

text \<open>The pool of the example: one worker falls asleep before the job of the example is submitted and is
  woken by it.\<close>

theorem manager_no_lost_wakeup_witness:
  "\<exists>ws. wake_step\<^sup>*\<^sup>* (fresh_system ''/db'' small_config mv_world, []) (sys rm3 rw2 [], ws) \<and>
     ws = [Ready, Starting] \<and> (m_runnable rm3 \<noteq> [] \<and> Ready \<notin> set ws \<longrightarrow> Sleeping \<notin> set ws)"
proof -
  have silent: "wake_step (x, ws) (y, ws)" if "mgr_step x y" "length (m_runnable (sy_mgr y)) \<le> length (m_runnable (sy_mgr x))"
    "m_stopping (sy_mgr y) = m_stopping (sy_mgr x)" "of_tasks work_of y = of_tasks work_of x" for x y ws
    by (rule wake_step.command [OF notified.silent [OF that]]) simp
  have n: "notified (sys rm2 rw2 [Publishing ''j9'' mv_request True]) (sys rm3 rw2 []) NotifyOne"
    using notified.publishing [of "sys rm2 rw2 [Publishing ''j9'' mv_request True]" "[]" "''j9''" mv_request True "[]"]
    by (simp add: publish_notice_def rm3_def sys_def)
  have wk: "woken NotifyOne [Sleeping, Starting] [Ready, Starting]" by simp (metis append_Nil)
  have q: "m_runnable rm1 = []" "m_runnable rm2 = []" "\<not> m_stopping rm1" "\<not> m_stopping rm2" by code_simp+
  have "fst (start healthy rm0 mv_world) = Inr 2" by code_simp
  then have "start healthy rm0 mv_world = (Inr 2, rm1, rw1)" by (simp add: rm1_def rw1_def prod_eq_iff)
  then have "wake_step (sys rm0 mv_world [], []) (sys rm1 rw1 [], [Starting, Starting])"
    using wake_step.spawns [of healthy "sys rm0 mv_world []" 2 rm1 rw1 "[]"] by (simp add: sys_def numeral_2_eq_2)
  then have "wake_step\<^sup>*\<^sup>* (sys rm0 mv_world [], []) (sys rm1 rw1 [], [Starting, Starting])" by blast
  also have "wake_step (sys rm1 rw1 [], [Starting, Starting]) (sys rm1 rw1 [], [Ready, Starting])"
    using wake_step.opens_store [of _ "[]" "[Starting]"] by simp
  also have "wake_step (sys rm1 rw1 [], [Ready, Starting]) (sys rm1 rw1 [], [Sleeping, Starting])"
    using wake_step.sleeps [of "sys rm1 rw1 []" "[]" "[Starting]"] q by (simp add: worker_ready_def)
  also have "wake_step (sys rm1 rw1 [], [Sleeping, Starting]) (sys rm2 rw1 [Recording ''j9'' mv_request 5 []], [Sleeping, Starting])"
    by (rule silent [OF submit_run(2)]) (simp_all add: q)
  also have "wake_step (sys rm2 rw1 [Recording ''j9'' mv_request 5 []], [Sleeping, Starting]) (sys rm2 rw2 [Publishing ''j9'' mv_request True], [Sleeping, Starting])"
    by (rule silent [OF submit_run(3)]) simp_all
  also have "wake_step (sys rm2 rw2 [Publishing ''j9'' mv_request True], [Sleeping, Starting]) (sys rm3 rw2 [], [Ready, Starting])"
    by (rule wake_step.command [OF n wk])
  finally have run: "wake_step\<^sup>*\<^sup>* (fresh_system ''/db'' small_config mv_world, []) (sys rm3 rw2 [], [Ready, Starting])"
    by (simp only: fresh_sys)
  from manager_no_lost_wakeup [OF run] run show ?thesis by simp
qed

end
