(* ===== verification/Rename_Template.thy ===== *)
theory Rename_Template
  imports Event_Log Fsops
begin

text \<open>
  Rename templates (\<open>cpp/src/rename_template.cpp\<close>). The scan position is the template that is
  left. The laws give the language of accepted templates as sequences of literal characters and
  named fields, and show that an expansion is always a plain name in the sense of the
  descriptor-relative layer.
\<close>

section \<open>Operations\<close>

record RenameContext =
  at_ms :: int
  sequence :: "64 word"

definition split_name :: "string \<Rightarrow> string \<times> string" where
  "split_name name = (case rfind_char (CHR ''.'') name of
     None \<Rightarrow> (name, [])
   | Some dot \<Rightarrow> (if dot = 0 then (name, []) else (substr 0 dot name, drop (dot + 1) name)))"

definition format_ts :: "int \<Rightarrow> string" where
  "format_ts t =
     (let seconds = t sdiv 1000; millis = t smod 1000 in
      case gmtime seconds of
        None \<Rightarrow> ''INVALID-TIMESTAMP''
      | Some utc \<Rightarrow>
          zero_pad 4 (tm_year utc + 1900) @ zero_pad 2 (tm_mon utc + 1) @ zero_pad 2 (tm_mday utc) @ ''T'' @
          zero_pad 2 (tm_hour utc) @ zero_pad 2 (tm_min utc) @ zero_pad 2 (tm_sec utc) @ ''.'' @ zero_pad 3 millis)"

definition format_seq :: "64 word \<Rightarrow> string" where
  "format_seq s = zero_pad 6 (uint s)"

definition field_value :: "string \<Rightarrow> RenameContext \<Rightarrow> string \<Rightarrow> string option" where
  "field_value source_name ctx field =
     (if field = ''name'' then Some source_name
      else if field = ''stem'' then Some (fst (split_name source_name))
      else if field = ''ext'' then Some (snd (split_name source_name))
      else if field = ''ts'' then Some (format_ts (at_ms ctx))
      else if field = ''seq'' then Some (format_seq (sequence ctx))
      else None)"

function expand_loop :: "string \<Rightarrow> RenameContext \<Rightarrow> string \<Rightarrow> string \<Rightarrow> string res" where
  "expand_loop source_name ctx result templ =
     (if templ = [] then Inr result
      else if hd templ \<noteq> CHR ''{''
      then (if hd templ = CHR ''}'' then Inl (''stray '' @ QUOTE @ ''}'' @ QUOTE @ '' in rename template'')
            else expand_loop source_name ctx (result @ [hd templ]) (tl templ))
      else case find_char (CHR ''}'') templ of
        None \<Rightarrow> Inl (''unclosed '' @ QUOTE @ ''{'' @ QUOTE @ '' in rename template'')
      | Some close \<Rightarrow>
          (let field = substr 1 (close - 1) templ in
           case field_value source_name ctx field of
             None \<Rightarrow> Inl (''unknown rename template field '' @ DQ # ''{'' @ field @ ''}'' @ [DQ])
           | Some v \<Rightarrow> expand_loop source_name ctx (result @ v) (drop (close + 1) templ)))"
  by pat_completeness auto
termination
  by (relation "measure (\<lambda>(_, _, _, templ). length templ)") auto

declare expand_loop.simps [simp del]

definition expand_rename_template :: "string \<Rightarrow> string \<Rightarrow> RenameContext \<Rightarrow> string res" where
  "expand_rename_template templ source_name ctx = (case expand_loop source_name ctx [] templ of
     Inl e \<Rightarrow> Inl e
   | Inr result \<Rightarrow>
      (if result = [] \<or> result = ''.'' \<or> result = ''..'' then Inl ''rename template expands to an invalid name''
       else if CHR ''/'' \<in> set result \<or> NUL \<in> set result
       then Inl (''expanded rename target must not contain '' @ QUOTE @ ''/'' @ QUOTE @ '' or NUL'')
       else Inr result))"

section \<open>The language of templates\<close>

datatype piece = Literal char | Field string

fun piece_text :: "piece \<Rightarrow> string" where
  "piece_text (Literal c) = [c]"
| "piece_text (Field f) = CHR ''{'' # f @ ''}''"

fun piece_ok :: "piece \<Rightarrow> bool" where
  "piece_ok (Literal c) \<longleftrightarrow> c \<noteq> CHR ''{'' \<and> c \<noteq> CHR ''}''"
| "piece_ok (Field f) \<longleftrightarrow> f \<in> {''name'', ''stem'', ''ext'', ''ts'', ''seq''}"

fun piece_value :: "string \<Rightarrow> RenameContext \<Rightarrow> piece \<Rightarrow> string" where
  "piece_value source_name ctx (Literal c) = [c]"
| "piece_value source_name ctx (Field f) = the (field_value source_name ctx f)"

definition template_text :: "piece list \<Rightarrow> string" where
  "template_text ps = concat (map piece_text ps)"

definition template_value :: "string \<Rightarrow> RenameContext \<Rightarrow> piece list \<Rightarrow> string" where
  "template_value source_name ctx ps = concat (map (piece_value source_name ctx) ps)"

lemma template_Nil [simp]: "template_text [] = []" "template_value s ctx [] = []"
  by (simp_all add: template_text_def template_value_def)

lemma template_Cons [simp]:
  "template_text (p # ps) = piece_text p @ template_text ps"
  "template_value s ctx (p # ps) = piece_value s ctx p @ template_value s ctx ps"
  by (simp_all add: template_text_def template_value_def)

lemma field_value_known: "field_value s ctx f \<noteq> None \<longleftrightarrow> f \<in> {''name'', ''stem'', ''ext'', ''ts'', ''seq''}"
  by (simp add: field_value_def)

lemma known_field_no_brace: "f \<in> {''name'', ''stem'', ''ext'', ''ts'', ''seq''} \<Longrightarrow> CHR ''}'' \<notin> set f"
  by auto

lemma expand_loop_pieces:
  "list_all piece_ok ps \<Longrightarrow> expand_loop s ctx result (template_text ps) = Inr (result @ template_value s ctx ps)"
proof (induction ps arbitrary: result)
  case Nil
  then show ?case by (simp add: expand_loop.simps)
next
  case (Cons p ps)
  show ?case
  proof (cases p)
    case (Literal c)
    then show ?thesis using Cons by (subst expand_loop.simps) simp
  next
    case (Field f)
    then have f: "f \<in> {''name'', ''stem'', ''ext'', ''ts'', ''seq''}" using Cons.prems by simp
    then obtain v where v: "field_value s ctx f = Some v" using field_value_known by blast
    have "find_char (CHR ''}'') ((CHR ''{'' # f) @ CHR ''}'' # template_text ps) = Some (length (CHR ''{'' # f))"
      using known_field_no_brace [OF f] by (intro find_char_hit) auto
    then show ?thesis using Cons Field v
      by (subst expand_loop.simps) (simp add: substr_def)
  qed
qed

lemma expand_loop_inv:
  "expand_loop s ctx result templ = Inr r \<Longrightarrow>
    \<exists>ps. list_all piece_ok ps \<and> templ = template_text ps \<and> r = result @ template_value s ctx ps"
proof (induction s ctx result templ rule: expand_loop.induct)
  case (1 s ctx result templ)
  note prem = "1.prems" [unfolded expand_loop.simps [of s ctx result templ]]
  show ?case
  proof (cases templ)
    case Nil
    then show ?thesis using "1.prems" by (auto simp: expand_loop.simps intro!: exI [of _ "[]"])
  next
    case (Cons c cs)
    show ?thesis
    proof (cases "c = CHR ''{''")
      case False
      then have "c \<noteq> CHR ''}''" "expand_loop s ctx (result @ [c]) cs = Inr r"
        using prem Cons by (auto split: if_splits)
      then obtain ps where "list_all piece_ok ps" "cs = template_text ps" "r = (result @ [c]) @ template_value s ctx ps"
        using "1.IH"(1) Cons False by auto
      then show ?thesis using Cons False \<open>c \<noteq> CHR ''}''\<close> by (intro exI [of _ "Literal c # ps"]) simp
    next
      case True
      then obtain close v where close: "find_char (CHR ''}'') templ = Some close"
        "field_value s ctx (substr 1 (close - 1) templ) = Some v"
        "expand_loop s ctx (result @ v) (drop (close + 1) templ) = Inr r"
        using prem Cons by (auto simp: Let_def split: option.splits)
      then obtain ps where ps: "list_all piece_ok ps" "drop (close + 1) templ = template_text ps"
        "r = (result @ v) @ template_value s ctx ps"
        using "1.IH"(2) [of close "substr 1 (close - 1) templ" v] Cons True by auto
      have at: "close < length templ" "templ ! close = CHR ''}''" using find_char_SomeD [OF close(1)] by auto
      obtain j where j: "close = Suc j" using close(1) Cons True by (cases close) auto
      have "templ = take close templ @ CHR ''}'' # drop (Suc close) templ"
        using id_take_nth_drop [OF at(1)] at(2) by simp
      then have "templ = piece_text (Field (substr 1 (close - 1) templ)) @ drop (close + 1) templ"
        using Cons True by (simp add: j substr_def)
      moreover have "piece_ok (Field (substr 1 (close - 1) templ))"
        using close(2) field_value_known [of s ctx "substr 1 (close - 1) templ"] by simp
      ultimately show ?thesis using ps close(2)
        by (intro exI [of _ "Field (substr 1 (close - 1) templ) # ps"]) simp
    qed
  qed
qed

text \<open>
  C35. Expansion is exact: it succeeds with a name exactly when the template is a sequence of
  ordinary characters and of the five fields \<open>{name}\<close>, \<open>{stem}\<close>, \<open>{ext}\<close>, \<open>{ts}\<close>, \<open>{seq}\<close>, the name is the
  concatenation of their values, and that name is plain: not empty, neither \<open>.\<close> nor \<open>..\<close>, without
  \<open>/\<close> and NUL. A template can therefore never make a rename leave its directory.
\<close>

theorem expand_exact:
  "expand_rename_template templ source_name ctx = Inr out \<longleftrightarrow>
     (\<exists>ps. list_all piece_ok ps \<and> templ = template_text ps \<and> out = template_value source_name ctx ps) \<and>
     is_plain_name out"
proof -
  have "expand_rename_template templ source_name ctx = Inr out \<longleftrightarrow>
      expand_loop source_name ctx [] templ = Inr out \<and> is_plain_name out"
    by (auto simp: expand_rename_template_def is_plain_name_def find_char_None split: sum.splits)
  moreover have "expand_loop source_name ctx [] templ = Inr out \<longleftrightarrow>
      (\<exists>ps. list_all piece_ok ps \<and> templ = template_text ps \<and> out = template_value source_name ctx ps)"
    using expand_loop_inv [of source_name ctx "[]" templ out] expand_loop_pieces [where result = "[]"] by auto
  ultimately show ?thesis by blast
qed

lemma expand_loop_error [msg_nonempty]: "expand_loop s ctx result templ = Inl e \<Longrightarrow> e \<noteq> []"
proof (induction s ctx result templ rule: expand_loop.induct)
  case (1 s ctx result templ)
  note prem = "1.prems" [unfolded expand_loop.simps [of s ctx result templ]]
  show ?case using prem "1.IH" by (auto simp: Let_def split: if_splits option.splits)
qed

lemma expand_error [msg_nonempty]: "expand_rename_template templ s ctx = Inl e \<Longrightarrow> e \<noteq> []"
  by (auto simp: expand_rename_template_def dest: expand_loop_error split: sum.splits if_splits)

end
