(* ===== verification/Spec2Isabelle.thy ===== *)
theory Spec2Isabelle
  imports Service_Runs Queue_Delivery Manager_Locks_Laws Manager_Wakeups Rename_Template
begin

text \<open>
  \<^bold>\<open>Background File Mover\<close>: a verification library of the C++ daemon under \<open>cpp/\<close>, which moves files
  between directories on request, records every job in a SQLite store before it acts, and answers
  HTTP requests with JSON.

  \<^bold>\<open>The program and its model.\<close> A request enters through the socket layer (\<open>server.cpp\<close>: \<open>Server\<close>), is read
  and framed by the connection loop (\<open>http_service.cpp\<close>: \<open>Http_Service\<close>) with the HTTP parser
  (\<open>http_parser.cpp\<close>: \<open>Http_Parser\<close>), is decoded (\<open>json.cpp\<close>, \<open>api_codec.cpp\<close>: \<open>Json\<close>, \<open>Api_Codec\<close>) and dispatched
  (\<open>router.cpp\<close>: \<open>Router\<close>) to the job manager (\<open>manager.cpp\<close>: \<open>Manager\<close>). The manager records the job in the
  store (\<open>store.cpp\<close>: \<open>Store\<close>) and hands it to a worker, which moves the file with the engine (\<open>mover.cpp\<close>:
  \<open>Mover\<close>) through the descriptor-relative file operations (\<open>fsops.cpp\<close>: \<open>Fsops\<close>). What happens is
  published (\<open>events.cpp\<close>: \<open>Events\<close>) and logged (\<open>event_log.cpp\<close>: \<open>Event_Log\<close>). The daemon (\<open>service.cpp\<close>,
  \<open>main.cpp\<close>: \<open>Service\<close>) loads the configuration (\<open>config.cpp\<close>: \<open>Config\<close>), takes the instance lock
  (\<open>singleton.cpp\<close>: \<open>Singleton\<close>) and starts and stops all of it. \<open>rename_template.cpp\<close> is \<open>Rename_Template\<close>,
  the job type and its state machine (\<open>job.cpp\<close>) are \<open>Job\<close>. The mutexes of the manager are \<open>Manager_Locks\<close>.

  Definitions keep the names of the code; a record is a class or struct, a datatype an enumeration, a
  result \<open>Inl message\<close> an error return. \<open>Prelude\<close> holds the string, decimal and sorted-map functions
  of the standard library that the code uses, and the locales for token tables, keyed tables, step
  systems, ranked steps and steps that use up work, each interpreted on the definitions that provide it (\<open>job_tokens\<close>,
  \<open>store_sys\<close>, \<open>mgr_sys\<close>, \<open>stmt_sys\<close>, \<open>calm_sys\<close>, \<open>wake_sys\<close>, \<open>pub_sys\<close>, \<open>pool_sys\<close>, \<open>inst_sys\<close>, \<open>sig_sys\<close>, \<open>svc_sys\<close>,
  \<open>lock_sys\<close>, \<open>lock_runs\<close>, \<open>work_runs\<close> and others).
  \<open>Engine_Frame\<close> states once what the engine and the manager keep of a relation on worlds that the
  store and file operations keep: locale \<open>engine_frame\<close> for what is done for one job, locale \<open>world_frame\<close>
  for everything, with the first as its sublocale. They are interpreted for the safety of the durable
  record (\<open>durable\<close>, in \<open>Manager_Laws\<close>), for the environment (\<open>env\<close>, in \<open>Manager_Frame\<close>), for what a job leaves
  to the others (\<open>own\<close>, in \<open>Queue_Delivery\<close>) and for the single calls a worker makes (\<open>stmts\<close>, in
  \<open>Manager_Statements\<close>). \<open>World\<close> is what the program acts on: a file
  system of directories and inodes, the job table, schedules that make any system or SQLite call
  fail, and other processes that change the file system between calls. A failing call changes
  nothing, so a theorem over all schedules covers a crash before every call.

  \<^bold>\<open>Threads.\<close> Code that releases a mutex is cut there. \<open>mgr_step\<close> (\<open>Manager_Laws\<close>) interleaves the critical
  and unlocked sections of commands and workers. The unlocked part of a worker runs on a connection of
  its own, so \<open>stmt_step\<close> (\<open>Manager_Statements\<close>) cuts it further, at every store and system call, with the
  SELECT and the UPDATE of \<open>update_state\<close> as separate steps; a section in one piece is one of its runs.
  \<open>wake_step\<close> (\<open>Manager_Wakeups\<close>) adds the condition variable: who sleeps, and whom each operation notifies.
  \<open>pub_step\<close> (\<open>Events\<close>) interleaves publishing and unsubscribing, \<open>pool_step\<close> (\<open>Server_Laws\<close>) acceptor and
  handlers, \<open>sig_step\<close> (\<open>Service_Laws\<close>) the main thread and the signals, \<open>svc_step\<close> (\<open>Service_Runs\<close>) several
  instances of the daemon that start, work, stop and die on one machine. Safety is proved as an
  invariant of every run. These relations take a critical section as one step; that the mutexes make
  it one is the subject of \<open>Manager_Locks\<close>, where each operation is the trace of what it does to the two
  mutexes, with the guards of the code, and \<open>lock_step\<close> interleaves the traces of any number of threads.

  \<^bold>\<open>What the theorems show.\<close>
  \<^item> Moves and recovery (\<open>Fsops_Laws\<close>, \<open>Mover_Laws\<close>): as long as no other process interferes, no move
    loses its file or acts without a durable record, whatever fails; the move to the staging name
    overwrites nothing, whoever interferes, while the publication replaces a file that already has the
    final name, as the code intends; a file that was checked is the file that is opened; any number of
    crashed attempts followed by a healthy recovery delivers the file.
  \<^item> The store (\<open>Store_Laws\<close>): records survive every operation and restart and only move along the
    state machine; each operation refines the transition of \<open>Job\<close>; write failures are classified by the
    commit point; an existing store is opened only after its integrity check, unless the \<open>stat\<close> that
    looks for it fails.
  \<^item> The manager (\<open>Manager_Laws\<close>, \<open>Manager_Runs\<close>, \<open>Manager_Statements\<close>): every interleaving, down to single
    calls, keeps the store well-formed, every recorded job and the dispatch books; records only go
    forward as long as nobody else works on the job a worker has in hand; no job is in two hands as
    long as no pause overlaps a cancellation of the same job; a failed attempt is retried or settled;
    a retry takes the first free id. The races that break this otherwise are theorems as well.
    \<open>Manager_Wakeups\<close>: no wakeup is lost, so work never waits while all workers sleep. \<open>Shutdown\<close>: a shutdown closes the intake and the workers empty
    the queue before they return. \<open>Manager_Locks_Laws\<close>: nothing that blocks is done under the manager
    mutex, the assertion on the lock count never fires, and the threads cannot deadlock; \<open>cancel\<close> alone
    publishes under the store mutex. \<open>Manager_Frame\<close>: no step changes the environment.
  \<^item> The HTTP side (\<open>Json_Laws\<close>, \<open>Api_Codec\<close>, \<open>Http_Laws\<close>, \<open>Router_Laws\<close>, \<open>Server_Laws\<close>, \<open>Http_Service_Laws\<close>): what the
    parsers accept is bounded and well-formed, what the program writes is read back, fragmentation
    does not matter, a peer cannot make the service read without limit, a 202 means the job is durable,
    a command is applied exactly as its path says, every request is a run of manager steps, the pool is bounded and drops nothing.
  \<^item> End to end (\<open>Delivery\<close>): the bytes of a submission, however they are cut, reach an idle daemon, and if
    nothing fails the answer is 202 and one worker round later the file has its destination name.
    \<open>Queue_Delivery\<close>: a shutdown in which nothing fails ends with every queued file delivered, however the
    workers interleave.
  \<^item> The daemon (\<open>Singleton\<close>, \<open>Service_Laws\<close>, \<open>Service_Runs\<close>): start-up is all or nothing, one instance works
    on a database at a time as long as no job moves the lock file itself, no stop signal is lost or
    ends the process, the watchdog pings on time.
  \<^item> Configuration, logging, events, templates: valid configurations and only those are accepted, a log
    entry is one line whatever it contains, a callback is not called after \<open>unsubscribe\<close> has returned to a thread that was not
    itself in a callback, a template
    cannot leave its directory.

  \<^bold>\<open>Loops.\<close> Every loop is total, with its own measure, except the search for a retry id, which the code
  does not bound although its counter is an \<open>int\<close>: it is a partial function whose value \<open>None\<close> is a counter that
  overflows, and it is proved to return as long as fewer ids are taken than an \<open>int\<close> can count. The loops that read from a connection consume a list of receive results, whose end is the
  deadline; JSON nesting is counted down from \<open>max_depth\<close>, so depth cannot exhaust the stack.
  The lock trace of a worker takes the list of its rounds, and the end of the list is a worker that
  sleeps for good; the trace of a retry takes the list of its probes and has no value when the search goes on.

  \<^bold>\<open>Not modelled.\<close> SQLite itself (its statements are functions on the job table; durability of a commit
  is assumed) and the system calls (their documented behaviour, with arbitrary failures); threads as such (their creation and joins are the rules of the step relations);
  the test hooks (the phase hook, the progress callback, the replaceable clock) and the locks inside
  the publisher and the log sink, which are taken and released within one publication; the process id written into the lock
  file, which nothing reads; stream buffering in \<open>main\<close>; the fuzz harnesses, the tests and the vendored
  SQLite and Catch2 sources.
\<close>

end
